(* ===== verification/Diag_Prelude.thy ===== *)
theory Diag_Prelude
  imports Main "HOL-Library.Word" "HOL-Library.AList"
begin

section \<open>Prelude: the values the library passes around\<close>

text \<open>
  What every theory of the development shares: the C integer types, the values of GLib's
  variant type as the library builds them, errors, the log of calls the library makes to the
  code it is linked with, and generic lemmas on association lists (the tables of the code) and
  on searching an array by index (the loops of the code).

  The collection \<open>diag_simps\<close> holds unfolding rules of small wrappers, and
  \<open>diag_frame\<close> the facts that an operation leaves a field alone.
\<close>

named_theorems diag_simps "definitions of small operations, unfolded together"
named_theorems diag_frame "fields an operation does not change"

subsection \<open>Machine integers\<close>

type_synonym guint = "32 word"

definition G_MAXUINT32 :: guint where
  "G_MAXUINT32 = - 1"

type_synonym addr = nat      \<comment> \<open>the address of an allocated structure\<close>
type_synonym proxy = nat     \<comment> \<open>the identity of a GUPnPServiceProxy\<close>
type_synonym source_id = nat \<comment> \<open>the identifier of a GLib source; 0 is none, live ones differ\<close>
type_synonym msg_id = nat    \<comment> \<open>a dleyna_connector_msg_id_t, the handle of a pending method call\<close>

subsection \<open>Variants\<close>

text \<open>
  A variant value with its D-Bus type: an array carries the type string of its elements, so
  that an empty array still has a type.
\<close>

datatype gvariant =
    GString string
  | GUint guint
  | GBool bool
  | GByte "8 word"
  | GObjPath string
  | GArray string "gvariant list"
  | GTuple "gvariant list"
  | GEntry gvariant gvariant
  | GVariant gvariant

fun gv_type :: "gvariant \<Rightarrow> string" where
  "gv_type (GString _) = ''s''"
| "gv_type (GUint _) = ''u''"
| "gv_type (GBool _) = ''b''"
| "gv_type (GByte _) = ''y''"
| "gv_type (GObjPath _) = ''o''"
| "gv_type (GArray t _) = ''a'' @ t"
| "gv_type (GTuple vs) = ''('' @ concat (map gv_type vs) @ '')''"
| "gv_type (GEntry k v) = ''{'' @ gv_type k @ gv_type v @ ''}''"
| "gv_type (GVariant _) = ''v''"

text \<open>Every element of an array has the array's element type.\<close>

fun gv_wf :: "gvariant \<Rightarrow> bool" where
  "gv_wf (GArray t vs) = (list_all (\<lambda>v. gv_type v = t) vs \<and> list_all gv_wf vs)"
| "gv_wf (GTuple vs) = list_all gv_wf vs"
| "gv_wf (GEntry k v) = (gv_wf k \<and> gv_wf v)"
| "gv_wf (GVariant v) = gv_wf v"
| "gv_wf _ = True"

definition gv_strings :: "string list \<Rightarrow> gvariant" where
  "gv_strings ss = GArray ''s'' (map GString ss)"

definition gv_uints :: "guint list \<Rightarrow> gvariant" where
  "gv_uints ns = GArray ''u'' (map GUint ns)"

definition gv_vardict :: "(string \<times> gvariant) list \<Rightarrow> gvariant" where
  "gv_vardict kvs = GArray ''{sv}'' (map (\<lambda>(k, v). GEntry (GString k) (GVariant v)) kvs)"

lemma gv_type_arrays [simp]:
  "gv_type (gv_strings ss) = ''as''"
  "gv_type (gv_uints ns) = ''au''"
  "gv_type (gv_vardict kvs) = ''a{sv}''"
  by (simp_all add: gv_strings_def gv_uints_def gv_vardict_def)

lemma gv_wf_arrays [simp]:
  "gv_wf (gv_strings ss)"
  "gv_wf (gv_uints ns)"
  "gv_wf (gv_vardict kvs) \<longleftrightarrow> list_all (gv_wf \<circ> snd) kvs"
  by (auto simp: gv_strings_def gv_uints_def gv_vardict_def list_all_iff split: prod.splits)

lemma gv_strings_inj [simp]: "gv_strings xs = gv_strings ys \<longleftrightarrow> xs = ys"
  by (auto simp: gv_strings_def inj_map_eq_map inj_def)

lemma gv_uints_inj [simp]: "gv_uints xs = gv_uints ys \<longleftrightarrow> xs = ys"
  by (auto simp: gv_uints_def inj_map_eq_map inj_def)

subsection \<open>Errors\<close>

text \<open>The codes of the core library's error domain that this library raises.\<close>

datatype dleyna_error =
    DLEYNA_ERROR_BAD_QUERY
  | DLEYNA_ERROR_BAD_RESULT
  | DLEYNA_ERROR_CANCELLED
  | DLEYNA_ERROR_DIED
  | DLEYNA_ERROR_NOT_SUPPORTED
  | DLEYNA_ERROR_OBJECT_NOT_FOUND
  | DLEYNA_ERROR_OPERATION_FAILED
  | DLEYNA_ERROR_UNKNOWN_INTERFACE
  | DLEYNA_ERROR_UNKNOWN_PROPERTY
  | DLEYNA_ERROR_OTHER

datatype gerror = GError (gerror_code: dleyna_error) (gerror_message: string)

subsection \<open>Names\<close>

text \<open>The constants of \<open>prop-defs.h\<close>, \<open>configure.ac\<close> and \<open>server.h\<close>.\<close>

definition DLEYNA_DIAGNOSTICS_OBJECT :: string where
  "DLEYNA_DIAGNOSTICS_OBJECT = ''/com/intel/dLeynaDiagnostics''"

definition DLEYNA_DIAGNOSTICS_PATH :: string where
  "DLEYNA_DIAGNOSTICS_PATH = ''/com/intel/dLeynaDiagnostics/device''"

definition DLEYNA_DIAGNOSTICS_INTERFACE_MANAGER :: string where
  "DLEYNA_DIAGNOSTICS_INTERFACE_MANAGER = ''com.intel.dLeynaDiagnostics.Manager''"

definition DLEYNA_DIAGNOSTICS_INTERFACE_DEVICE :: string where
  "DLEYNA_DIAGNOSTICS_INTERFACE_DEVICE = ''com.intel.dLeynaDiagnostics.Device''"

definition DLD_DIAGNOSTICS_SINK :: string where
  "DLD_DIAGNOSTICS_SINK = ''dleyna-diagnostics''"

definition DLD_INTERFACE_PROPERTIES :: string where
  "DLD_INTERFACE_PROPERTIES = ''org.freedesktop.DBus.Properties''"

definition DLD_INTERFACE_PROPERTIES_CHANGED :: string where
  "DLD_INTERFACE_PROPERTIES_CHANGED = ''PropertiesChanged''"

definition DLD_INTERFACE_PROP_STATUS_INFO :: string where
  "DLD_INTERFACE_PROP_STATUS_INFO = ''StatusInfo''"

definition DLD_INTERFACE_PROP_TEST_IDS :: string where
  "DLD_INTERFACE_PROP_TEST_IDS = ''TestIDs''"

definition DLD_INTERFACE_PROP_ACTIVE_TEST_IDS :: string where
  "DLD_INTERFACE_PROP_ACTIVE_TEST_IDS = ''ActiveTestIDs''"

definition DLD_INTERFACE_PROP_NEVER_QUIT :: string where
  "DLD_INTERFACE_PROP_NEVER_QUIT = ''NeverQuit''"

definition DLD_INTERFACE_PROP_WHITE_LIST_ENTRIES :: string where
  "DLD_INTERFACE_PROP_WHITE_LIST_ENTRIES = ''WhiteListEntries''"

definition DLD_INTERFACE_PROP_WHITE_LIST_ENABLED :: string where
  "DLD_INTERFACE_PROP_WHITE_LIST_ENABLED = ''WhiteListEnabled''"

lemmas name_defs =
  DLEYNA_DIAGNOSTICS_OBJECT_def DLEYNA_DIAGNOSTICS_PATH_def
  DLEYNA_DIAGNOSTICS_INTERFACE_MANAGER_def DLEYNA_DIAGNOSTICS_INTERFACE_DEVICE_def
  DLD_DIAGNOSTICS_SINK_def DLD_INTERFACE_PROPERTIES_def DLD_INTERFACE_PROPERTIES_CHANGED_def
  DLD_INTERFACE_PROP_STATUS_INFO_def DLD_INTERFACE_PROP_TEST_IDS_def
  DLD_INTERFACE_PROP_ACTIVE_TEST_IDS_def DLD_INTERFACE_PROP_NEVER_QUIT_def
  DLD_INTERFACE_PROP_WHITE_LIST_ENTRIES_def DLD_INTERFACE_PROP_WHITE_LIST_ENABLED_def

subsection \<open>Calls to other code\<close>

text \<open>
  The functions the library hands out as callbacks, and the calls it makes to GLib, GUPnP,
  libsoup and the core library that have an effect outside the library. An operation of the
  model returns the list of the calls it makes, in order.
\<close>

datatype notify_cb = Bm_device_status_cb | Bm_test_ids_cb | Bm_active_test_ids_cb

datatype timer_cb = Re_enable_bms_subscription addr addr | Subscribe_to_service_changes addr

datatype service_task = Prv_subscribe addr | Prv_declare addr

datatype queue_finally = Prv_device_chain_end | Prv_device_context_switch_end

datatype effect =
    Set_subscribed "proxy option" bool
  | Add_notify "proxy option" string notify_cb addr
  | Remove_notify "proxy option" string notify_cb addr
  | Connect_subscription_lost "proxy option" addr
  | Timeout_add source_id nat timer_cb
  | Source_remove source_id
  | Idle_add
  | Object_unref "proxy option"
  | Device_proxy_ref
  | Device_proxy_unref
  | Publish_object string bool string
  | Unpublish_object guint
  | Notify string string string gvariant
  | Return_response msg_id "gvariant option"
  | Return_error msg_id gerror
  | Add_queue addr
  | Set_finally addr queue_finally
  | Set_user_data addr addr
  | Add_service_task addr service_task
  | Queue_start addr
  | Cancel_queue addr
  | Remove_queues_for_sink string
  | Remove_queues_for_source string
  | Task_completed
  | Set_quitting
  | Begin_action "proxy option" string "(string \<times> gvariant) list"
  | Cancel_action "proxy option"
  | Cancellable_connect
  | Cancellable_disconnect
  | Cancellable_cancel
  | Queue_message string
  | Cancel_message
  | Rescan_control_points
  | Control_point_new string string
  | Signal_connect string
  | Browser_set_active bool
  | Manage_control_point
  | Control_point_unref
  | White_list_enable bool
  | White_list_clear
  | White_list_add gvariant
  | Watch_client string
  | Unwatch_client string
  | Add_client_queue string string
  | Enqueue_task string string
  | Cancel_client_queue string string
  | Other_call string

subsection \<open>Tables: association lists\<close>

text \<open>
  A GHashTable is an association list with distinct keys; its order stands for the order in
  which the table is iterated, which GLib leaves unspecified.
\<close>

type_synonym ('k, 'v) ghash = "('k \<times> 'v) list"

abbreviation g_hash_table_lookup :: "('k, 'v) ghash \<Rightarrow> 'k \<Rightarrow> 'v option" where
  "g_hash_table_lookup \<equiv> map_of"

abbreviation g_hash_table_insert :: "('k, 'v) ghash \<Rightarrow> 'k \<Rightarrow> 'v \<Rightarrow> ('k, 'v) ghash" where
  "g_hash_table_insert t k v \<equiv> AList.update k v t"

abbreviation g_hash_table_remove :: "('k, 'v) ghash \<Rightarrow> 'k \<Rightarrow> ('k, 'v) ghash" where
  "g_hash_table_remove t k \<equiv> AList.delete k t"

lemma map_of_table [simp]:
  "map_of (AList.update k v t) = (map_of t)(k \<mapsto> v)"
  "map_of (AList.delete k t) = (map_of t)(k := None)"
  by (rule update_conv' delete_conv')+

lemma distinct_table [simp]:
  "distinct (map fst t) \<Longrightarrow> distinct (map fst (AList.update k v t))"
  "distinct (map fst t) \<Longrightarrow> distinct (map fst (AList.delete k t))"
  by (simp_all add: distinct_update distinct_delete)

subsection \<open>Searching an array\<close>

text \<open>
  The index at which a loop \<open>for (i = 0; i < len; ++i) if (P (a[i])) break;\<close> stops, None
  when it runs to the end.
\<close>

fun find_index :: "('a \<Rightarrow> bool) \<Rightarrow> 'a list \<Rightarrow> nat option" where
  "find_index P [] = None"
| "find_index P (x # xs) = (if P x then Some 0 else map_option Suc (find_index P xs))"

lemma find_index_None: "find_index P xs = None \<longleftrightarrow> (\<forall>x \<in> set xs. \<not> P x)"
  by (induction xs) auto

lemma find_index_SomeD:
  "find_index P xs = Some i \<Longrightarrow> i < length xs \<and> P (xs ! i) \<and> (\<forall>j < i. \<not> P (xs ! j))"
proof (induction xs arbitrary: i)
  case Nil
  then show ?case by simp
next
  case (Cons x xs)
  show ?case
  proof (cases "P x")
    case True
    with Cons.prems show ?thesis by simp
  next
    case False
    with Cons.prems obtain j where j: "find_index P xs = Some j" "i = Suc j"
      by auto
    from Cons.IH [OF j(1)] j(2) False show ?thesis
      by (auto simp: nth_Cons split: nat.splits)
  qed
qed

lemma find_index_SomeI:
  "i < length xs \<Longrightarrow> P (xs ! i) \<Longrightarrow> (\<And>j. j < i \<Longrightarrow> \<not> P (xs ! j)) \<Longrightarrow> find_index P xs = Some i"
proof (induction xs arbitrary: i)
  case Nil
  then show ?case by simp
next
  case (Cons x xs)
  show ?case
  proof (cases i)
    case 0
    with Cons.prems show ?thesis by simp
  next
    case (Suc k)
    have "\<not> P x" using Cons.prems(3) [of 0] Suc by simp
    moreover have "find_index P xs = Some k"
    proof (rule Cons.IH)
      show "k < length xs" "P (xs ! k)" using Cons.prems Suc by simp_all
      show "\<not> P (xs ! j)" if "j < k" for j
        using Cons.prems(3) [of "Suc j"] Suc that by simp
    qed
    ultimately show ?thesis using Suc by simp
  qed
qed

lemma find_index_append:
  "find_index P (xs @ ys) =
     (case find_index P xs of Some i \<Rightarrow> Some i
      | None \<Rightarrow> map_option (\<lambda>i. length xs + i) (find_index P ys))"
  by (induction xs; cases "find_index P ys") (auto split: option.splits)

text \<open>Removing an element by index (\<open>g_ptr_array_remove_index\<close>), keeping the order.\<close>

definition remove_index :: "nat \<Rightarrow> 'a list \<Rightarrow> 'a list" where
  "remove_index i xs = take i xs @ drop (Suc i) xs"

lemma length_remove_index: "i < length xs \<Longrightarrow> length (remove_index i xs) = length xs - 1"
  by (simp add: remove_index_def)

lemma set_remove_index: "set (remove_index i xs) \<subseteq> set xs"
  by (auto simp: remove_index_def dest: in_set_takeD in_set_dropD)

lemma remove_index_map: "map f (remove_index i xs) = remove_index i (map f xs)"
  by (simp add: remove_index_def take_map drop_map)

lemma distinct_remove_index: "distinct xs \<Longrightarrow> distinct (remove_index i xs)"
  by (auto simp: remove_index_def distinct_append set_take_disj_set_drop_if_distinct)

lemma set_remove_index_distinct:
  assumes "distinct xs" and "i < length xs"
  shows "set (remove_index i xs) = set xs - {xs ! i}"
proof -
  have split: "xs = take i xs @ xs ! i # drop (Suc i) xs"
    using assms(2) by (rule id_take_nth_drop)
  with assms(1) have "distinct (take i xs @ xs ! i # drop (Suc i) xs)" by simp
  then have "xs ! i \<notin> set (take i xs)" "xs ! i \<notin> set (drop (Suc i) xs)"
    by auto
  moreover have "set xs = set (take i xs @ xs ! i # drop (Suc i) xs)"
    using split by simp
  ultimately show ?thesis by (auto simp: remove_index_def)
qed

end
