(* ===== verification/C_Strings.thy ===== *)
theory C_Strings
  imports Diag_Prelude
begin

section \<open>Strings: decimal numbers, and the GLib string functions the library calls\<close>

text \<open>
  \<open>atoi\<close> and the \<open>%u\<close> conversion are the C library's and are modelled. \<open>g_strsplit\<close> and
  \<open>g_strstrip\<close> are GLib's: they are fields of a parameter of type \<open>glib\<close>, and what the code
  relies on is the predicate \<open>glib_doc\<close>, the documented behaviour of the two functions. The
  last section shows that the documentation determines them on comma-separated lists, and
  that a concrete pair of functions meets it.
\<close>

subsection \<open>Decimal digits\<close>

definition digit_char :: "nat \<Rightarrow> char" where
  "digit_char n = char_of (48 + n)"

definition is_digit :: "char \<Rightarrow> bool" where
  "is_digit c \<longleftrightarrow> 48 \<le> (of_char c :: nat) \<and> (of_char c :: nat) \<le> 57"

definition digit_val :: "char \<Rightarrow> nat" where
  "digit_val c = of_char c - 48"

lemma of_digit_char [simp]: "n < 10 \<Longrightarrow> (of_char (digit_char n) :: nat) = 48 + n"
  by (simp add: digit_char_def)

lemma digit_char_props [simp]:
  "n < 10 \<Longrightarrow> is_digit (digit_char n)"
  "n < 10 \<Longrightarrow> digit_val (digit_char n) = n"
  by (simp_all add: is_digit_def digit_val_def)

text \<open>The \<open>%u\<close> conversion of printf.\<close>

fun dec_of :: "nat \<Rightarrow> string" where
  "dec_of n = (if n < 10 then [digit_char n] else dec_of (n div 10) @ [digit_char (n mod 10)])"

declare dec_of.simps [simp del]

lemma dec_of_rec:
  "n < 10 \<Longrightarrow> dec_of n = [digit_char n]"
  "10 \<le> n \<Longrightarrow> dec_of n = dec_of (n div 10) @ [digit_char (n mod 10)]"
  by (simp_all add: dec_of.simps [of n])

lemma dec_of_not_Nil [simp]: "dec_of n \<noteq> []"
  by (subst dec_of.simps) simp

lemma dec_of_digits: "list_all is_digit (dec_of n)"
proof (induction n rule: dec_of.induct)
  case (1 n)
  then show ?case by (subst dec_of.simps) auto
qed

subsection \<open>atoi\<close>

text \<open>White space of \<open>isspace\<close> in the C locale.\<close>

definition c_isspace :: "char \<Rightarrow> bool" where
  "c_isspace c \<longleftrightarrow> (of_char c :: nat) = 32 \<or> (9 \<le> (of_char c :: nat) \<and> (of_char c :: nat) \<le> 13)"

definition digits_val :: "string \<Rightarrow> nat" where
  "digits_val ds = foldl (\<lambda>acc c. 10 * acc + digit_val c) 0 ds"

text \<open>
  \<open>atoi\<close>: leading white space, an optional sign, the longest run of digits. The C standard
  leaves a value outside \<open>int\<close> undefined: None.
\<close>

definition atoi_digits :: "string \<Rightarrow> int" where
  "atoi_digits s = int (digits_val (takeWhile is_digit s))"

definition atoi_value :: "string \<Rightarrow> int" where
  "atoi_value s =
     (case dropWhile c_isspace s of
        [] \<Rightarrow> 0
      | c # cs \<Rightarrow>
          if c = CHR ''-'' then - atoi_digits cs
          else if c = CHR ''+'' then atoi_digits cs
          else atoi_digits (c # cs))"

definition atoi :: "string \<Rightarrow> int option" where
  "atoi s =
     (let v = atoi_value s
      in if - (2 ^ 31) \<le> v \<and> v < 2 ^ 31 then Some v else None)"

lemma digits_val_snoc [simp]: "digits_val (ds @ [c]) = 10 * digits_val ds + digit_val c"
  by (simp add: digits_val_def)

lemma digits_val_dec_of: "digits_val (dec_of n) = n"
proof (induction n rule: dec_of.induct)
  case (1 n)
  show ?case
  proof (cases "n < 10")
    case True
    then show ?thesis by (subst dec_of.simps) (simp add: digits_val_def)
  next
    case False
    with 1 have "digits_val (dec_of (n div 10)) = n div 10" by simp
    with False show ?thesis by (subst dec_of.simps) simp
  qed
qed

lemma dec_of_inj: "dec_of m = dec_of n \<longleftrightarrow> m = n"
  by (metis digits_val_dec_of)

lemma is_digit_not_special:
  "is_digit c \<Longrightarrow> \<not> c_isspace c \<and> c \<noteq> CHR ''-'' \<and> c \<noteq> CHR ''+'' \<and> c \<noteq> CHR '','' \<and> c \<noteq> CHR ''/''"
  by (auto simp: is_digit_def c_isspace_def)

lemma atoi_value_dec_of: "atoi_value (dec_of n) = int n"
proof -
  obtain c cs where dec: "dec_of n = c # cs"
    by (cases "dec_of n") auto
  then have digits: "is_digit c" "list_all is_digit (c # cs)"
    using dec_of_digits [of n] by auto
  have "dropWhile c_isspace (c # cs) = c # cs" "c \<noteq> CHR ''-''" "c \<noteq> CHR ''+''"
    using is_digit_not_special [OF digits(1)] by simp_all
  moreover have "takeWhile is_digit (c # cs) = c # cs"
    using digits(2) by (intro takeWhile_eq_all_conv [THEN iffD2]) (simp add: list_all_iff)
  ultimately show ?thesis
    using digits_val_dec_of [of n] by (simp add: atoi_value_def atoi_digits_def dec)
qed

text \<open>\<open>atoi\<close> reads back what \<open>%u\<close> prints, as long as the value is an \<open>int\<close>.\<close>

lemma atoi_dec_of: "atoi (dec_of n) = (if n < 2 ^ 31 then Some (int n) else None)"
  by (auto simp: atoi_def atoi_value_dec_of Let_def)

lemma atoi_Nil [simp]: "atoi [] = Some 0"
  by (simp add: atoi_def atoi_value_def)

lemma atoi_range: "atoi s = Some v \<Longrightarrow> - (2 ^ 31) \<le> v \<and> v < 2 ^ 31"
  by (auto simp: atoi_def Let_def split: if_splits)

text \<open>Passing the \<open>int\<close> to a variadic function that reads a \<open>guint32\<close>.\<close>

definition atou :: "string \<Rightarrow> guint option" where
  "atou s = map_option word_of_int (atoi s)"

lemma atou_dec_of: "unat n < 2 ^ 31 \<Longrightarrow> atou (dec_of (unat (n :: guint))) = Some n"
  by (simp add: atou_def atoi_dec_of)

lemma atou_dec_of_large: "2 ^ 31 \<le> unat (n :: guint) \<Longrightarrow> atou (dec_of (unat n)) = None"
  by (simp add: atou_def atoi_dec_of)

subsection \<open>Splitting and joining at a separator character\<close>

fun split_at :: "char \<Rightarrow> string \<Rightarrow> string list" where
  "split_at d [] = [[]]"
| "split_at d (c # cs) =
     (if c = d then [] # split_at d cs
      else (case split_at d cs of [] \<Rightarrow> [[c]] | w # ws \<Rightarrow> (c # w) # ws))"

fun join_with :: "char \<Rightarrow> string list \<Rightarrow> string" where
  "join_with d [] = []"
| "join_with d [w] = w"
| "join_with d (w # v # ws) = w @ d # join_with d (v # ws)"

lemma split_at_not_Nil [simp]: "split_at d s \<noteq> []"
  by (cases s) (auto split: list.splits)

lemma join_with_Cons: "ws \<noteq> [] \<Longrightarrow> join_with d (w # ws) = w @ d # join_with d ws"
  by (cases ws) auto

lemma join_split: "join_with d (split_at d s) = s"
proof (induction s)
  case Nil
  then show ?case by simp
next
  case (Cons c cs)
  obtain w ws where sp: "split_at d cs = w # ws"
    by (cases "split_at d cs") auto
  with Cons show ?case
    by (cases ws) (auto simp: join_with_Cons)
qed

lemma split_pieces: "\<forall>w \<in> set (split_at d s). d \<notin> set w"
  by (induction s) (auto split: list.splits)

lemma split_no_sep: "d \<notin> set w \<Longrightarrow> split_at d w = [w]"
  by (induction w) auto

lemma split_at_sep: "d \<notin> set w \<Longrightarrow> split_at d (w @ d # s) = w # split_at d s"
  by (induction w) auto

lemma split_join: "ws \<noteq> [] \<Longrightarrow> \<forall>w \<in> set ws. d \<notin> set w \<Longrightarrow> split_at d (join_with d ws) = ws"
proof (induction d ws rule: join_with.induct)
  case (2 d w)
  then show ?case by (simp add: split_no_sep)
next
  case (3 d w v ws)
  then show ?case by (simp add: split_at_sep)
qed simp

subsection \<open>Trimming\<close>

definition trim :: "('a \<Rightarrow> bool) \<Rightarrow> 'a list \<Rightarrow> 'a list" where
  "trim p s = rev (dropWhile p (rev (dropWhile p s)))"

lemma trim_id:
  assumes "s = [] \<or> (\<not> p (hd s) \<and> \<not> p (last s))"
  shows "trim p s = s"
proof (cases s)
  case Nil
  then show ?thesis by (simp add: trim_def)
next
  case (Cons c cs)
  with assms have "dropWhile p s = s" by simp
  moreover from Cons assms have "dropWhile p (rev s) = rev s"
    by (cases "rev s") (auto simp: hd_rev [symmetric])
  ultimately show ?thesis by (simp add: trim_def)
qed

lemma dropWhile_all_append: "list_all p l \<Longrightarrow> dropWhile p (l @ s) = dropWhile p s"
  by (induction l) auto

lemma trim_padded: "list_all p l \<Longrightarrow> list_all p r \<Longrightarrow> trim p (l @ s @ r) = trim p s"
proof -
  assume l: "list_all p l" and r: "list_all p r"
  have rr: "list_all p (rev r)" using r by (simp add: list_all_iff)
  have "dropWhile p (rev (dropWhile p (s @ r))) = dropWhile p (rev (dropWhile p s))"
  proof (cases "list_all p s")
    case True
    then have "dropWhile p (s @ r) = []" "dropWhile p s = []"
      using r by (auto simp: list_all_iff)
    then show ?thesis by (simp only: rev.simps dropWhile.simps)
  next
    case False
    then obtain x where "x \<in> set s" "\<not> p x" by (auto simp: list_all_iff)
    then have "dropWhile p (s @ r) = dropWhile p s @ r"
      by (rule dropWhile_append1)
    then show ?thesis by (simp add: dropWhile_all_append [OF rr])
  qed
  then show ?thesis by (simp add: trim_def dropWhile_all_append [OF l])
qed

lemma trim_ends:
  "trim p s = [] \<or> (\<not> p (hd (trim p s)) \<and> \<not> p (last (trim p s)))"
proof (cases "trim p s = []")
  case False
  define u where "u = dropWhile p s"
  have t: "trim p s = rev (dropWhile p (rev u))" by (simp add: trim_def u_def)
  with False have ne: "dropWhile p (rev u) \<noteq> []" by simp
  have "\<not> p (last (trim p s))"
    using hd_dropWhile [OF ne] ne by (simp add: t last_rev)
  moreover have "hd (trim p s) = hd u"
  proof -
    have "rev u = takeWhile p (rev u) @ dropWhile p (rev u)" by simp
    then have "u = rev (dropWhile p (rev u)) @ rev (takeWhile p (rev u))"
      by (metis rev_append rev_rev_ident)
    with ne show ?thesis by (metis t hd_append2 rev_is_Nil_conv)
  qed
  moreover have "u \<noteq> []" using ne by auto
  then have "\<not> p (hd u)" unfolding u_def by (rule hd_dropWhile)
  ultimately show ?thesis by simp
qed simp

lemma trim_decompose: "\<exists>l r. s = l @ trim p s @ r \<and> list_all p l \<and> list_all p r"
proof -
  define u where "u = dropWhile p s"
  have s: "s = takeWhile p s @ u" by (simp add: u_def)
  have "rev u = takeWhile p (rev u) @ dropWhile p (rev u)" by simp
  then have u: "u = trim p s @ rev (takeWhile p (rev u))"
    by (metis rev_append rev_rev_ident trim_def u_def)
  have "list_all p (takeWhile p s)" "list_all p (rev (takeWhile p (rev u)))"
    by (auto simp: list_all_iff dest: set_takeWhileD)
  with s u show ?thesis by metis
qed

subsection \<open>The GLib functions the code relies on\<close>

text \<open>
  The library calls \<open>g_strsplit (s, ",", 0)\<close>, \<open>g_strstrip\<close> and \<open>g_variant_new_string\<close>. The
  last is called with NULL in places: what it then returns is the field
  \<open>gv_new_string_null\<close>, about which nothing is assumed.
\<close>

record glib =
  g_strsplit :: "string \<Rightarrow> char \<Rightarrow> string list"
  g_strstrip :: "string \<Rightarrow> string"
  g_ascii_isspace :: "char \<Rightarrow> bool"
  gv_new_string_null :: "gvariant option"

text \<open>
  The documentation: splitting the empty string gives no piece; otherwise the pieces hold no
  separator and joined by it are the string. Stripping removes leading and trailing white
  space and nothing else. Digits, the comma, the dot and the colon are not white space.
\<close>

definition glib_doc :: "glib \<Rightarrow> bool" where
  "glib_doc gl \<longleftrightarrow>
     (\<forall>d. g_strsplit gl [] d = []) \<and>
     (\<forall>s d. s \<noteq> [] \<longrightarrow> g_strsplit gl s d \<noteq> [] \<and> join_with d (g_strsplit gl s d) = s \<and>
              (\<forall>w \<in> set (g_strsplit gl s d). d \<notin> set w)) \<and>
     (\<forall>s. \<exists>l r. s = l @ g_strstrip gl s @ r \<and>
              list_all (g_ascii_isspace gl) l \<and> list_all (g_ascii_isspace gl) r) \<and>
     (\<forall>s. g_strstrip gl s = [] \<or>
            (\<not> g_ascii_isspace gl (hd (g_strstrip gl s)) \<and>
             \<not> g_ascii_isspace gl (last (g_strstrip gl s)))) \<and>
     (\<forall>c. is_digit c \<or> c \<in> {CHR '','', CHR ''.'', CHR '':''} \<longrightarrow> \<not> g_ascii_isspace gl c)"

lemma glib_docD:
  assumes "glib_doc gl"
  shows "g_strsplit gl [] d = []"
    and "s \<noteq> [] \<Longrightarrow> g_strsplit gl s d \<noteq> []"
    and "s \<noteq> [] \<Longrightarrow> join_with d (g_strsplit gl s d) = s"
    and "s \<noteq> [] \<Longrightarrow> \<forall>w \<in> set (g_strsplit gl s d). d \<notin> set w"
    and "\<exists>l r. s = l @ g_strstrip gl s @ r \<and>
           list_all (g_ascii_isspace gl) l \<and> list_all (g_ascii_isspace gl) r"
    and "g_strstrip gl s = [] \<or>
           (\<not> g_ascii_isspace gl (hd (g_strstrip gl s)) \<and>
            \<not> g_ascii_isspace gl (last (g_strstrip gl s)))"
    and "is_digit c \<or> c \<in> {CHR '','', CHR ''.'', CHR '':''} \<Longrightarrow> \<not> g_ascii_isspace gl c"
proof -
  note parts = assms [unfolded glib_doc_def]
  note split = parts [THEN conjunct2, THEN conjunct1, rule_format]
    and strip = parts [THEN conjunct2, THEN conjunct2]
  show "g_strsplit gl [] d = []"
    by (rule parts [THEN conjunct1, rule_format])
  show "s \<noteq> [] \<Longrightarrow> g_strsplit gl s d \<noteq> []"
    and "s \<noteq> [] \<Longrightarrow> join_with d (g_strsplit gl s d) = s"
    and "s \<noteq> [] \<Longrightarrow> \<forall>w \<in> set (g_strsplit gl s d). d \<notin> set w"
    by (rule split [THEN conjunct1] split [THEN conjunct2, THEN conjunct1],
        assumption)+ (rule split [THEN conjunct2, THEN conjunct2], assumption)
  show "\<exists>l r. s = l @ g_strstrip gl s @ r \<and>
           list_all (g_ascii_isspace gl) l \<and> list_all (g_ascii_isspace gl) r"
    by (rule strip [THEN conjunct1, rule_format])
  show "g_strstrip gl s = [] \<or>
           (\<not> g_ascii_isspace gl (hd (g_strstrip gl s)) \<and>
            \<not> g_ascii_isspace gl (last (g_strstrip gl s)))"
    by (rule strip [THEN conjunct2, THEN conjunct1, rule_format])
  show "is_digit c \<or> c \<in> {CHR '','', CHR ''.'', CHR '':''} \<Longrightarrow> \<not> g_ascii_isspace gl c"
    by (rule strip [THEN conjunct2, THEN conjunct2, rule_format])
qed

text \<open>The documentation determines both functions.\<close>

lemma g_strsplit_eq:
  assumes doc: "glib_doc gl"
  shows "g_strsplit gl s d = (if s = [] then [] else split_at d s)"
proof (cases "s = []")
  case True
  then show ?thesis by (simp add: glib_docD(1) [OF doc])
next
  case False
  have "split_at d (join_with d (g_strsplit gl s d)) = g_strsplit gl s d"
    by (rule split_join) (use glib_docD(2,4) [OF doc False] in blast)+
  then show ?thesis
    using False by (simp add: glib_docD(3) [OF doc False])
qed

lemma g_strstrip_eq:
  assumes doc: "glib_doc gl"
  shows "g_strstrip gl s = trim (g_ascii_isspace gl) s"
proof -
  from glib_docD(5) [OF doc, of s] obtain l r where lr: "s = l @ g_strstrip gl s @ r"
    "list_all (g_ascii_isspace gl) l" "list_all (g_ascii_isspace gl) r"
    by blast
  have "trim (g_ascii_isspace gl) s = trim (g_ascii_isspace gl) (g_strstrip gl s)"
    by (subst lr(1)) (rule trim_padded [OF lr(2,3)])
  also have "\<dots> = g_strstrip gl s"
    by (rule trim_id) (rule glib_docD(6) [OF doc])
  finally show ?thesis by simp
qed

text \<open>Two functions that meet the documentation.\<close>

definition glib_ref :: glib where
  "glib_ref =
     \<lparr>g_strsplit = (\<lambda>s d. if s = [] then [] else split_at d s),
      g_strstrip = trim (\<lambda>c. c \<in> {CHR '' '', CHR 0x09, CHR 0x0A, CHR 0x0C, CHR 0x0D}),
      g_ascii_isspace = (\<lambda>c. c \<in> {CHR '' '', CHR 0x09, CHR 0x0A, CHR 0x0C, CHR 0x0D}),
      gv_new_string_null = None\<rparr>"

lemma glib_ref_simps [simp]:
  "g_strsplit glib_ref s d = (if s = [] then [] else split_at d s)"
  "g_strstrip glib_ref s = trim (g_ascii_isspace glib_ref) s"
  "gv_new_string_null glib_ref = None"
  by (simp_all add: glib_ref_def)

lemma glib_doc_ref: "glib_doc glib_ref"
  unfolding glib_doc_def glib_ref_simps
proof (intro conjI allI impI)
  show "\<not> g_ascii_isspace glib_ref c"
    if "is_digit c \<or> c \<in> {CHR '','', CHR ''.'', CHR '':''}" for c
    using that by (auto simp: glib_ref_def is_digit_def)
  show "\<exists>l r. s = l @ trim (g_ascii_isspace glib_ref) s @ r \<and>
          list_all (g_ascii_isspace glib_ref) l \<and> list_all (g_ascii_isspace glib_ref) r" for s
    by (rule trim_decompose)
  show "trim (g_ascii_isspace glib_ref) s = [] \<or>
         (\<not> g_ascii_isspace glib_ref (hd (trim (g_ascii_isspace glib_ref) s)) \<and>
          \<not> g_ascii_isspace glib_ref (last (trim (g_ascii_isspace glib_ref) s)))" for s
    by (rule trim_ends)
qed (use join_split split_pieces in auto)

subsection \<open>Comma-separated fields\<close>

text \<open>
  The loop the code repeats wherever a device sends a list as one string: split at commas,
  strip every piece in place.
\<close>

definition comma_pieces :: "glib \<Rightarrow> string \<Rightarrow> string list" where
  "comma_pieces gl s = map (g_strstrip gl) (g_strsplit gl s (CHR '',''))"

text \<open>What a device that pads the pieces sends: white space around every piece.\<close>

definition padded :: "glib \<Rightarrow> string \<Rightarrow> string \<Rightarrow> bool" where
  "padded gl w p \<longleftrightarrow>
     (\<exists>l r. p = l @ w @ r \<and> list_all (g_ascii_isspace gl) l \<and> list_all (g_ascii_isspace gl) r)"

lemma padded_refl [simp]: "padded gl w w"
  unfolding padded_def by (intro exI [of _ "[]"]) simp

text \<open>
  Pieces without commas that neither start nor end with white space are read back from their
  comma-separated list, whatever the padding.
\<close>

lemma comma_pieces_join:
  assumes doc: "glib_doc gl"
    and clean: "\<forall>w \<in> set ws. CHR '','' \<notin> set w \<and> trim (g_ascii_isspace gl) w = w"
    and pad: "list_all2 (padded gl) ws ps" and ne: "join_with (CHR '','') ps \<noteq> []"
  shows "comma_pieces gl (join_with (CHR '','') ps) = ws"
proof -
  have ps_ne: "ps \<noteq> []" using ne by auto
  have comma: "\<not> g_ascii_isspace gl (CHR '','')" by (rule glib_docD(7) [OF doc]) simp
  have pieces: "CHR '','' \<notin> set p \<and> g_strstrip gl p = w"
    if "padded gl w p" "w \<in> set ws" for w p
  proof -
    from that(1) obtain l r where lr: "p = l @ w @ r"
      "list_all (g_ascii_isspace gl) l" "list_all (g_ascii_isspace gl) r"
      by (auto simp: padded_def)
    have "CHR '','' \<notin> set l" "CHR '','' \<notin> set r"
      using lr(2,3) comma by (auto simp: list_all_iff)
    moreover have "g_strstrip gl p = w"
      using clean that(2) by (simp add: g_strstrip_eq [OF doc] lr(1) trim_padded [OF lr(2,3)])
    ultimately show ?thesis using clean that(2) lr(1) by auto
  qed
  have "map (g_strstrip gl) ps = ws \<and> (\<forall>p \<in> set ps. CHR '','' \<notin> set p)"
    using pad pieces by (induction ws ps rule: list_all2_induct) auto
  then show ?thesis
    using ne ps_ne by (simp add: comma_pieces_def g_strsplit_eq [OF doc] split_join)
qed

lemma comma_pieces_Nil [simp]: "glib_doc gl \<Longrightarrow> comma_pieces gl [] = []"
  by (simp add: comma_pieces_def glib_docD(1))

end
