(* ===== verification/Dev_Context.thy ===== *)
theory Dev_Context
  imports C_Strings
begin

section \<open>device.c: network contexts of a device and their subscriptions\<close>

text \<open>
  A device is reachable through one context per network interface (\<open>dld_device_context_t\<close>).
  The library subscribes to the events of one of them. An operation returns the new state and
  the calls it makes; it returns None where the C code reads element 0 of an empty array of
  contexts, which is undefined behaviour.
\<close>

subsection \<open>What GUPnP describes of a device\<close>

text \<open>
  The strings that \<open>gupnp_device_info_get_*\<close> return for a device (None is NULL), its Basic
  Management service, if it has one, and its sub-devices.
\<close>

record descr =
  de_device_type :: "string option"
  de_udn :: "string option"
  de_friendly_name :: "string option"
  de_icon_url :: "string option"
  de_icon_mime_type :: "string option"
  de_manufacturer :: "string option"
  de_manufacturer_url :: "string option"
  de_model_description :: "string option"
  de_model_name :: "string option"
  de_model_number :: "string option"
  de_serial_number :: "string option"
  de_presentation_url :: "string option"

datatype device_info =
  DeviceInfo (di_descr: descr) (di_bms: "proxy option") (di_children: "device_info list")

definition di_udn :: "device_info \<Rightarrow> string option" where
  "di_udn info = de_udn (di_descr info)"

subsection \<open>The structures\<close>

record dev_context =
  ctx_ref :: addr
  ctx_ip_address :: string
  ctx_device_proxy :: device_info
  ctx_device :: addr
  bms_proxy :: "proxy option"
  bms_subscribed :: bool
  bms_timeout_id :: source_id

record dld_device =
  dev_ref :: addr
  dev_ids :: "guint list"
  dev_path :: string
  dev_contexts :: "dev_context list"
  dev_props :: "(string, gvariant option) ghash"
  dev_timeout_id :: source_id
  construct_step :: guint
  icon_mime_type :: "string option"
  icon_bytes :: "8 word list"
  icon_size :: nat

subsection \<open>Operations on one context\<close>

definition prv_context_new ::
  "addr \<Rightarrow> string \<Rightarrow> device_info \<Rightarrow> proxy option \<Rightarrow> addr \<Rightarrow> dev_context \<times> effect list" where
  "prv_context_new ref ip_address info bms device =
     (\<lparr>ctx_ref = ref, ctx_ip_address = ip_address, ctx_device_proxy = info, ctx_device = device,
       bms_proxy = bms, bms_subscribed = False, bms_timeout_id = 0\<rparr>,
      [Device_proxy_ref])"

definition remove_notifies :: "dev_context \<Rightarrow> effect list" where
  "remove_notifies ctx =
     [Remove_notify (bms_proxy ctx) ''DeviceStatus'' Bm_device_status_cb (ctx_device ctx),
      Remove_notify (bms_proxy ctx) ''TestIDs'' Bm_test_ids_cb (ctx_device ctx),
      Remove_notify (bms_proxy ctx) ''ActiveTestIDs'' Bm_active_test_ids_cb (ctx_device ctx)]"

definition prv_context_unsubscribe :: "dev_context \<Rightarrow> dev_context \<times> effect list" where
  "prv_context_unsubscribe ctx =
     (let (ctx1, eff1) =
            (if bms_timeout_id ctx \<noteq> 0
             then (ctx\<lparr>bms_timeout_id := 0\<rparr>, [Source_remove (bms_timeout_id ctx)])
             else (ctx, []));
          (ctx2, eff2) =
            (if bms_subscribed ctx1
             then (ctx1\<lparr>bms_subscribed := False\<rparr>,
                   remove_notifies ctx1 @ [Set_subscribed (bms_proxy ctx1) False])
             else (ctx1, []))
      in (ctx2, eff1 @ eff2))"

definition prv_dld_context_delete :: "dev_context \<Rightarrow> effect list" where
  "prv_dld_context_delete ctx =
     snd (prv_context_unsubscribe ctx) @ [Device_proxy_unref] @
     (if bms_proxy ctx \<noteq> None then [Object_unref (bms_proxy ctx)] else [])"

text \<open>
  The subscription was lost: renew it once, and give up if it is lost again within ten seconds.
  \<open>tid\<close> is the identifier that \<open>g_timeout_add_seconds\<close> returns.
\<close>

definition prv_bms_subscription_lost_cb :: "source_id \<Rightarrow> dev_context \<Rightarrow> dev_context \<times> effect list" where
  "prv_bms_subscription_lost_cb tid ctx =
     (if bms_timeout_id ctx = 0
      then (ctx\<lparr>bms_timeout_id := tid\<rparr>,
            [Set_subscribed (bms_proxy ctx) True,
             Timeout_add tid 10 (Re_enable_bms_subscription (ctx_device ctx) (ctx_ref ctx))])
      else (ctx\<lparr>bms_timeout_id := 0, bms_subscribed := False\<rparr>,
            Source_remove (bms_timeout_id ctx) # remove_notifies ctx))"

definition prv_re_enable_bms_subscription :: "dev_context \<Rightarrow> dev_context" where
  "prv_re_enable_bms_subscription ctx = ctx\<lparr>bms_timeout_id := 0\<rparr>"

subsection \<open>Choosing a context\<close>

definition local_address :: "string \<Rightarrow> bool" where
  "local_address ip \<longleftrightarrow>
     take 8 ip = ''127.0.0.'' \<or> ip = ''::1'' \<or> ip = ''0:0:0:0:0:0:0:1''"

definition local_context :: "dev_context \<Rightarrow> bool" where
  "local_context ctx \<longleftrightarrow> local_address (ctx_ip_address ctx)"

text \<open>The index of the context; None is the read of element 0 of an empty array.\<close>

definition dld_device_get_context :: "dld_device \<Rightarrow> nat option" where
  "dld_device_get_context device =
     (case find_index local_context (dev_contexts device) of
        Some i \<Rightarrow> Some i
      | None \<Rightarrow> if dev_contexts device = [] then None else Some 0)"

definition prv_device_get_subscribed_context :: "dld_device \<Rightarrow> nat option" where
  "prv_device_get_subscribed_context device = find_index bms_subscribed (dev_contexts device)"

definition upd_context ::
  "nat \<Rightarrow> (dev_context \<Rightarrow> dev_context \<times> effect list) \<Rightarrow> dld_device \<Rightarrow> dld_device \<times> effect list" where
  "upd_context i f device =
     (let (ctx, eff) = f (dev_contexts device ! i)
      in (device\<lparr>dev_contexts := (dev_contexts device)[i := ctx]\<rparr>, eff))"

subsection \<open>Subscribing\<close>

definition subscribe_context :: "addr \<Rightarrow> dev_context \<Rightarrow> dev_context \<times> effect list" where
  "subscribe_context device ctx =
     (if bms_proxy ctx \<noteq> None
      then (ctx\<lparr>bms_subscribed := True\<rparr>,
            [Set_subscribed (bms_proxy ctx) True,
             Add_notify (bms_proxy ctx) ''DeviceStatus'' Bm_device_status_cb device,
             Add_notify (bms_proxy ctx) ''TestIDs'' Bm_test_ids_cb device,
             Add_notify (bms_proxy ctx) ''ActiveTestIDs'' Bm_active_test_ids_cb device,
             Connect_subscription_lost (bms_proxy ctx) (ctx_ref ctx)])
      else (ctx, []))"

definition dld_device_subscribe_to_service_changes ::
  "dld_device \<Rightarrow> (dld_device \<times> effect list) option" where
  "dld_device_subscribe_to_service_changes device =
     (case dld_device_get_context device of
        None \<Rightarrow> None
      | Some i \<Rightarrow> Some (upd_context i (subscribe_context (dev_ref device)) device))"

definition prv_device_subscribe_context :: "dld_device \<Rightarrow> (dld_device \<times> effect list) option" where
  "prv_device_subscribe_context device =
     (let subscribed_context = prv_device_get_subscribed_context device
      in case dld_device_get_context device of
           None \<Rightarrow> None
         | Some preferred_context \<Rightarrow>
             if subscribed_context \<noteq> Some preferred_context
             then (let (device1, eff1) =
                         (case subscribed_context of
                            None \<Rightarrow> (device, [])
                          | Some i \<Rightarrow> upd_context i prv_context_unsubscribe device)
                   in map_option (\<lambda>(device2, eff2). (device2, eff1 @ eff2))
                        (dld_device_subscribe_to_service_changes device1))
             else Some (device, []))"

definition prv_device_append_new_context ::
  "addr \<Rightarrow> string \<Rightarrow> device_info \<Rightarrow> proxy option \<Rightarrow> dld_device \<Rightarrow> dld_device \<times> effect list" where
  "prv_device_append_new_context ref ip_address info bms device =
     (let (ctx, eff) = prv_context_new ref ip_address info bms (dev_ref device)
      in (device\<lparr>dev_contexts := dev_contexts device @ [ctx]\<rparr>, eff))"

definition dld_device_append_new_context ::
  "addr \<Rightarrow> string \<Rightarrow> device_info \<Rightarrow> proxy option \<Rightarrow> dld_device \<Rightarrow>
     (dld_device \<times> effect list) option" where
  "dld_device_append_new_context ref ip_address info bms device =
     (let (device1, eff1) = prv_device_append_new_context ref ip_address info bms device
      in map_option (\<lambda>(device2, eff2). (device2, eff1 @ eff2))
           (prv_device_subscribe_context device1))"

text \<open>The loop of \<open>dld_device_unsubscribe\<close> over the contexts.\<close>

fun unsubscribe_all :: "dev_context list \<Rightarrow> dev_context list \<times> effect list" where
  "unsubscribe_all [] = ([], [])"
| "unsubscribe_all (ctx # ctxs) =
     (let (ctx', eff1) = prv_context_unsubscribe ctx;
          (ctxs', eff2) = unsubscribe_all ctxs
      in (ctx' # ctxs', eff1 @ eff2))"

definition dld_device_unsubscribe :: "dld_device \<Rightarrow> dld_device \<times> effect list" where
  "dld_device_unsubscribe device =
     (let (ctxs, eff) = unsubscribe_all (dev_contexts device)
      in (device\<lparr>dev_contexts := ctxs\<rparr>, eff))"

subsection \<open>The preferred context depends on the addresses only\<close>

lemma find_index_map: "find_index P (map f xs) = find_index (\<lambda>x. P (f x)) xs"
  by (induction xs) auto

definition preferred :: "string list \<Rightarrow> nat option" where
  "preferred ips =
     (case find_index local_address ips of
        Some i \<Rightarrow> Some i
      | None \<Rightarrow> if ips = [] then None else Some 0)"

lemma get_context_preferred:
  "dld_device_get_context d = preferred (map ctx_ip_address (dev_contexts d))"
  unfolding dld_device_get_context_def preferred_def find_index_map
  by (simp add: local_context_def [abs_def])

lemma preferred_None [simp]: "preferred ips = None \<longleftrightarrow> ips = []"
  by (auto simp: preferred_def split: option.splits)

lemma preferred_less: "preferred ips = Some i \<Longrightarrow> i < length ips"
  by (auto simp: preferred_def dest: find_index_SomeD split: option.splits if_splits)

lemma preferred_local:
  "preferred ips = Some i \<Longrightarrow> \<exists>ip \<in> set ips. local_address ip \<Longrightarrow> local_address (ips ! i)"
  by (auto simp: preferred_def find_index_None dest: find_index_SomeD split: option.splits if_splits)

lemma preferred_first:
  "preferred ips = Some i \<Longrightarrow> j < i \<Longrightarrow> \<not> local_address (ips ! j)"
  by (auto simp: preferred_def dest: find_index_SomeD split: option.splits if_splits)

lemma get_context_less: "dld_device_get_context d = Some i \<Longrightarrow> i < length (dev_contexts d)"
  by (auto simp: get_context_preferred dest: preferred_less)

lemma get_context_None [simp]: "dld_device_get_context d = None \<longleftrightarrow> dev_contexts d = []"
  by (simp add: get_context_preferred)

subsection \<open>Invariant of a device's contexts\<close>

text \<open>
  Every context points back to its device; addresses and identities are distinct; a context
  is subscribed only if it has a proxy and is the preferred one.
\<close>

definition context_inv :: "dld_device \<Rightarrow> bool" where
  "context_inv d \<longleftrightarrow>
     (\<forall>c \<in> set (dev_contexts d).
        ctx_device c = dev_ref d \<and> (bms_subscribed c \<longrightarrow> bms_proxy c \<noteq> None)) \<and>
     distinct (map ctx_ref (dev_contexts d)) \<and>
     distinct (map ctx_ip_address (dev_contexts d)) \<and>
     (\<forall>i < length (dev_contexts d).
        bms_subscribed (dev_contexts d ! i) \<longrightarrow> dld_device_get_context d = Some i)"

lemma context_inv_one_subscribed:
  assumes "context_inv d" and "i < length (dev_contexts d)" and "j < length (dev_contexts d)"
    and "bms_subscribed (dev_contexts d ! i)" and "bms_subscribed (dev_contexts d ! j)"
  shows "i = j"
proof -
  have "dld_device_get_context d = Some i" "dld_device_get_context d = Some j"
    using assms unfolding context_inv_def by blast+
  then show ?thesis by simp
qed

lemma context_inv_subscribed_context:
  assumes "context_inv d" and "prv_device_get_subscribed_context d = Some i"
  shows "dld_device_get_context d = Some i"
  using assms find_index_SomeD [of bms_subscribed "dev_contexts d" i]
  by (auto simp: context_inv_def prv_device_get_subscribed_context_def)

text \<open>Fields that the operations on one context leave alone.\<close>

definition same_context :: "dev_context \<Rightarrow> dev_context \<Rightarrow> bool" where
  "same_context c c' \<longleftrightarrow>
     ctx_ref c' = ctx_ref c \<and> ctx_ip_address c' = ctx_ip_address c \<and>
     ctx_device_proxy c' = ctx_device_proxy c \<and> ctx_device c' = ctx_device c \<and>
     bms_proxy c' = bms_proxy c"

lemma same_context_refl [simp]: "same_context c c"
  by (simp add: same_context_def)

lemma context_op_frame [diag_frame]:
  "same_context c (fst (prv_context_unsubscribe c))"
  "same_context c (fst (subscribe_context dev c))"
  "same_context c (fst (prv_bms_subscription_lost_cb tid c))"
  "same_context c (prv_re_enable_bms_subscription c)"
  by (simp_all add: same_context_def prv_context_unsubscribe_def subscribe_context_def
      prv_bms_subscription_lost_cb_def prv_re_enable_bms_subscription_def Let_def)

lemma context_op_subscribed:
  "\<not> bms_subscribed (fst (prv_context_unsubscribe c))"
  "bms_subscribed (fst (subscribe_context dev c)) \<longleftrightarrow> bms_subscribed c \<or> bms_proxy c \<noteq> None"
  "bms_subscribed (fst (prv_bms_subscription_lost_cb tid c)) \<Longrightarrow> bms_subscribed c"
  "bms_subscribed (prv_re_enable_bms_subscription c) = bms_subscribed c"
  by (auto simp: prv_context_unsubscribe_def subscribe_context_def
      prv_bms_subscription_lost_cb_def prv_re_enable_bms_subscription_def Let_def
      split: if_splits)

text \<open>
  The identity of a device: what no operation on its contexts changes.
\<close>

definition same_device :: "dld_device \<Rightarrow> dld_device \<Rightarrow> bool" where
  "same_device d d' \<longleftrightarrow>
     dev_ref d' = dev_ref d \<and> dev_path d' = dev_path d \<and> dev_ids d' = dev_ids d \<and>
     list_all2 same_context (dev_contexts d) (dev_contexts d')"

lemma same_context_trans: "same_context a b \<Longrightarrow> same_context b c \<Longrightarrow> same_context a c"
  by (simp add: same_context_def)

lemma same_device_refl [simp]: "same_device d d"
  by (simp add: same_device_def list_all2_refl)

lemma same_device_trans: "same_device a b \<Longrightarrow> same_device b c \<Longrightarrow> same_device a c"
  unfolding same_device_def
  by (auto intro: list_all2_trans [of same_context same_context same_context, OF same_context_trans])

lemma same_contexts_map:
  assumes "list_all2 same_context xs ys"
  shows "map ctx_ip_address ys = map ctx_ip_address xs" and "map ctx_ref ys = map ctx_ref xs"
    and "length ys = length xs"
  using assms by (induction xs ys rule: list_all2_induct) (auto simp: same_context_def)

lemma same_device_context:
  assumes "same_device d d'"
  shows "dld_device_get_context d' = dld_device_get_context d"
    and "map ctx_ip_address (dev_contexts d') = map ctx_ip_address (dev_contexts d)"
    and "map ctx_ref (dev_contexts d') = map ctx_ref (dev_contexts d)"
    and "length (dev_contexts d') = length (dev_contexts d)"
    and "dev_contexts d' = [] \<longleftrightarrow> dev_contexts d = []"
    and "dev_ref d' = dev_ref d" and "dev_path d' = dev_path d" and "dev_ids d' = dev_ids d"
proof -
  have l: "list_all2 same_context (dev_contexts d) (dev_contexts d')"
    using assms by (simp add: same_device_def)
  note maps = same_contexts_map [OF l]
  show "map ctx_ip_address (dev_contexts d') = map ctx_ip_address (dev_contexts d)"
    "map ctx_ref (dev_contexts d') = map ctx_ref (dev_contexts d)"
    "length (dev_contexts d') = length (dev_contexts d)"
    by (rule maps)+
  then show "dld_device_get_context d' = dld_device_get_context d"
    "dev_contexts d' = [] \<longleftrightarrow> dev_contexts d = []"
    by (auto simp: get_context_preferred)
  show "dev_ref d' = dev_ref d" "dev_path d' = dev_path d" "dev_ids d' = dev_ids d"
    using assms by (simp_all add: same_device_def)
qed

text \<open>
  An operation that changes a device's contexts one by one keeps the invariant if it only
  subscribes the preferred context.
\<close>

lemma context_inv_same_device:
  assumes inv: "context_inv d" and same: "same_device d d'"
    and sub: "\<And>i. i < length (dev_contexts d) \<Longrightarrow> bms_subscribed (dev_contexts d' ! i) \<Longrightarrow>
                bms_subscribed (dev_contexts d ! i) \<or>
                dld_device_get_context d = Some i \<and> bms_proxy (dev_contexts d ! i) \<noteq> None"
  shows "context_inv d'"
proof -
  note sd = same_device_context [OF same]
  have fields: "ctx_device (dev_contexts d' ! i) = ctx_device (dev_contexts d ! i) \<and>
                bms_proxy (dev_contexts d' ! i) = bms_proxy (dev_contexts d ! i)"
    if "i < length (dev_contexts d)" for i
    using same that by (auto simp: same_device_def list_all2_conv_all_nth same_context_def)
  have elem: "ctx_device c = dev_ref d' \<and> (bms_subscribed c \<longrightarrow> bms_proxy c \<noteq> None)"
    if c: "c \<in> set (dev_contexts d')" for c
  proof -
    from c obtain i where i: "i < length (dev_contexts d)" "c = dev_contexts d' ! i"
      by (metis in_set_conv_nth sd(4))
    then have "dev_contexts d ! i \<in> set (dev_contexts d)" by simp
    with inv have "ctx_device (dev_contexts d ! i) = dev_ref d"
      "bms_subscribed (dev_contexts d ! i) \<longrightarrow> bms_proxy (dev_contexts d ! i) \<noteq> None"
      by (auto simp: context_inv_def)
    with i fields [OF i(1)] sub [OF i(1)] sd(6) show ?thesis by auto
  qed
  have "dld_device_get_context d' = Some i"
    if "i < length (dev_contexts d')" "bms_subscribed (dev_contexts d' ! i)" for i
    using that sub [of i] inv sd(1,4) by (auto simp: context_inv_def)
  with elem show ?thesis
    using inv by (simp add: context_inv_def sd(2,3))
qed

subsection \<open>Every operation keeps the invariant\<close>

text \<open>
  The contract the operations on a device's contexts share: the device keeps its identity and
  its invariant, and the operation is defined as long as there is a context.
\<close>

locale device_op =
  fixes f :: "dld_device \<Rightarrow> (dld_device \<times> effect list) option"
  assumes op_same: "f d = Some (d', eff) \<Longrightarrow> same_device d d'"
    and op_inv: "f d = Some (d', eff) \<Longrightarrow> context_inv d \<Longrightarrow> context_inv d'"
    and op_defined: "dev_contexts d \<noteq> [] \<Longrightarrow> f d \<noteq> None"
begin

lemma op_nonempty: "f d = Some (d', eff) \<Longrightarrow> dev_contexts d' = [] \<longleftrightarrow> dev_contexts d = []"
  by (rule same_device_context(5) [OF op_same])

lemma op_keeps:
  assumes "f d = Some (d', eff)"
  shows "dev_ref d' = dev_ref d" and "dev_path d' = dev_path d"
    and "map ctx_ref (dev_contexts d') = map ctx_ref (dev_contexts d)"
    and "map ctx_ip_address (dev_contexts d') = map ctx_ip_address (dev_contexts d)"
    and "dld_device_get_context d' = dld_device_get_context d" and "dev_ids d' = dev_ids d"
  using same_device_context [OF op_same [OF assms]] by simp_all

end

lemma same_device_upd_context:
  assumes "i < length (dev_contexts d)" and "\<And>c. same_context c (fst (f c))"
  shows "same_device d (fst (upd_context i f d))"
  using assms
  by (auto simp: same_device_def upd_context_def list_all2_conv_all_nth nth_list_update
      split: prod.splits) (metis fst_conv)

lemma upd_context_nth:
  "i < length (dev_contexts d) \<Longrightarrow>
     dev_contexts (fst (upd_context i f d)) ! j =
       (if i = j then fst (f (dev_contexts d ! i)) else dev_contexts d ! j)"
  by (auto simp: upd_context_def split: prod.splits)

lemma subscribe_to_service_changes_same:
  "dld_device_subscribe_to_service_changes d = Some (d', eff) \<Longrightarrow> same_device d d'"
  unfolding dld_device_subscribe_to_service_changes_def
  by (auto split: option.splits dest!: get_context_less)
    (metis diag_frame(2) fst_conv same_device_upd_context)

lemma subscribe_to_service_changes_inv:
  assumes sub: "dld_device_subscribe_to_service_changes d = Some (d', eff)"
    and inv: "context_inv d"
  shows "context_inv d'"
proof (rule context_inv_same_device [OF inv subscribe_to_service_changes_same [OF sub]])
  fix i assume i: "i < length (dev_contexts d)" and s: "bms_subscribed (dev_contexts d' ! i)"
  from sub obtain k where k: "dld_device_get_context d = Some k"
    and d': "d' = fst (upd_context k (subscribe_context (dev_ref d)) d)"
    by (auto simp: dld_device_subscribe_to_service_changes_def split: option.splits)
  show "bms_subscribed (dev_contexts d ! i) \<or>
        dld_device_get_context d = Some i \<and> bms_proxy (dev_contexts d ! i) \<noteq> None"
    using s k get_context_less [OF k]
    by (auto simp: d' upd_context_nth context_op_subscribed split: if_splits)
qed

interpretation subscribing: device_op dld_device_subscribe_to_service_changes
  by unfold_locales
    (auto simp: subscribe_to_service_changes_inv subscribe_to_service_changes_same
      dld_device_subscribe_to_service_changes_def split: option.splits)

text \<open>
  When a context is added, the subscribed context may no longer be the preferred one. What
  still holds is that at most one is subscribed; \<open>prv_device_subscribe_context\<close> moves the
  subscription and re-establishes the invariant.
\<close>

definition context_pre :: "dld_device \<Rightarrow> bool" where
  "context_pre d \<longleftrightarrow>
     (\<forall>c \<in> set (dev_contexts d).
        ctx_device c = dev_ref d \<and> (bms_subscribed c \<longrightarrow> bms_proxy c \<noteq> None)) \<and>
     distinct (map ctx_ref (dev_contexts d)) \<and>
     distinct (map ctx_ip_address (dev_contexts d)) \<and>
     (\<forall>i < length (dev_contexts d). \<forall>j < length (dev_contexts d).
        bms_subscribed (dev_contexts d ! i) \<longrightarrow> bms_subscribed (dev_contexts d ! j) \<longrightarrow> i = j)"

lemma context_inv_pre: "context_inv d \<Longrightarrow> context_pre d"
  using context_inv_one_subscribed [of d] by (auto simp: context_inv_def context_pre_def)

lemma context_pre_unsubscribed:
  "context_pre d \<Longrightarrow> \<forall>c \<in> set (dev_contexts d). \<not> bms_subscribed c \<Longrightarrow> context_inv d"
  by (auto simp: context_inv_def context_pre_def)

lemma unsubscribe_other_inv:
  assumes pre: "context_pre d" and s: "prv_device_get_subscribed_context d = Some i"
  defines "d1 \<equiv> fst (upd_context i prv_context_unsubscribe d)"
  shows "context_inv d1" and "same_device d d1" and "\<forall>c \<in> set (dev_contexts d1). \<not> bms_subscribed c"
proof -
  from s have i: "i < length (dev_contexts d)" "bms_subscribed (dev_contexts d ! i)"
    by (auto simp: prv_device_get_subscribed_context_def dest: find_index_SomeD)
  show same: "same_device d d1"
    unfolding d1_def by (rule same_device_upd_context [OF i(1) diag_frame(1)])
  note sd = same_device_context [OF same]
  have none: "\<not> bms_subscribed (dev_contexts d1 ! j)" if "j < length (dev_contexts d)" for j
    using pre i that by (auto simp: d1_def upd_context_nth context_op_subscribed context_pre_def)
  then show unsub: "\<forall>c \<in> set (dev_contexts d1). \<not> bms_subscribed c"
    by (metis in_set_conv_nth sd(4))
  have "\<forall>c \<in> set (dev_contexts d1). ctx_device c = dev_ref d1"
  proof
    fix c assume "c \<in> set (dev_contexts d1)"
    then obtain j where j: "j < length (dev_contexts d)" "c = dev_contexts d1 ! j"
      by (metis in_set_conv_nth sd(4))
    have "ctx_device (dev_contexts d1 ! j) = ctx_device (dev_contexts d ! j)"
      using same j(1) by (auto simp: same_device_def list_all2_conv_all_nth same_context_def)
    with pre j sd(6) show "ctx_device c = dev_ref d1" by (simp add: context_pre_def)
  qed
  with pre unsub show "context_inv d1"
    by (intro context_pre_unsubscribed) (auto simp: context_pre_def sd(2,3))
qed

lemma subscribe_context_establishes:
  assumes sub: "prv_device_subscribe_context d = Some (d', eff)" and pre: "context_pre d"
  shows "context_inv d'" and "same_device d d'"
    and "\<And>i. dld_device_get_context d = Some i \<Longrightarrow> bms_proxy (dev_contexts d ! i) \<noteq> None \<Longrightarrow>
              bms_subscribed (dev_contexts d' ! i)"
proof -
  from sub obtain p where p: "dld_device_get_context d = Some p"
    by (auto simp: prv_device_subscribe_context_def Let_def split: option.splits)
  let ?s = "prv_device_get_subscribed_context d"
  define d1 where "d1 = (case ?s of None \<Rightarrow> d
                         | Some i \<Rightarrow> fst (upd_context i prv_context_unsubscribe d))"
  have "context_inv d' \<and> same_device d d' \<and>
        (bms_proxy (dev_contexts d ! p) \<noteq> None \<longrightarrow> bms_subscribed (dev_contexts d' ! p))"
  proof (cases "?s = Some p")
    case True
    then have "d' = d" "p < length (dev_contexts d)" "bms_subscribed (dev_contexts d ! p)"
      using sub p by (auto simp: prv_device_subscribe_context_def
          prv_device_get_subscribed_context_def dest: find_index_SomeD)
    moreover have "context_inv d"
      using pre calculation p unfolding context_inv_def context_pre_def by metis
    ultimately show ?thesis by simp
  next
    case False
    have d1: "context_inv d1 \<and> same_device d d1"
    proof (cases ?s)
      case None
      then have "d1 = d" by (simp add: d1_def)
      moreover from None have "\<forall>c \<in> set (dev_contexts d). \<not> bms_subscribed c"
        by (simp add: prv_device_get_subscribed_context_def find_index_None)
      ultimately show ?thesis using context_pre_unsubscribed [OF pre] by simp
    next
      case (Some i)
      then show ?thesis using unsubscribe_other_inv [OF pre Some] by (simp add: d1_def)
    qed
    from False sub p obtain eff2 where
      sub1: "dld_device_subscribe_to_service_changes d1 = Some (d', eff2)"
      by (auto simp: prv_device_subscribe_context_def Let_def d1_def split: option.splits prod.splits)
    have p1: "dld_device_get_context d1 = Some p"
      using same_device_context(1) [of d d1] d1 p by simp
    have "bms_proxy (dev_contexts d1 ! p) = bms_proxy (dev_contexts d ! p)"
      using d1 get_context_less [OF p]
      by (auto simp: same_device_def list_all2_conv_all_nth same_context_def)
    then have "bms_proxy (dev_contexts d ! p) \<noteq> None \<longrightarrow> bms_subscribed (dev_contexts d' ! p)"
      using sub1 p1 get_context_less [OF p1]
      by (auto simp: dld_device_subscribe_to_service_changes_def upd_context_def
          context_op_subscribed split: prod.splits)
         (metis context_op_subscribed(2) fst_conv option.distinct(1))
    with d1 show ?thesis
      using subscribing.op_inv [OF sub1] subscribing.op_same [OF sub1] same_device_trans by blast
  qed
  then show "context_inv d'" "same_device d d'"
    "\<And>i. dld_device_get_context d = Some i \<Longrightarrow> bms_proxy (dev_contexts d ! i) \<noteq> None \<Longrightarrow>
           bms_subscribed (dev_contexts d' ! i)"
    using p by auto
qed

lemma subscribe_context_defined:
  assumes "dev_contexts d \<noteq> []"
  shows "prv_device_subscribe_context d \<noteq> None"
proof -
  obtain p where p: "dld_device_get_context d = Some p"
    using assms get_context_None by (cases "dld_device_get_context d") auto
  show ?thesis
  proof (cases "prv_device_get_subscribed_context d")
    case None
    then show ?thesis using p
      by (auto simp: prv_device_subscribe_context_def dld_device_subscribe_to_service_changes_def)
  next
    case (Some i)
    have "i < length (dev_contexts d)"
      using Some by (auto simp: prv_device_get_subscribed_context_def dest: find_index_SomeD)
    then have "same_device d (fst (upd_context i prv_context_unsubscribe d))"
      by (rule same_device_upd_context) (rule diag_frame(1))
    then have "dld_device_get_context (fst (upd_context i prv_context_unsubscribe d)) = Some p"
      using same_device_context(1) p by metis
    then show ?thesis using Some p
      by (auto simp: prv_device_subscribe_context_def dld_device_subscribe_to_service_changes_def
          split: prod.splits)
  qed
qed

lemma prv_device_subscribe_context_same:
  assumes "prv_device_subscribe_context d = Some (d', eff)"
  shows "same_device d d'"
proof (cases "prv_device_get_subscribed_context d")
  case None
  with assms show ?thesis
    by (auto simp: prv_device_subscribe_context_def Let_def dest: subscribing.op_same
        split: option.splits if_splits)
next
  case (Some i)
  then have i: "i < length (dev_contexts d)"
    by (auto simp: prv_device_get_subscribed_context_def dest: find_index_SomeD)
  have "same_device d (fst (upd_context i prv_context_unsubscribe d))"
    by (rule same_device_upd_context [OF i diag_frame(1)])
  with assms Some show ?thesis
    by (auto simp: prv_device_subscribe_context_def Let_def
        dest!: subscribing.op_same intro: same_device_trans
        split: option.splits if_splits prod.splits)
qed

interpretation resubscribing: device_op prv_device_subscribe_context
  by unfold_locales
    (blast dest: subscribe_context_establishes context_inv_pre subscribe_context_defined
      intro: prv_device_subscribe_context_same)+

text \<open>Operations on one context, at its index in the array.\<close>

definition at_context ::
  "nat \<Rightarrow> (dev_context \<Rightarrow> dev_context \<times> effect list) \<Rightarrow> dld_device \<Rightarrow>
     (dld_device \<times> effect list) option" where
  "at_context i f d = Some (if i < length (dev_contexts d) then upd_context i f d else (d, []))"

lemma at_context_device_op:
  assumes same: "\<And>c. same_context c (fst (f c))"
    and sub: "\<And>c. bms_subscribed (fst (f c)) \<Longrightarrow> bms_subscribed c"
  shows "device_op (at_context i f)"
proof
  fix d d' eff
  assume at: "at_context i f d = Some (d', eff)"
  show sd: "same_device d d'"
  proof (cases "i < length (dev_contexts d)")
    case True
    with at have "d' = fst (upd_context i f d)" by (simp add: at_context_def)
    with same_device_upd_context [OF True same] show ?thesis by simp
  next
    case False
    with at show ?thesis by (simp add: at_context_def)
  qed
  assume inv: "context_inv d"
  show "context_inv d'"
  proof (rule context_inv_same_device [OF inv sd])
    fix j assume "j < length (dev_contexts d)" "bms_subscribed (dev_contexts d' ! j)"
    then show "bms_subscribed (dev_contexts d ! j) \<or>
        dld_device_get_context d = Some j \<and> bms_proxy (dev_contexts d ! j) \<noteq> None"
      using at sub upd_context_nth [of i d f j] by (cases "i < length (dev_contexts d)")
        (auto simp: at_context_def split: if_splits)
  qed
qed (simp add: at_context_def)

interpretation losing: device_op "at_context i (prv_bms_subscription_lost_cb tid)" for i tid
  by (rule at_context_device_op) (simp_all add: diag_frame context_op_subscribed)

interpretation re_enabling: device_op "at_context i (\<lambda>c. (prv_re_enable_bms_subscription c, []))" for i
  by (rule at_context_device_op) (simp_all add: diag_frame context_op_subscribed)

lemma unsubscribe_all_eq:
  "fst (unsubscribe_all cs) = map (\<lambda>c. fst (prv_context_unsubscribe c)) cs"
  "snd (unsubscribe_all cs) = concat (map (\<lambda>c. snd (prv_context_unsubscribe c)) cs)"
  by (induction cs) (auto split: prod.splits)

lemma dld_device_unsubscribe_eq:
  "dld_device_unsubscribe d =
     (d\<lparr>dev_contexts := map (\<lambda>c. fst (prv_context_unsubscribe c)) (dev_contexts d)\<rparr>,
      concat (map (\<lambda>c. snd (prv_context_unsubscribe c)) (dev_contexts d)))"
  using unsubscribe_all_eq [of "dev_contexts d"]
  by (auto simp: dld_device_unsubscribe_def split: prod.splits)

interpretation unsubscribing: device_op "\<lambda>d. Some (dld_device_unsubscribe d)"
proof
  fix d d' eff
  assume u: "Some (dld_device_unsubscribe d) = Some (d', eff)"
  show sd: "same_device d d'"
    using u by (auto simp: dld_device_unsubscribe_eq same_device_def list_all2_conv_all_nth diag_frame)
  show "context_inv d'" if inv: "context_inv d"
    by (rule context_inv_same_device [OF inv sd])
      (use u in \<open>auto simp: dld_device_unsubscribe_eq context_op_subscribed\<close>)
qed simp

subsection \<open>Adding and removing a context\<close>

lemma append_new_context_pre:
  assumes inv: "context_inv d"
    and ref: "ref \<notin> ctx_ref ` set (dev_contexts d)"
    and ip: "ip \<notin> ctx_ip_address ` set (dev_contexts d)"
  shows "context_pre (fst (prv_device_append_new_context ref ip info bms d))"
proof -
  have "\<not> bms_subscribed (fst (prv_context_new ref ip info bms (dev_ref d)))"
    by (simp add: prv_context_new_def)
  moreover have "context_pre d" using inv by (rule context_inv_pre)
  ultimately show ?thesis
    using ref ip
    by (auto simp: context_pre_def prv_device_append_new_context_def prv_context_new_def nth_append
        less_Suc_eq split: prod.splits if_splits)
qed

lemma append_new_context_keeps:
  assumes "dld_device_append_new_context ref ip info bms d = Some (d', eff)"
  shows "dev_ref d' = dev_ref d" and "dev_path d' = dev_path d"
    and "map ctx_ref (dev_contexts d') = map ctx_ref (dev_contexts d) @ [ref]"
    and "map ctx_ip_address (dev_contexts d') = map ctx_ip_address (dev_contexts d) @ [ip]"
    and "dev_contexts d' \<noteq> []"
proof -
  let ?d1 = "fst (prv_device_append_new_context ref ip info bms d)"
  from assms obtain eff2 where sub: "prv_device_subscribe_context ?d1 = Some (d', eff2)"
    by (auto simp: dld_device_append_new_context_def split: prod.splits)
  have d1: "dev_ref ?d1 = dev_ref d" "dev_path ?d1 = dev_path d" "dev_contexts ?d1 \<noteq> []"
    "map ctx_ref (dev_contexts ?d1) = map ctx_ref (dev_contexts d) @ [ref]"
    "map ctx_ip_address (dev_contexts ?d1) = map ctx_ip_address (dev_contexts d) @ [ip]"
    by (simp_all add: prv_device_append_new_context_def prv_context_new_def)
  show "dev_ref d' = dev_ref d" "dev_path d' = dev_path d"
    "map ctx_ref (dev_contexts d') = map ctx_ref (dev_contexts d) @ [ref]"
    "map ctx_ip_address (dev_contexts d') = map ctx_ip_address (dev_contexts d) @ [ip]"
    "dev_contexts d' \<noteq> []"
    using resubscribing.op_keeps [OF sub] resubscribing.op_nonempty [OF sub] d1 by simp_all
qed

lemma append_new_context_defined:
  "\<exists>d' eff. dld_device_append_new_context ref ip info bms d = Some (d', eff)"
proof -
  have "dev_contexts (fst (prv_device_append_new_context ref ip info bms d)) \<noteq> []"
    by (simp add: prv_device_append_new_context_def split: prod.splits)
  from resubscribing.op_defined [OF this] show ?thesis
    by (auto simp: dld_device_append_new_context_def split: prod.splits)
qed

lemma nth_remove_index:
  "i < length xs \<Longrightarrow> j < length xs - 1 \<Longrightarrow>
     remove_index i xs ! j = (if j < i then xs ! j else xs ! Suc j)"
  by (auto simp: remove_index_def nth_append min_def)

lemma preferred_remove:
  assumes p: "preferred ips = Some k" and i: "i < length ips" and ne: "i \<noteq> k"
  shows "preferred (remove_index i ips) = Some (if k < i then k else k - 1)"
proof (cases "find_index local_address ips")
  case None
  then have k: "k = 0" using p by (auto simp: preferred_def split: if_splits)
  have "find_index local_address (remove_index i ips) = None"
    using None set_remove_index [of i ips] by (auto simp: find_index_None)
  moreover have "remove_index i ips \<noteq> []"
    using i ne k by (auto simp: remove_index_def)
  ultimately show ?thesis using k ne by (simp add: preferred_def)
next
  case (Some j)
  then have "j = k" using p by (simp add: preferred_def)
  with Some have k: "k < length ips" "local_address (ips ! k)" "\<forall>j < k. \<not> local_address (ips ! j)"
    using find_index_SomeD by metis+
  have "find_index local_address (remove_index i ips) = Some (if k < i then k else k - 1)"
  proof (rule find_index_SomeI)
    show "(if k < i then k else k - 1) < length (remove_index i ips)"
      using k(1) i ne by (auto simp: length_remove_index)
    show "local_address (remove_index i ips ! (if k < i then k else k - 1))"
      using k i ne by (auto simp: nth_remove_index)
    show "\<not> local_address (remove_index i ips ! j)" if "j < (if k < i then k else k - 1)" for j
      using that k i by (auto simp: nth_remove_index split: if_splits)
  qed
  then show ?thesis by (simp add: preferred_def)
qed

definition remove_context :: "nat \<Rightarrow> dld_device \<Rightarrow> dld_device" where
  "remove_context i d = d\<lparr>dev_contexts := remove_index i (dev_contexts d)\<rparr>"

lemma remove_context_inv:
  assumes inv: "context_inv d" and i: "i < length (dev_contexts d)"
  shows "context_inv (remove_context i d)"
proof -
  let ?cs = "dev_contexts d" and ?d' = "remove_context i d"
  have cs': "dev_contexts ?d' = remove_index i ?cs" "dev_ref ?d' = dev_ref d"
    by (simp_all add: remove_context_def)
  have "dld_device_get_context ?d' = Some j"
    if j: "j < length (dev_contexts ?d')" and s: "bms_subscribed (dev_contexts ?d' ! j)" for j
  proof -
    let ?k = "if j < i then j else Suc j"
    have jl: "j < length ?cs - 1" using j i by (simp add: cs' length_remove_index)
    then have "bms_subscribed (?cs ! ?k)" "?k < length ?cs"
      using s by (auto simp: cs' nth_remove_index [OF i jl] split: if_splits)
    then have "preferred (map ctx_ip_address ?cs) = Some ?k"
      using inv by (auto simp: context_inv_def get_context_preferred [symmetric])
    from preferred_remove [OF this, of i] i
    have "preferred (remove_index i (map ctx_ip_address ?cs)) = Some j"
      by (simp split: if_splits)
    then show ?thesis
      by (simp add: get_context_preferred cs' remove_index_map)
  qed
  then show ?thesis
    using inv set_remove_index [of i ?cs]
    by (auto simp: context_inv_def cs' remove_index_map distinct_remove_index)
qed

subsection \<open>Listeners\<close>

text \<open>
  How many more times a callback is registered with a service proxy after a sequence of calls,
  and how many contexts count as subscribed through that proxy.
\<close>

fun listener_delta :: "notify_cb \<Rightarrow> proxy \<Rightarrow> effect \<Rightarrow> int" where
  "listener_delta cb p (Add_notify q v c dev) = of_bool (q = Some p \<and> c = cb)"
| "listener_delta cb p (Remove_notify q v c dev) = - of_bool (q = Some p \<and> c = cb)"
| "listener_delta cb p _ = 0"

definition listeners :: "notify_cb \<Rightarrow> proxy \<Rightarrow> effect list \<Rightarrow> int" where
  "listeners cb p eff = sum_list (map (listener_delta cb p) eff)"

definition subscribed_via :: "proxy \<Rightarrow> dev_context \<Rightarrow> int" where
  "subscribed_via p c = of_bool (bms_subscribed c \<and> bms_proxy c = Some p)"

definition subscriptions :: "proxy \<Rightarrow> dld_device \<Rightarrow> int" where
  "subscriptions p d = sum_list (map (subscribed_via p) (dev_contexts d))"

lemma listeners_simps [simp]:
  "listeners cb p [] = 0"
  "listeners cb p (e # eff) = listener_delta cb p e + listeners cb p eff"
  "listeners cb p (eff1 @ eff2) = listeners cb p eff1 + listeners cb p eff2"
  by (simp_all add: listeners_def)

lemma listeners_concat: "listeners cb p (concat effs) = sum_list (map (listeners cb p) effs)"
  by (induction effs) simp_all

lemma listeners_remove_notifies [simp]:
  "listeners cb p (remove_notifies c) = - of_bool (bms_proxy c = Some p)"
  by (cases cb) (simp_all add: remove_notifies_def)

lemma listeners_unsubscribe:
  "listeners cb p (snd (prv_context_unsubscribe c)) = - subscribed_via p c"
  by (simp add: prv_context_unsubscribe_def subscribed_via_def Let_def)

lemma listeners_subscribe:
  "listeners cb p (snd (subscribe_context dev c)) = of_bool (bms_proxy c = Some p)"
  by (cases cb) (auto simp: subscribe_context_def)

lemma subscribed_via_subscribe:
  "subscribed_via p (fst (subscribe_context dev c)) = of_bool (bms_proxy c = Some p)"
  by (auto simp: subscribe_context_def subscribed_via_def)

lemma subscribed_via_unsubscribe [simp]: "subscribed_via p (fst (prv_context_unsubscribe c)) = 0"
  by (simp add: subscribed_via_def context_op_subscribed)

lemma sum_list_update_int:
  "i < length xs \<Longrightarrow> sum_list (map (f :: 'a \<Rightarrow> int) (xs[i := x])) = sum_list (map f xs) - f (xs ! i) + f x"
  by (induction xs arbitrary: i) (auto split: nat.splits)

lemma subscriptions_upd_context:
  "i < length (dev_contexts d) \<Longrightarrow>
     subscriptions p (fst (upd_context i f d)) =
       subscriptions p d - subscribed_via p (dev_contexts d ! i) +
       subscribed_via p (fst (f (dev_contexts d ! i)))"
  by (simp add: subscriptions_def upd_context_def sum_list_update_int split: prod.splits)

lemma snd_upd_context: "snd (upd_context i f d) = snd (f (dev_contexts d ! i))"
  by (simp add: upd_context_def split: prod.splits)

lemma listeners_subscribe_to_service_changes:
  assumes "dld_device_subscribe_to_service_changes d = Some (d', eff)"
    and "dld_device_get_context d = Some i"
  shows "listeners cb p eff =
           subscriptions p d' - subscriptions p d + subscribed_via p (dev_contexts d ! i)"
proof -
  have "(d', eff) = upd_context i (subscribe_context (dev_ref d)) d"
    using assms by (simp add: dld_device_subscribe_to_service_changes_def)
  then have "d' = fst (upd_context i (subscribe_context (dev_ref d)) d)"
    "eff = snd (upd_context i (subscribe_context (dev_ref d)) d)"
    by (metis fst_conv, metis snd_conv)
  then show ?thesis
    by (simp add: subscriptions_upd_context [OF get_context_less [OF assms(2)]] snd_upd_context
        subscribed_via_subscribe listeners_subscribe)
qed


lemma subscribed_context_listeners:
  assumes sub: "prv_device_subscribe_context d = Some (d', eff)" and pre: "context_pre d"
  shows "listeners cb p eff = subscriptions p d' - subscriptions p d"
proof -
  from sub obtain k where k: "dld_device_get_context d = Some k"
    by (auto simp: prv_device_subscribe_context_def Let_def split: option.splits)
  have switch: "listeners cb p (eff1 @ eff2) = subscriptions p d' - subscriptions p d"
    if step: "dld_device_subscribe_to_service_changes d1 = Some (d', eff2)"
      and same: "same_device d d1" and off: "\<not> bms_subscribed (dev_contexts d1 ! k)"
      and eff1: "listeners cb p eff1 = subscriptions p d1 - subscriptions p d" for d1 eff1 eff2
  proof -
    have "dld_device_get_context d1 = Some k"
      using same_device_context(1) [OF same] k by simp
    from listeners_subscribe_to_service_changes [OF step this, of cb p] off eff1
    show ?thesis by (simp add: subscribed_via_def)
  qed
  show ?thesis
  proof (cases "prv_device_get_subscribed_context d")
    case None
    with sub k have step: "dld_device_subscribe_to_service_changes d = Some (d', eff)"
      by (auto simp: prv_device_subscribe_context_def)
    have "\<not> bms_subscribed (dev_contexts d ! k)"
      using None get_context_less [OF k] by (auto simp: prv_device_get_subscribed_context_def find_index_None)
    with switch [OF step, of "[]"] show ?thesis by simp
  next
    case (Some i)
    then have i: "i < length (dev_contexts d)" "bms_subscribed (dev_contexts d ! i)"
      by (auto simp: prv_device_get_subscribed_context_def dest: find_index_SomeD)
    let ?d1 = "fst (upd_context i prv_context_unsubscribe d)"
    let ?eff1 = "snd (upd_context i prv_context_unsubscribe d)"
    have eff1: "listeners cb p ?eff1 = subscriptions p ?d1 - subscriptions p d"
      using i by (simp add: subscriptions_upd_context snd_upd_context listeners_unsubscribe)
    show ?thesis
    proof (cases "i = k")
      case True
      with sub Some k show ?thesis by (simp add: prv_device_subscribe_context_def)
    next
      case False
      with sub Some k obtain eff2 where
        step: "dld_device_subscribe_to_service_changes ?d1 = Some (d', eff2)" and eff: "eff = ?eff1 @ eff2"
        by (auto simp: prv_device_subscribe_context_def split: prod.splits)
      note un = unsubscribe_other_inv [OF pre Some]
      have "\<not> bms_subscribed (dev_contexts ?d1 ! k)"
        using un(3) get_context_less [OF k] same_device_context(4) [OF un(2)] by auto
      from switch [OF step un(2) this eff1] show ?thesis by (simp add: eff)
    qed
  qed
qed

lemma sum_list_uminus_int: "sum_list (map (\<lambda>x. - f x) xs) = - sum_list (map f xs :: int list)"
  by (induction xs) simp_all

lemma append_context_unsubscribed:
  "subscriptions p (fst (prv_device_append_new_context ref ip info bms d)) = subscriptions p d"
  "listeners cb p (snd (prv_device_append_new_context ref ip info bms d)) = 0"
  by (simp_all add: subscriptions_def subscribed_via_def prv_device_append_new_context_def
      prv_context_new_def)

subsection \<open>Properties\<close>

text \<open>The context the library talks to a device through is well defined as soon as the device
  has one: it is the first one with a loopback address, and the first of all when no address
  is a loopback address.\<close>

theorem preferred_context:
  "dld_device_get_context d = Some i \<longleftrightarrow>
     i < length (dev_contexts d) \<and>
     (if \<exists>c \<in> set (dev_contexts d). local_context c
      then local_context (dev_contexts d ! i) \<and> (\<forall>j < i. \<not> local_context (dev_contexts d ! j))
      else i = 0)"
proof (cases "find_index local_context (dev_contexts d)")
  case None
  then have "dld_device_get_context d = (if dev_contexts d = [] then None else Some 0)"
    by (simp add: dld_device_get_context_def)
  then show ?thesis
    using None by (auto simp: find_index_None)
next
  case (Some k)
  from find_index_SomeD [OF this]
  have k: "k < length (dev_contexts d)" "local_context (dev_contexts d ! k)"
    "\<forall>j < k. \<not> local_context (dev_contexts d ! j)"
    by auto
  then have "\<exists>c \<in> set (dev_contexts d). local_context c" by auto
  with Some k show ?thesis
    by (auto simp: dld_device_get_context_def) (metis linorder_neqE_nat)+
qed

definition sample_descr :: descr where
  "sample_descr =
     \<lparr>de_device_type = Some ''urn:x'', de_udn = Some ''uuid:1'', de_friendly_name = Some ''TV'',
      de_icon_url = None, de_icon_mime_type = None, de_manufacturer = Some ''M'',
      de_manufacturer_url = None, de_model_description = None, de_model_name = Some ''N'',
      de_model_number = None, de_serial_number = None, de_presentation_url = None\<rparr>"

definition sample_info :: device_info where
  "sample_info = DeviceInfo sample_descr (Some 7) []"

definition sample_context :: "addr \<Rightarrow> string \<Rightarrow> dev_context" where
  "sample_context ref ip = fst (prv_context_new ref ip sample_info (Some 7) 1)"

definition sample_device :: "dev_context list \<Rightarrow> dld_device" where
  "sample_device ctxs =
     \<lparr>dev_ref = 1, dev_ids = [0, 0], dev_path = ''/p/0'', dev_contexts = ctxs, dev_props = [],
      dev_timeout_id = 0, construct_step = 0, icon_mime_type = None, icon_bytes = [],
      icon_size = 0\<rparr>"

lemmas sample_defs =
  sample_context_def sample_device_def sample_info_def sample_descr_def prv_context_new_def

theorem preferred_context_witness:
  "dld_device_get_context
     (sample_device [sample_context 2 ''10.0.0.1'', sample_context 3 ''127.0.0.1'']) = Some 1"
  unfolding preferred_context
  by (simp add: sample_defs local_context_def local_address_def)


text \<open>C24: Adding a context to a device keeps the invariant of its contexts and leaves the device
  subscribed through the context it now prefers, if that one has a Basic Management proxy:
  the subscription moves when the new context is preferred to the one subscribed so far.\<close>

theorem append_context_subscribes_preferred:
  assumes "context_inv d"
    and "ref \<notin> ctx_ref ` set (dev_contexts d)"
    and "ip \<notin> ctx_ip_address ` set (dev_contexts d)"
    and "dld_device_append_new_context ref ip info bms d = Some (d', eff)"
  shows "context_inv d' \<and>
         (\<exists>i. dld_device_get_context d' = Some i \<and>
              (bms_subscribed (dev_contexts d' ! i) \<longleftrightarrow> bms_proxy (dev_contexts d' ! i) \<noteq> None)) \<and>
         (\<forall>cb p. listeners cb p eff = subscriptions p d' - subscriptions p d)"
proof -
  let ?d1 = "fst (prv_device_append_new_context ref ip info bms d)"
  obtain eff2 where sub: "prv_device_subscribe_context ?d1 = Some (d', eff2)"
    and eff: "eff = snd (prv_device_append_new_context ref ip info bms d) @ eff2"
    using assms(4) by (auto simp: dld_device_append_new_context_def split: prod.splits)
  have pre: "context_pre ?d1" using assms(1,2,3) by (rule append_new_context_pre)
  note est = subscribe_context_establishes [OF sub pre]
  from append_new_context_keeps(5) [OF assms(4)] obtain i where i: "dld_device_get_context d' = Some i"
    using get_context_None by (cases "dld_device_get_context d'") auto
  then have i1: "dld_device_get_context ?d1 = Some i"
    using same_device_context(1) [OF est(2)] by simp
  have "bms_proxy (dev_contexts d' ! i) = bms_proxy (dev_contexts ?d1 ! i)"
    using est(2) get_context_less [OF i1]
    by (auto simp: same_device_def list_all2_conv_all_nth same_context_def)
  moreover have "bms_subscribed (dev_contexts d' ! i) \<longrightarrow> bms_proxy (dev_contexts d' ! i) \<noteq> None"
    using est(1) get_context_less [OF i] by (simp add: context_inv_def)
  ultimately have "bms_subscribed (dev_contexts d' ! i) \<longleftrightarrow> bms_proxy (dev_contexts d' ! i) \<noteq> None"
    using est(3) [OF i1] by auto
  with est(1) i show ?thesis
    by (auto simp: eff subscribed_context_listeners [OF sub pre] append_context_unsubscribed)
qed

theorem append_context_subscribes_preferred_witness:
  "\<exists>d' eff. dld_device_append_new_context 3 ''127.0.0.1'' sample_info (Some 8)
       (sample_device [(sample_context 2 ''10.0.0.1'')\<lparr>bms_subscribed := True\<rparr>]) = Some (d', eff) \<and>
     context_inv d' \<and> listeners Bm_test_ids_cb 7 eff = - 1 \<and> listeners Bm_test_ids_cb 8 eff = 1"
proof -
  let ?d = "sample_device [(sample_context 2 ''10.0.0.1'')\<lparr>bms_subscribed := True\<rparr>]"
  obtain d' eff where a:
    "dld_device_append_new_context 3 ''127.0.0.1'' sample_info (Some 8) ?d = Some (d', eff)"
    using append_new_context_defined by blast
  have inv: "context_inv ?d"
    by (simp add: context_inv_def sample_defs get_context_preferred preferred_def local_address_def)
  have "subscriptions 7 ?d = 1 \<and> subscriptions 8 ?d = 0 \<and>
        subscriptions 7 d' = 0 \<and> subscriptions 8 d' = 1"
    using a
    by (auto simp: sample_defs subscriptions_def subscribed_via_def dld_device_append_new_context_def
        prv_device_append_new_context_def prv_device_subscribe_context_def upd_context_def
        dld_device_subscribe_to_service_changes_def get_context_preferred preferred_def
        local_address_def subscribe_context_def prv_context_unsubscribe_def
        prv_device_get_subscribed_context_def)
  with a append_context_subscribes_preferred [OF inv _ _ a] show ?thesis
    by (auto simp: sample_defs)
qed

text \<open>C25: A subscription that is lost is renewed once: the context stays subscribed and a timer
  of ten seconds runs, after which the context is as before. When it is lost again while the
  timer runs, the timer is stopped, every listener is removed and the context counts as
  unsubscribed.\<close>

theorem lost_subscription_protocol:
  assumes "bms_timeout_id ctx = 0" and "tid \<noteq> 0"
    and "prv_bms_subscription_lost_cb tid ctx = (ctx1, eff1)"
    and "prv_bms_subscription_lost_cb tid2 ctx1 = (ctx2, eff2)"
  shows "eff1 = [Set_subscribed (bms_proxy ctx) True,
                 Timeout_add tid 10 (Re_enable_bms_subscription (ctx_device ctx) (ctx_ref ctx))] \<and>
         prv_re_enable_bms_subscription ctx1 = ctx \<and>
         ctx2 = ctx\<lparr>bms_subscribed := False\<rparr> \<and>
         Source_remove tid \<in> set eff2 \<and>
         (\<forall>cb p. listeners cb p (eff1 @ eff2) = - of_bool (bms_proxy ctx = Some p))"
  using assms
  by (auto simp: prv_bms_subscription_lost_cb_def prv_re_enable_bms_subscription_def)

theorem lost_subscription_protocol_witness:
  "fst (prv_bms_subscription_lost_cb 6
     (fst (prv_bms_subscription_lost_cb 5 ((sample_context 2 ''10.0.0.1'')\<lparr>bms_subscribed := True\<rparr>)))) =
   sample_context 2 ''10.0.0.1''"
  using lost_subscription_protocol
    [OF _ _ surjective_pairing surjective_pairing,
      of "(sample_context 2 ''10.0.0.1'')\<lparr>bms_subscribed := True\<rparr>" 5 6]
  by (simp add: sample_defs)

text \<open>Unsubscribing a device leaves none of its contexts subscribed and no timer running,
  removes as many listeners from each proxy as there were subscriptions through it, and is
  idempotent.\<close>

theorem unsubscribe_releases:
  assumes "dld_device_unsubscribe d = (d', eff)"
  shows "(\<forall>c \<in> set (dev_contexts d'). \<not> bms_subscribed c \<and> bms_timeout_id c = 0) \<and>
         (\<forall>cb p. listeners cb p eff = - subscriptions p d) \<and>
         (\<forall>c \<in> set (dev_contexts d).
            bms_timeout_id c \<noteq> 0 \<longrightarrow> Source_remove (bms_timeout_id c) \<in> set eff) \<and>
         dld_device_unsubscribe d' = (d', [])"
proof -
  have d': "d' = d\<lparr>dev_contexts := map (\<lambda>c. fst (prv_context_unsubscribe c)) (dev_contexts d)\<rparr>"
    and eff: "eff = concat (map (\<lambda>c. snd (prv_context_unsubscribe c)) (dev_contexts d))"
    using assms by (simp_all add: dld_device_unsubscribe_eq)
  have one: "\<not> bms_subscribed (fst (prv_context_unsubscribe c))"
    "bms_timeout_id (fst (prv_context_unsubscribe c)) = 0"
    "prv_context_unsubscribe (fst (prv_context_unsubscribe c)) = (fst (prv_context_unsubscribe c), [])"
    "bms_timeout_id c \<noteq> 0 \<Longrightarrow> Source_remove (bms_timeout_id c) \<in> set (snd (prv_context_unsubscribe c))"
    for c by (simp_all add: prv_context_unsubscribe_def)
  have "listeners cb p eff = - subscriptions p d" for cb p
    by (simp add: eff listeners_concat subscriptions_def listeners_unsubscribe o_def
        sum_list_uminus_int)
  then show ?thesis
    using one(1,2,3) by (auto simp: d' eff dld_device_unsubscribe_eq intro: one(4))
qed

theorem unsubscribe_releases_witness:
  "listeners Bm_test_ids_cb 7 (snd (dld_device_unsubscribe
     (sample_device [(sample_context 2 ''10.0.0.1'')\<lparr>bms_subscribed := True, bms_timeout_id := 9\<rparr>]))) = - 1"
  using unsubscribe_releases [OF surjective_pairing, of
    "sample_device [(sample_context 2 ''10.0.0.1'')\<lparr>bms_subscribed := True, bms_timeout_id := 9\<rparr>]"]
  by (simp add: sample_defs subscriptions_def subscribed_via_def)


subsection \<open>A handler that stays connected\<close>

text \<open>
  Nothing disconnects the \<open>subscription-lost\<close> handler of a context. GObject runs a handler as
  often as it was connected, so a context that is given up for a preferred one and subscribed
  again later has two: a single loss of its subscription is then treated as two losses, and the
  renewal is given up at once.
\<close>

fun emit_subscription_lost :: "nat \<Rightarrow> source_id \<Rightarrow> dev_context \<Rightarrow> dev_context \<times> effect list" where
  "emit_subscription_lost 0 tid ctx = (ctx, [])"
| "emit_subscription_lost (Suc n) tid ctx =
     (let (ctx1, eff1) = prv_bms_subscription_lost_cb tid ctx;
          (ctx2, eff2) = emit_subscription_lost n tid ctx1
      in (ctx2, eff1 @ eff2))"

definition lost_handlers :: "dev_context \<Rightarrow> effect list \<Rightarrow> nat" where
  "lost_handlers ctx eff =
     length (filter (\<lambda>e. e = Connect_subscription_lost (bms_proxy ctx) (ctx_ref ctx)) eff)"

lemma subscribed_twice_gives_up:
  fixes ctx :: dev_context and dev :: addr
  assumes "bms_proxy ctx \<noteq> None" and "\<not> bms_subscribed ctx" and "bms_timeout_id ctx = 0"
    and "tid \<noteq> 0"
    and "subscribe_context dev ctx = (ctx1, eff1)"
    and "prv_context_unsubscribe ctx1 = (ctx2, eff2)"
    and "subscribe_context dev ctx2 = (ctx3, eff3)"
  shows "bms_subscribed ctx3"
    and "lost_handlers ctx (eff1 @ eff2 @ eff3) = 2"
    and "bms_subscribed (fst (emit_subscription_lost 1 tid ctx3))"
    and "\<not> bms_subscribed (fst (emit_subscription_lost (lost_handlers ctx (eff1 @ eff2 @ eff3)) tid ctx3))"
proof -
  show "lost_handlers ctx (eff1 @ eff2 @ eff3) = 2"
    using assms by (auto simp: subscribe_context_def prv_context_unsubscribe_def remove_notifies_def
        lost_handlers_def split: if_splits)
  then show "bms_subscribed ctx3"
    "bms_subscribed (fst (emit_subscription_lost 1 tid ctx3))"
    "\<not> bms_subscribed (fst (emit_subscription_lost (lost_handlers ctx (eff1 @ eff2 @ eff3)) tid ctx3))"
    using assms by (auto simp: subscribe_context_def prv_context_unsubscribe_def
        prv_bms_subscription_lost_cb_def numeral_2_eq_2 split: if_splits)
qed

end
