(* ===== verification/Device.thy ===== *)
theory Device
  imports Dev_Context
begin

section \<open>device.c: properties, construction and deletion of a device\<close>

text \<open>
  The properties a device shows on the bus and how the events of its Basic Management service
  change them; the two steps in which a device is constructed (subscribe, then publish its
  interfaces); its deletion. An operation returns None where the C code has no defined
  behaviour: the array of contexts is empty, or \<open>atoi\<close> reads a number that is not an \<open>int\<close>.
\<close>

subsection \<open>Names\<close>

definition DLD_INTERFACE_PROP_DEVICE_TYPE :: string where
  "DLD_INTERFACE_PROP_DEVICE_TYPE = ''DeviceType''"

definition DLD_INTERFACE_PROP_UDN :: string where
  "DLD_INTERFACE_PROP_UDN = ''UDN''"

definition DLD_INTERFACE_PROP_FRIENDLY_NAME :: string where
  "DLD_INTERFACE_PROP_FRIENDLY_NAME = ''FriendlyName''"

definition DLD_INTERFACE_PROP_ICON_URL :: string where
  "DLD_INTERFACE_PROP_ICON_URL = ''IconURL''"

definition DLD_INTERFACE_PROP_MANUFACTURER :: string where
  "DLD_INTERFACE_PROP_MANUFACTURER = ''Manufacturer''"

definition DLD_INTERFACE_PROP_MANUFACTURER_URL :: string where
  "DLD_INTERFACE_PROP_MANUFACTURER_URL = ''ManufacturerUrl''"

definition DLD_INTERFACE_PROP_MODEL_DESCRIPTION :: string where
  "DLD_INTERFACE_PROP_MODEL_DESCRIPTION = ''ModelDescription''"

definition DLD_INTERFACE_PROP_MODEL_NAME :: string where
  "DLD_INTERFACE_PROP_MODEL_NAME = ''ModelName''"

definition DLD_INTERFACE_PROP_MODEL_NUMBER :: string where
  "DLD_INTERFACE_PROP_MODEL_NUMBER = ''ModelNumber''"

definition DLD_INTERFACE_PROP_SERIAL_NUMBER :: string where
  "DLD_INTERFACE_PROP_SERIAL_NUMBER = ''SerialNumber''"

definition DLD_INTERFACE_PROP_PRESENTATION_URL :: string where
  "DLD_INTERFACE_PROP_PRESENTATION_URL = ''PresentationURL''"

lemmas prop_name_defs =
  DLD_INTERFACE_PROP_DEVICE_TYPE_def DLD_INTERFACE_PROP_UDN_def
  DLD_INTERFACE_PROP_FRIENDLY_NAME_def DLD_INTERFACE_PROP_ICON_URL_def
  DLD_INTERFACE_PROP_MANUFACTURER_def DLD_INTERFACE_PROP_MANUFACTURER_URL_def
  DLD_INTERFACE_PROP_MODEL_DESCRIPTION_def DLD_INTERFACE_PROP_MODEL_NAME_def
  DLD_INTERFACE_PROP_MODEL_NUMBER_def DLD_INTERFACE_PROP_SERIAL_NUMBER_def
  DLD_INTERFACE_PROP_PRESENTATION_URL_def

text \<open>The interfaces of a device object, in the order in which they are published.\<close>

definition g_server_interfaces :: "string list" where
  "g_server_interfaces = [DLD_INTERFACE_PROPERTIES, DLEYNA_DIAGNOSTICS_INTERFACE_DEVICE]"

definition DLD_INTERFACE_INFO_MAX :: nat where
  "DLD_INTERFACE_INFO_MAX = 2"

definition dld_diagnostics_get_interface_name :: "nat \<Rightarrow> string" where
  "dld_diagnostics_get_interface_name index = g_server_interfaces ! index"

subsection \<open>Properties\<close>

definition g_variant_new_string :: "glib \<Rightarrow> string option \<Rightarrow> gvariant option" where
  "g_variant_new_string gl str =
     (case str of None \<Rightarrow> gv_new_string_null gl | Some s \<Rightarrow> Some (GString s))"

text \<open>The builder of the changed properties is optional (NULL).\<close>

definition prv_change_props ::
  "string \<Rightarrow> gvariant \<Rightarrow> (string, gvariant option) ghash \<Rightarrow> (string \<times> gvariant) list option \<Rightarrow>
     (string, gvariant option) ghash \<times> (string \<times> gvariant) list option" where
  "prv_change_props key val props changed_props_vb =
     (g_hash_table_insert props key (Some val),
      map_option (\<lambda>vb. vb @ [(key, val)]) changed_props_vb)"

definition prv_emit_signal_properties_changed :: "dld_device \<Rightarrow> string \<Rightarrow> gvariant \<Rightarrow> effect list" where
  "prv_emit_signal_properties_changed device interface changed_props =
     [Notify (dev_path device) DLD_INTERFACE_PROPERTIES DLD_INTERFACE_PROPERTIES_CHANGED
        (GTuple [GString interface, changed_props, gv_strings []])]"

text \<open>The part the event handlers share: change one property and signal the change.\<close>

definition change_and_signal :: "string \<Rightarrow> gvariant \<Rightarrow> dld_device \<Rightarrow> dld_device \<times> effect list" where
  "change_and_signal key val device =
     (let (props, vb) = prv_change_props key val (dev_props device) (Some [])
      in (device\<lparr>dev_props := props\<rparr>,
          prv_emit_signal_properties_changed (device\<lparr>dev_props := props\<rparr>)
            DLEYNA_DIAGNOSTICS_INTERFACE_DEVICE
            (gv_vardict (case vb of None \<Rightarrow> [] | Some kvs \<Rightarrow> kvs))))"

definition prv_bm_device_status_cb :: "glib \<Rightarrow> string \<Rightarrow> dld_device \<Rightarrow> dld_device \<times> effect list" where
  "prv_bm_device_status_cb gl device_status_str device =
     change_and_signal DLD_INTERFACE_PROP_STATUS_INFO
       (gv_strings (comma_pieces gl device_status_str)) device"

definition prv_bm_test_ids_prop_change ::
  "glib \<Rightarrow> string \<Rightarrow> string \<Rightarrow> dld_device \<Rightarrow> (dld_device \<times> effect list) option" where
  "prv_bm_test_ids_prop_change gl key ids_str device =
     (case those (map atou (comma_pieces gl ids_str)) of
        None \<Rightarrow> None
      | Some ids \<Rightarrow> Some (change_and_signal key (gv_uints ids) device))"

definition prv_bm_test_ids_cb ::
  "glib \<Rightarrow> string \<Rightarrow> dld_device \<Rightarrow> (dld_device \<times> effect list) option" where
  "prv_bm_test_ids_cb gl test_ids_str device =
     prv_bm_test_ids_prop_change gl DLD_INTERFACE_PROP_TEST_IDS test_ids_str device"

definition prv_bm_active_test_ids_cb ::
  "glib \<Rightarrow> string \<Rightarrow> dld_device \<Rightarrow> (dld_device \<times> effect list) option" where
  "prv_bm_active_test_ids_cb gl active_test_ids_str device =
     prv_bm_test_ids_prop_change gl DLD_INTERFACE_PROP_ACTIVE_TEST_IDS active_test_ids_str device"

text \<open>
  The properties read from the description. Every string goes through
  \<open>g_variant_new_string\<close>, also when GUPnP returned NULL for it.
\<close>

definition described_props :: "glib \<Rightarrow> descr \<Rightarrow> (string \<times> gvariant option) list" where
  "described_props gl de =
     [(DLD_INTERFACE_PROP_DEVICE_TYPE, g_variant_new_string gl (de_device_type de)),
      (DLD_INTERFACE_PROP_UDN, g_variant_new_string gl (de_udn de)),
      (DLD_INTERFACE_PROP_FRIENDLY_NAME, g_variant_new_string gl (de_friendly_name de)),
      (DLD_INTERFACE_PROP_ICON_URL, g_variant_new_string gl (de_icon_url de)),
      (DLD_INTERFACE_PROP_MANUFACTURER, g_variant_new_string gl (de_manufacturer de)),
      (DLD_INTERFACE_PROP_MANUFACTURER_URL, g_variant_new_string gl (de_manufacturer_url de)),
      (DLD_INTERFACE_PROP_MODEL_DESCRIPTION, g_variant_new_string gl (de_model_description de)),
      (DLD_INTERFACE_PROP_MODEL_NAME, g_variant_new_string gl (de_model_name de)),
      (DLD_INTERFACE_PROP_MODEL_NUMBER, g_variant_new_string gl (de_model_number de)),
      (DLD_INTERFACE_PROP_SERIAL_NUMBER, g_variant_new_string gl (de_serial_number de)),
      (DLD_INTERFACE_PROP_PRESENTATION_URL, g_variant_new_string gl (de_presentation_url de))]"

definition prv_props_update :: "glib \<Rightarrow> dld_device \<Rightarrow> dld_device option" where
  "prv_props_update gl device =
     (case dld_device_get_context device of
        None \<Rightarrow> None
      | Some i \<Rightarrow>
          let info = ctx_device_proxy (dev_contexts device ! i)
          in Some (device\<lparr>dev_props :=
               foldl (\<lambda>props (key, val). g_hash_table_insert props key val) (dev_props device)
                 (described_props gl (di_descr info))\<rparr>))"

subsection \<open>Construction\<close>

definition prv_subscribe :: "dld_device \<Rightarrow> (dld_device \<times> effect list) option" where
  "prv_subscribe device =
     prv_device_subscribe_context (device\<lparr>construct_step := construct_step device + 1\<rparr>)"

text \<open>
  The loop of \<open>prv_declare\<close>: \<open>pub i\<close> is the identifier the connector returns for the i-th
  interface, 0 for a failure, which ends the loop. The flag is \<open>*failed\<close>.
\<close>

fun declare_loop ::
  "(nat \<Rightarrow> guint) \<Rightarrow> string \<Rightarrow> nat list \<Rightarrow> guint list \<Rightarrow> guint list \<times> bool \<times> effect list" where
  "declare_loop pub path [] ids = (ids, False, [])"
| "declare_loop pub path (i # is) ids =
     (let call = Publish_object path False (dld_diagnostics_get_interface_name i);
          ids1 = ids[i := pub i]
      in if ids1 ! i = 0 then (ids1, True, [call])
         else (let (ids2, failed, eff) = declare_loop pub path is ids1
               in (ids2, failed, call # eff)))"

definition prv_declare :: "(nat \<Rightarrow> guint) \<Rightarrow> dld_device \<Rightarrow> dld_device \<times> bool \<times> effect list" where
  "prv_declare pub device =
     (let (ids, failed, eff) =
            declare_loop pub (dev_path device) [0..<DLD_INTERFACE_INFO_MAX] (dev_ids device)
      in (device\<lparr>construct_step := construct_step device + 1, dev_ids := ids\<rparr>, failed, eff))"

text \<open>The tasks that \<open>dld_device_construct\<close> adds to the queue, and the queue's start.\<close>

definition dld_device_construct :: "dld_device \<Rightarrow> addr \<Rightarrow> effect list" where
  "dld_device_construct dev queue_id =
     (if construct_step dev < 1 then [Add_service_task queue_id (Prv_subscribe (dev_ref dev))] else []) @
     (if construct_step dev < 2 then [Add_service_task queue_id (Prv_declare (dev_ref dev))] else []) @
     [Queue_start queue_id]"

definition dld_device_path :: "guint \<Rightarrow> string" where
  "dld_device_path counter = DLEYNA_DIAGNOSTICS_PATH @ ''/'' @ dec_of (unat counter)"

definition dld_device_new ::
  "glib \<Rightarrow> addr \<Rightarrow> addr \<Rightarrow> device_info \<Rightarrow> proxy option \<Rightarrow> string \<Rightarrow> guint \<Rightarrow> addr \<Rightarrow>
     (dld_device \<times> effect list) option" where
  "dld_device_new gl ref ctx info bms ip_address counter queue_id =
     (let dev = \<lparr>dev_ref = ref, dev_ids = replicate DLD_INTERFACE_INFO_MAX 0,
                 dev_path = dld_device_path counter, dev_contexts = [], dev_props = [],
                 dev_timeout_id = 0, construct_step = 0, icon_mime_type = None, icon_bytes = [],
                 icon_size = 0\<rparr>;
          (dev1, eff1) = prv_device_append_new_context ctx ip_address info bms dev
      in map_option (\<lambda>dev2. (dev2, eff1 @ dld_device_construct dev2 queue_id))
           (prv_props_update gl dev1))"

subsection \<open>Deletion and lookup\<close>

definition dld_device_delete :: "dld_device \<Rightarrow> effect list" where
  "dld_device_delete dev =
     (if dev_timeout_id dev \<noteq> 0 then [Source_remove (dev_timeout_id dev)] else []) @
     map Unpublish_object (takeWhile (\<lambda>i. i \<noteq> 0) (dev_ids dev)) @
     concat (map prv_dld_context_delete (dev_contexts dev))"

text \<open>The devices in the order in which the table is iterated.\<close>

fun dld_device_from_path :: "string \<Rightarrow> dld_device list \<Rightarrow> dld_device option" where
  "dld_device_from_path path [] = None"
| "dld_device_from_path path (device # device_list) =
     (if dev_path device = path then Some device else dld_device_from_path path device_list)"

subsection \<open>Lemmas on properties\<close>

lemma foldl_insert_lookup:
  "map_of (foldl (\<lambda>props (key, val). AList.update key val props) t kvs) =
     map_of t ++ map_of (rev kvs)"
  by (induction kvs arbitrary: t) (auto simp: map_add_def fun_eq_iff split: option.splits)

lemma map_of_rev_distinct: "distinct (map fst kvs) \<Longrightarrow> map_of (rev kvs) = map_of kvs"
  by (rule map_of_inject_set [THEN iffD2]) (simp_all add: rev_map [symmetric])

lemma distinct_described_props: "distinct (map fst (described_props gl de))"
  by (simp add: described_props_def prop_name_defs)

lemma foldl_insert_distinct:
  "distinct (map fst t) \<Longrightarrow>
     distinct (map fst (foldl (\<lambda>props (key, val). AList.update key val props) t kvs))"
  by (induction kvs arbitrary: t) auto

lemma props_update_lookup:
  assumes "prv_props_update gl d = Some d'" and "dld_device_get_context d = Some i"
  shows "map_of (dev_props d') = map_of (dev_props d) ++
           map_of (described_props gl (di_descr (ctx_device_proxy (dev_contexts d ! i))))"
proof -
  have "dev_props d' = foldl (\<lambda>props (key, val). AList.update key val props) (dev_props d)
          (described_props gl (di_descr (ctx_device_proxy (dev_contexts d ! i))))"
    using assms by (auto simp: prv_props_update_def)
  moreover have "map_of (rev (described_props gl de)) = map_of (described_props gl de)" for de
    by (rule map_of_rev_distinct) (rule distinct_described_props)
  ultimately show ?thesis by (simp add: foldl_insert_lookup)
qed

lemma props_update_frame [diag_frame]:
  assumes "prv_props_update gl d = Some d'"
  shows "dev_contexts d' = dev_contexts d" and "dev_ref d' = dev_ref d" and "dev_path d' = dev_path d"
    and "dev_ids d' = dev_ids d" and "dev_timeout_id d' = dev_timeout_id d"
    and "construct_step d' = construct_step d" and "icon_size d' = icon_size d"
  using assms by (auto simp: prv_props_update_def Let_def split: option.splits)

lemma change_and_signal_simps [simp]:
  "map_of (dev_props (fst (change_and_signal key val d))) = (map_of (dev_props d))(key \<mapsto> Some val)"
  "snd (change_and_signal key val d) =
     [Notify (dev_path d) DLD_INTERFACE_PROPERTIES DLD_INTERFACE_PROPERTIES_CHANGED
        (GTuple [GString DLEYNA_DIAGNOSTICS_INTERFACE_DEVICE, gv_vardict [(key, val)], gv_strings []])]"
  "dev_contexts (fst (change_and_signal key val d)) = dev_contexts d"
  "dev_ref (fst (change_and_signal key val d)) = dev_ref d"
  "dev_path (fst (change_and_signal key val d)) = dev_path d"
  by (simp_all add: change_and_signal_def prv_change_props_def prv_emit_signal_properties_changed_def)

text \<open>The event handlers touch the properties only.\<close>

definition prop_change :: "dld_device \<Rightarrow> dld_device \<Rightarrow> bool" where
  "prop_change d d' \<longleftrightarrow> (\<exists>props. d' = d\<lparr>dev_props := props\<rparr>)"

lemma event_handler_frame [diag_frame]:
  "prop_change d (fst (prv_bm_device_status_cb gl s d))"
  "prv_bm_test_ids_cb gl s d = Some (d', eff) \<Longrightarrow> prop_change d d'"
  "prv_bm_active_test_ids_cb gl s d = Some (d', eff) \<Longrightarrow> prop_change d d'"
  by (auto simp: prop_change_def prv_bm_device_status_cb_def prv_bm_test_ids_cb_def
      prv_bm_active_test_ids_cb_def prv_bm_test_ids_prop_change_def change_and_signal_def
      split: option.splits prod.splits)

lemma those_map_Some: "those (map f xs) = Some ys \<longleftrightarrow> list_all2 (\<lambda>x y. f x = Some y) xs ys"
  by (induction xs arbitrary: ys) (auto simp: list_all2_Cons1 split: option.splits)

lemma those_map_None: "those (map f xs) = None \<longleftrightarrow> (\<exists>x \<in> set xs. f x = None)"
  by (induction xs) (auto split: option.splits)

lemma those_atou_dec:
  "those (map atou (map (dec_of \<circ> unat) ids)) =
     (if \<forall>n \<in> set ids. unat n < 2 ^ 31 then Some ids else None)"
proof (cases "\<forall>n \<in> set ids. unat n < 2 ^ 31")
  case True
  then have "those (map atou (map (dec_of \<circ> unat) ids)) = Some ids"
    unfolding those_map_Some by (auto simp: list_all2_conv_all_nth atou_dec_of)
  with True show ?thesis by simp
next
  case False
  then obtain n where "n \<in> set ids" "2 ^ 31 \<le> unat n" by (auto simp: not_less)
  then have "those (map atou (map (dec_of \<circ> unat) ids)) = None"
    unfolding those_map_None using atou_dec_of_large by auto
  with False show ?thesis by auto
qed

lemma comma_pieces_dec:
  assumes doc: "glib_doc gl" and pad: "list_all2 (padded gl) (map (dec_of \<circ> unat) ids) ps"
  shows "comma_pieces gl (join_with (CHR '','') ps) = map (dec_of \<circ> unat) ids"
proof (cases "join_with (CHR '','') ps = []")
  case True
  have "ps = []"
  proof (rule ccontr)
    assume "ps \<noteq> []"
    then obtain p qs where ps: "ps = p # qs" by (cases ps) auto
    with True have "p = []" by (cases "qs = []") (auto simp: join_with_Cons)
    with pad ps show False by (auto simp: list_all2_Cons2 padded_def)
  qed
  with pad show ?thesis by (simp add: doc)
next
  case False
  show ?thesis
  proof (rule comma_pieces_join [OF doc _ pad False], intro ballI conjI)
    fix w assume "w \<in> set (map (dec_of \<circ> unat) ids)"
    then obtain n where w: "w = dec_of n" by auto
    then have digits: "list_all is_digit w" by (simp add: dec_of_digits)
    then show "CHR '','' \<notin> set w"
      using is_digit_not_special by (auto simp: list_all_iff)
    have "\<not> g_ascii_isspace gl c" if "c \<in> set w" for c
      using digits that glib_docD(7) [OF doc] by (simp add: list_all_iff)
    then show "trim (g_ascii_isspace gl) w = w"
      using w by (intro trim_id) auto
  qed
qed

subsection \<open>Lemmas on construction and deletion\<close>

lemma device_path_inj: "dld_device_path c = dld_device_path c' \<longleftrightarrow> c = c'"
  by (simp add: dld_device_path_def dec_of_inj word_unat_eq_iff)

lemma device_newE:
  assumes "dld_device_new gl ref ctx info bms ip counter q = Some (d, eff)"
  obtains "dev_contexts d = [fst (prv_context_new ctx ip info bms ref)]" and "dev_ref d = ref"
    and "dev_path d = dld_device_path counter" and "construct_step d = 0"
    and "dev_ids d = [0, 0]" and "dev_timeout_id d = 0" and "icon_size d = 0"
    and "map_of (dev_props d) = map_of (described_props gl (di_descr info))"
    and "distinct (map fst (dev_props d))"
    and "eff = [Device_proxy_ref, Add_service_task q (Prv_subscribe ref),
                Add_service_task q (Prv_declare ref), Queue_start q]"
proof -
  have p0: "dld_device_get_context d0 = Some 0" if "dev_contexts d0 = [c]" for d0 c
    using that by (simp add: get_context_preferred preferred_def)
  note new = assms [unfolded dld_device_new_def Let_def]
  show ?thesis
    by (rule that)
      (use new in \<open>auto simp: prv_device_append_new_context_def prv_context_new_def
        prv_props_update_def p0 dld_device_construct_def DLD_INTERFACE_INFO_MAX_def numeral_2_eq_2
        foldl_insert_lookup map_of_rev_distinct distinct_described_props foldl_insert_distinct\<close>)
qed

lemma device_new_defined: "\<exists>d eff. dld_device_new gl ref ctx info bms ip counter q = Some (d, eff)"
  by (simp add: dld_device_new_def prv_device_append_new_context_def prv_context_new_def
      prv_props_update_def get_context_preferred preferred_def)

lemma device_new_inv:
  "dld_device_new gl ref ctx info bms ip counter q = Some (d, eff) \<Longrightarrow> context_inv d"
  by (erule device_newE) (simp add: context_inv_def prv_context_new_def)

lemma declare_eq:
  assumes "length (dev_ids d) = 2"
  shows "prv_declare pub d =
     (d\<lparr>construct_step := construct_step d + 1,
        dev_ids := (if pub 0 = 0 then (dev_ids d)[0 := 0] else [pub 0, pub 1])\<rparr>,
      pub 0 = 0 \<or> pub 1 = 0,
      map (\<lambda>i. Publish_object (dev_path d) False (dld_diagnostics_get_interface_name i))
        (if pub 0 = 0 then [0] else [0, 1]))"
  using assms
  by (auto simp: prv_declare_def DLD_INTERFACE_INFO_MAX_def upt_rec length_Suc_conv numeral_2_eq_2
      Let_def)

lemma subscribe_step_fields:
  assumes "prv_subscribe d = Some (d1, eff)"
  shows "construct_step d1 = construct_step d + 1" and "dev_ids d1 = dev_ids d"
    and "dev_timeout_id d1 = dev_timeout_id d"
  using assms
  by (auto simp: prv_subscribe_def prv_device_subscribe_context_def upd_context_def
      dld_device_subscribe_to_service_changes_def Let_def
      split: option.splits if_splits prod.splits)

lemma context_delete_listeners:
  "listeners cb p (prv_dld_context_delete c) = - subscribed_via p c"
  by (simp add: prv_dld_context_delete_def listeners_unsubscribe)

lemma device_delete_listeners: "listeners cb p (dld_device_delete d) = - subscriptions p d"
proof -
  have zero: "listeners cb p (map Unpublish_object ids) = 0" for ids
    by (induction ids) simp_all
  have "sum_list (map (\<lambda>c. listeners cb p (prv_dld_context_delete c)) cs) =
        - sum_list (map (subscribed_via p) cs)" for cs
    by (induction cs) (simp_all add: context_delete_listeners)
  then show ?thesis
    by (simp add: dld_device_delete_def listeners_concat o_def subscriptions_def zero)
qed

text \<open>The identifiers unpublished by a sequence of calls.\<close>

fun unpublished :: "effect list \<Rightarrow> guint list" where
  "unpublished [] = []"
| "unpublished (Unpublish_object i # eff) = i # unpublished eff"
| "unpublished (_ # eff) = unpublished eff"

lemma unpublished_append [simp]: "unpublished (eff1 @ eff2) = unpublished eff1 @ unpublished eff2"
  by (induction eff1 rule: unpublished.induct) simp_all

lemma unpublished_map [simp]: "unpublished (map Unpublish_object ids) = ids"
  by (induction ids) simp_all

lemma unpublished_context_delete [simp]: "unpublished (prv_dld_context_delete c) = []"
  by (simp add: prv_dld_context_delete_def prv_context_unsubscribe_def remove_notifies_def)

lemma unpublished_device_delete: "unpublished (dld_device_delete d) = takeWhile (\<lambda>i. i \<noteq> 0) (dev_ids d)"
proof -
  have "unpublished (concat (map prv_dld_context_delete cs)) = []" for cs
    by (induction cs) simp_all
  then show ?thesis by (simp add: dld_device_delete_def)
qed

lemma device_from_path_Some:
  "dld_device_from_path path ds = Some d \<Longrightarrow> d \<in> set ds \<and> dev_path d = path"
  by (induction ds) (auto split: if_splits)

lemma device_from_path_None: "dld_device_from_path path ds = None \<longleftrightarrow> path \<notin> dev_path ` set ds"
  by (induction ds) auto

lemma paddedI:
  "list_all (g_ascii_isspace gl) l \<Longrightarrow> list_all (g_ascii_isspace gl) r \<Longrightarrow> padded gl w (l @ w @ r)"
  by (auto simp: padded_def)

subsection \<open>Properties\<close>

text \<open>A device's status words, sent as one comma-separated string with any white space around
  the commas, become the property StatusInfo word by word; no other property changes, and one
  PropertiesChanged signal carries exactly this change.\<close>

theorem status_info_roundtrip:
  assumes "glib_doc gl"
    and "\<forall>w \<in> set ws. CHR '','' \<notin> set w \<and> trim (g_ascii_isspace gl) w = w"
    and "list_all2 (padded gl) ws ps" and "join_with (CHR '','') ps \<noteq> []"
    and "prv_bm_device_status_cb gl (join_with (CHR '','') ps) d = (d', eff)"
  shows "map_of (dev_props d') =
           (map_of (dev_props d))(DLD_INTERFACE_PROP_STATUS_INFO \<mapsto> Some (gv_strings ws)) \<and>
         eff = [Notify (dev_path d) DLD_INTERFACE_PROPERTIES DLD_INTERFACE_PROPERTIES_CHANGED
                  (GTuple [GString DLEYNA_DIAGNOSTICS_INTERFACE_DEVICE,
                           gv_vardict [(DLD_INTERFACE_PROP_STATUS_INFO, gv_strings ws)],
                           gv_strings []])]"
proof -
  have "(d', eff) = change_and_signal DLD_INTERFACE_PROP_STATUS_INFO (gv_strings ws) d"
    using assms(5) by (simp add: prv_bm_device_status_cb_def comma_pieces_join [OF assms(1-4)])
  then show ?thesis
    using change_and_signal_simps(1,2) [of DLD_INTERFACE_PROP_STATUS_INFO "gv_strings ws" d]
    by (metis fst_conv snd_conv)
qed

theorem status_info_roundtrip_witness:
  "map_of (dev_props (fst (prv_bm_device_status_cb glib_ref ''OK , Busy'' (sample_device []))))
     DLD_INTERFACE_PROP_STATUS_INFO = Some (Some (gv_strings [''OK'', ''Busy'']))"
proof -
  have pad: "list_all2 (padded glib_ref) [''OK'', ''Busy''] [''OK '', '' Busy'']"
    using paddedI [of glib_ref "[]" "'' ''" "''OK''"] paddedI [of glib_ref "'' ''" "[]" "''Busy''"]
    by (simp add: glib_ref_def)
  have clean: "\<forall>w \<in> set [''OK'', ''Busy''].
      CHR '','' \<notin> set w \<and> trim (g_ascii_isspace glib_ref) w = w"
    by (simp add: trim_def glib_ref_def)
  have "join_with (CHR '','') [''OK '', '' Busy''] = ''OK , Busy''" by simp
  with status_info_roundtrip [OF glib_doc_ref clean pad _ surjective_pairing, of "sample_device []"]
  show ?thesis by simp
qed

text \<open>C29: A comma-separated list of decimal test numbers, with any white space around the commas,
  becomes the list of these numbers in the property, and one PropertiesChanged signal carries
  it, exactly when every number is below 2^31; a list with a larger number, which the type
  ui4 allows, makes \<open>atoi\<close> overflow and has no defined result.\<close>

theorem test_ids_roundtrip:
  assumes "glib_doc gl"
    and "list_all2 (padded gl) (map (dec_of \<circ> unat) ids) ps"
  shows "((\<exists>d' eff. prv_bm_test_ids_prop_change gl key (join_with (CHR '','') ps) d = Some (d', eff))
            \<longleftrightarrow> (\<forall>n \<in> set ids. unat (n :: guint) < 2 ^ 31)) \<and>
         (\<forall>d' eff. prv_bm_test_ids_prop_change gl key (join_with (CHR '','') ps) d = Some (d', eff) \<longrightarrow>
            map_of (dev_props d') = (map_of (dev_props d))(key \<mapsto> Some (gv_uints ids)) \<and>
            eff = [Notify (dev_path d) DLD_INTERFACE_PROPERTIES DLD_INTERFACE_PROPERTIES_CHANGED
                     (GTuple [GString DLEYNA_DIAGNOSTICS_INTERFACE_DEVICE,
                              gv_vardict [(key, gv_uints ids)], gv_strings []])])"
proof -
  have "prv_bm_test_ids_prop_change gl key (join_with (CHR '','') ps) d =
          (if \<forall>n \<in> set ids. unat n < 2 ^ 31 then Some (change_and_signal key (gv_uints ids) d) else None)"
    by (simp add: prv_bm_test_ids_prop_change_def comma_pieces_dec [OF assms] those_atou_dec
        del: map_map)
  then show ?thesis
    using change_and_signal_simps(1,2) [of key "gv_uints ids" d]
    by (cases "change_and_signal key (gv_uints ids) d") auto
qed

theorem test_ids_roundtrip_witness:
  "(\<exists>d' eff. prv_bm_test_ids_cb glib_ref ''2,5'' (sample_device []) = Some (d', eff)) \<and>
   prv_bm_active_test_ids_cb glib_ref ''2147483648'' (sample_device []) = None"
proof -
  have join: "join_with (CHR '','') (map (dec_of \<circ> unat) [2, 5 :: guint]) = ''2,5''"
    "join_with (CHR '','') (map (dec_of \<circ> unat) [2147483648 :: guint]) = ''2147483648''"
    by (simp_all add: dec_of_rec digit_char_def char_of_def bit_0)
  have pad: "list_all2 (padded glib_ref) ws ws" for ws
    by (simp add: list_all2_refl)
  show ?thesis
    using test_ids_roundtrip [OF glib_doc_ref pad, of DLD_INTERFACE_PROP_TEST_IDS "[2, 5]" "sample_device []"]
      test_ids_roundtrip [OF glib_doc_ref pad, of DLD_INTERFACE_PROP_ACTIVE_TEST_IDS "[2147483648]" "sample_device []"]
    unfolding join prv_bm_test_ids_cb_def prv_bm_active_test_ids_cb_def
    by (cases "prv_bm_test_ids_prop_change glib_ref DLD_INTERFACE_PROP_ACTIVE_TEST_IDS ''2147483648''
                 (sample_device [])") auto
qed

text \<open>A new device has one context, not yet subscribed, its object path is the base path with
  the decimal counter, its properties are the eleven strings of the description, each under
  its own name, and its queue holds the two construction steps in order.\<close>

theorem new_device:
  assumes "dld_device_new gl ref ctx info bms ip counter q = Some (d, eff)"
  shows "context_inv d \<and> map ctx_ip_address (dev_contexts d) = [ip] \<and>
         prv_device_get_subscribed_context d = None \<and>
         dev_path d = DLEYNA_DIAGNOSTICS_PATH @ ''/'' @ dec_of (unat counter) \<and>
         card (dom (map_of (dev_props d))) = 11 \<and>
         (\<forall>k v. map_of (dev_props d) k = Some v \<longrightarrow>
            v = gv_new_string_null gl \<or> (\<exists>s. v = Some (GString s))) \<and>
         map_of (dev_props d) ''UDN'' = Some (g_variant_new_string gl (di_udn info)) \<and>
         map_of (dev_props d) ''FriendlyName'' =
           Some (g_variant_new_string gl (de_friendly_name (di_descr info))) \<and>
         eff = [Device_proxy_ref, Add_service_task q (Prv_subscribe ref),
                Add_service_task q (Prv_declare ref), Queue_start q]"
proof -
  from assms show ?thesis
  proof (rule device_newE)
    assume d: "dev_contexts d = [fst (prv_context_new ctx ip info bms ref)]"
      "dev_path d = dld_device_path counter"
      "map_of (dev_props d) = map_of (described_props gl (di_descr info))"
      and eff: "eff = [Device_proxy_ref, Add_service_task q (Prv_subscribe ref),
                Add_service_task q (Prv_declare ref), Queue_start q]"
    have "card (set (map fst (described_props gl (di_descr info)))) = 11"
      unfolding distinct_card [OF distinct_described_props] by (simp add: described_props_def)
    then have "card (dom (map_of (dev_props d))) = 11"
      by (simp add: d dom_map_of_conv_image_fst)
    moreover have "\<forall>k v. map_of (dev_props d) k = Some v \<longrightarrow>
        v = gv_new_string_null gl \<or> (\<exists>s. v = Some (GString s))"
    proof (intro allI impI)
      fix k v assume "map_of (dev_props d) k = Some v"
      then have "(k, v) \<in> set (described_props gl (di_descr info))"
        unfolding d by (rule map_of_SomeD)
      then have "\<exists>str. v = g_variant_new_string gl str"
        by (auto simp: described_props_def)
      then show "v = gv_new_string_null gl \<or> (\<exists>s. v = Some (GString s))"
        by (auto simp: g_variant_new_string_def split: option.splits)
    qed
    moreover have "map_of (dev_props d) ''UDN'' = Some (g_variant_new_string gl (di_udn info))"
      "map_of (dev_props d) ''FriendlyName'' =
         Some (g_variant_new_string gl (de_friendly_name (di_descr info)))"
      by (simp_all add: d described_props_def prop_name_defs di_udn_def)
    moreover have "map ctx_ip_address (dev_contexts d) = [ip]"
      "prv_device_get_subscribed_context d = None"
      by (simp_all add: d(1) prv_context_new_def prv_device_get_subscribed_context_def)
    moreover note device_new_inv [OF assms] d(2) [unfolded dld_device_path_def] eff
    ultimately show ?thesis by (intro conjI)
  qed
qed

theorem new_device_witness:
  "\<exists>d eff. dld_device_new glib_ref 1 2 sample_info (Some 7) ''10.0.0.1'' 12 9 = Some (d, eff) \<and>
     dev_path d = ''/com/intel/dLeynaDiagnostics/device/12'' \<and>
     map_of (dev_props d) ''FriendlyName'' = Some (Some (GString ''TV''))"
proof -
  obtain d eff where n: "dld_device_new glib_ref 1 2 sample_info (Some 7) ''10.0.0.1'' 12 9 = Some (d, eff)"
    using device_new_defined by blast
  have "dec_of (unat (12 :: guint)) = ''12''"
    by (simp add: dec_of_rec digit_char_def char_of_def bit_0)
  then show ?thesis
    using n new_device [OF n]
    by (auto simp: name_defs sample_info_def sample_descr_def g_variant_new_string_def)
qed

text \<open>C34: Publishing a device stops at the first interface the connector refuses and reports the
  failure; deleting the device afterwards unpublishes exactly the interfaces that were
  published, in order.\<close>

theorem declare_delete_balanced:
  assumes "dev_ids d = [0, 0]" and "prv_declare pub d = (d', failed, eff)"
  shows "(failed \<longleftrightarrow> pub 0 = 0 \<or> pub 1 = 0) \<and>
         eff = map (\<lambda>i. Publish_object (dev_path d) False (g_server_interfaces ! i))
                 (if pub 0 = 0 then [0] else [0, 1]) \<and>
         unpublished (dld_device_delete d') = takeWhile (\<lambda>i. i \<noteq> 0) [pub 0, pub 1]"
  using assms
  by (auto simp: declare_eq unpublished_device_delete dld_diagnostics_get_interface_name_def)

theorem declare_delete_balanced_witness:
  "unpublished (dld_device_delete (fst (prv_declare (\<lambda>i. if i = 0 then 4 else 0) (sample_device [])))) = [4]"
proof -
  have "dev_ids (sample_device []) = [0, 0]" by (simp add: sample_device_def)
  moreover obtain d' failed eff where p:
    "prv_declare (\<lambda>i. if i = 0 then 4 else 0) (sample_device []) = (d', failed, eff)"
    using prod_cases3 by blast
  ultimately show ?thesis
    using declare_delete_balanced [OF _ p] by simp
qed

text \<open>C35: A construction that is restarted on another context runs the steps that are left and no
  other: both for a new device, publishing only after the subscription, none at the end.\<close>

theorem construct_resumes:
  assumes "construct_step d = 0" and "prv_subscribe d = Some (d1, eff1)"
    and "prv_declare pub d1 = (d2, failed, eff2)"
  shows "dld_device_construct d q =
           [Add_service_task q (Prv_subscribe (dev_ref d)), Add_service_task q (Prv_declare (dev_ref d)),
            Queue_start q] \<and>
         dld_device_construct d1 q = [Add_service_task q (Prv_declare (dev_ref d)), Queue_start q] \<and>
         dld_device_construct d2 q = [Queue_start q]"
proof -
  have "dev_ref d1 = dev_ref d"
    using resubscribing.op_keeps(1) [OF assms(2) [unfolded prv_subscribe_def]] by simp
  then show ?thesis
    using assms subscribe_step_fields [OF assms(2)]
    by (auto simp: dld_device_construct_def prv_declare_def split: prod.splits)
qed

theorem construct_resumes_witness:
  "dld_device_construct
     (fst (prv_declare (\<lambda>i. 1) (fst (the (prv_subscribe (sample_device [sample_context 2 ''10.0.0.1'']))))))
     9 = [Queue_start 9]"
proof -
  let ?d = "sample_device [sample_context 2 ''10.0.0.1'']"
  have "prv_subscribe ?d \<noteq> None"
    unfolding prv_subscribe_def by (rule resubscribing.op_defined) (simp add: sample_device_def)
  then obtain d1 eff1 where s: "prv_subscribe ?d = Some (d1, eff1)" by auto
  obtain d2 failed eff2 where p: "prv_declare (\<lambda>i. 1) d1 = (d2, failed, eff2)"
    using prod_cases3 by blast
  show ?thesis
    using construct_resumes [OF _ s p] s p by (simp add: sample_device_def)
qed

text \<open>Deleting a device removes as many listeners from each proxy as it had subscriptions
  through it and stops its own timer.\<close>

theorem delete_releases:
  "(\<forall>cb p. listeners cb p (dld_device_delete d) = - subscriptions p d) \<and>
   (dev_timeout_id d \<noteq> 0 \<longrightarrow> Source_remove (dev_timeout_id d) \<in> set (dld_device_delete d)) \<and>
   (\<forall>c \<in> set (dev_contexts d). bms_timeout_id c \<noteq> 0 \<longrightarrow>
      Source_remove (bms_timeout_id c) \<in> set (dld_device_delete d))"
  by (auto simp: device_delete_listeners)
    (auto simp: dld_device_delete_def prv_dld_context_delete_def prv_context_unsubscribe_def
      intro!: bexI split: prod.splits)

theorem delete_releases_witness:
  "Source_remove 5 \<in> set (dld_device_delete ((sample_device [])\<lparr>dev_timeout_id := 5\<rparr>))"
  using delete_releases [of "(sample_device [])\<lparr>dev_timeout_id := 5\<rparr>"] by simp

end
