(* ===== verification/Task.thy ===== *)
theory Task
  imports C_Strings
begin

section \<open>task.c and async.c: one method call, from its arrival to its reply\<close>

text \<open>
  A task stands for a method call of a client: it is built from the call's parameters, holds
  the handle through which the connector expects the reply (\<open>invocation\<close>, cleared once the
  reply is sent), and is completed, failed, cancelled or deleted. The C structure
  \<open>dld_async_task_t\<close> extends \<open>dld_task_t\<close>: here a task has an optional asynchronous part, None for
  the tasks allocated as \<open>dld_task_t\<close>. An operation returns None where the C code has no
  defined behaviour: it reads a union member or an asynchronous part that was not written, or
  it passes GLib a value that does not have the type of the format string.
\<close>

subsection \<open>Data\<close>

datatype dld_task_type =
    DLD_TASK_GET_VERSION
  | DLD_TASK_GET_DEVICES
  | DLD_TASK_RESCAN
  | DLD_TASK_GET_ALL_PROPS
  | DLD_TASK_GET_PROP
  | DLD_TASK_GET_ICON
  | DLD_TASK_MANAGER_GET_ALL_PROPS
  | DLD_TASK_MANAGER_GET_PROP
  | DLD_TASK_MANAGER_SET_PROP
  | DLD_TASK_GET_TEST_INFO
  | DLD_TASK_CANCEL_TEST
  | DLD_TASK_PING
  | DLD_TASK_GET_PING_RESULT
  | DLD_TASK_NSLOOKUP
  | DLD_TASK_GET_NSLOOKUP_RESULT
  | DLD_TASK_TRACEROUTE
  | DLD_TASK_GET_TRACEROUTE_RESULT

text \<open>The union \<open>ut\<close>: which member was written last, and its fields. \<open>Ut_unset\<close> is the zeroed union.\<close>

datatype task_ut =
    Ut_unset
  | Ut_get_props (ut_interface_name: string)
  | Ut_get_prop (ut_interface_name: string) (ut_prop_name: string)
  | Ut_set_prop (ut_interface_name: string) (ut_prop_name: string) (ut_params: gvariant)
  | Ut_get_icon (ut_mime_type: string) (ut_resolution: string)
  | Ut_test (ut_id: guint)
  | Ut_ping string guint guint guint guint
  | Ut_nslookup string string guint guint
  | Ut_traceroute string guint guint guint guint

datatype cancel_handler = Dld_async_task_cancelled | Prv_get_icon_cancelled

text \<open>A GCancellable: whether it was cancelled, and the handler connected to it.\<close>

record g_cancellable =
  gc_cancelled :: bool
  gc_handler :: "cancel_handler option"

record dld_async =
  async_cb :: bool
  async_error :: "gerror option"
  async_action :: "string option"
  async_proxy :: "proxy option"
  async_cancellable :: "g_cancellable option"
  async_device :: "addr option"

record dld_task =
  task_type :: dld_task_type
  task_path :: "string option"
  result_format :: "string option"
  task_result :: "gvariant option"
  invocation :: "msg_id option"
  synchronous :: bool
  multiple_retvals :: bool
  task_ut :: task_ut
  task_async :: "dld_async option"

definition async_zero :: dld_async where
  "async_zero =
     \<lparr>async_cb = False, async_error = None, async_action = None, async_proxy = None,
      async_cancellable = None, async_device = None\<rparr>"

definition task_zero :: "dld_task_type \<Rightarrow> msg_id \<Rightarrow> dld_task" where
  "task_zero type m =
     \<lparr>task_type = type, task_path = None, result_format = None, task_result = None,
      invocation = Some m, synchronous = False, multiple_retvals = False, task_ut = Ut_unset,
      task_async = None\<rparr>"

text \<open>The version of \<open>configure.ac\<close>.\<close>

definition VERSION :: string where
  "VERSION = ''0.0.1''"

subsection \<open>Constructors\<close>

definition dld_task_rescan_new :: "msg_id \<Rightarrow> dld_task" where
  "dld_task_rescan_new m = (task_zero DLD_TASK_RESCAN m)\<lparr>synchronous := True\<rparr>"

definition dld_task_get_version_new :: "msg_id \<Rightarrow> dld_task" where
  "dld_task_get_version_new m =
     (task_zero DLD_TASK_GET_VERSION m)
       \<lparr>result_format := Some ''(@s)'', task_result := Some (GString VERSION), synchronous := True\<rparr>"

definition dld_task_get_devices_new :: "msg_id \<Rightarrow> dld_task" where
  "dld_task_get_devices_new m =
     (task_zero DLD_TASK_GET_DEVICES m)\<lparr>result_format := Some ''(@ao)'', synchronous := True\<rparr>"

definition prv_device_task_new ::
  "glib \<Rightarrow> dld_task_type \<Rightarrow> msg_id \<Rightarrow> string \<Rightarrow> string option \<Rightarrow> dld_task" where
  "prv_device_task_new gl type m path fmt =
     (task_zero type m)
       \<lparr>result_format := fmt, task_path := Some (g_strstrip gl path), task_async := Some async_zero\<rparr>"

definition dld_task_get_prop_new :: "glib \<Rightarrow> msg_id \<Rightarrow> string \<Rightarrow> gvariant \<Rightarrow> dld_task option" where
  "dld_task_get_prop_new gl m path parameters =
     (case parameters of
        GTuple [GString i, GString p] \<Rightarrow>
          Some ((prv_device_task_new gl DLD_TASK_GET_PROP m path (Some ''(v)''))
            \<lparr>task_ut := Ut_get_prop (g_strstrip gl i) (g_strstrip gl p)\<rparr>)
      | _ \<Rightarrow> None)"

definition dld_task_get_props_new :: "glib \<Rightarrow> msg_id \<Rightarrow> string \<Rightarrow> gvariant \<Rightarrow> dld_task option" where
  "dld_task_get_props_new gl m path parameters =
     (case parameters of
        GTuple [GString i] \<Rightarrow>
          Some ((prv_device_task_new gl DLD_TASK_GET_ALL_PROPS m path (Some ''(@a{sv})''))
            \<lparr>task_ut := Ut_get_props (g_strstrip gl i)\<rparr>)
      | _ \<Rightarrow> None)"

definition dld_task_get_icon_new :: "glib \<Rightarrow> msg_id \<Rightarrow> string \<Rightarrow> gvariant \<Rightarrow> dld_task option" where
  "dld_task_get_icon_new gl m path parameters =
     (case parameters of
        GTuple [GString mime, GString res] \<Rightarrow>
          Some ((prv_device_task_new gl DLD_TASK_GET_ICON m path (Some ''(@ays)''))
            \<lparr>multiple_retvals := True, task_ut := Ut_get_icon mime res\<rparr>)
      | _ \<Rightarrow> None)"

definition dld_task_manager_get_prop_new ::
  "glib \<Rightarrow> msg_id \<Rightarrow> string \<Rightarrow> gvariant \<Rightarrow> dld_task option" where
  "dld_task_manager_get_prop_new gl m path parameters =
     (case parameters of
        GTuple [GString i, GString p] \<Rightarrow>
          Some ((prv_device_task_new gl DLD_TASK_MANAGER_GET_PROP m path (Some ''(v)''))
            \<lparr>task_ut := Ut_get_prop (g_strstrip gl i) (g_strstrip gl p)\<rparr>)
      | _ \<Rightarrow> None)"

definition dld_task_manager_get_props_new ::
  "glib \<Rightarrow> msg_id \<Rightarrow> string \<Rightarrow> gvariant \<Rightarrow> dld_task option" where
  "dld_task_manager_get_props_new gl m path parameters =
     (case parameters of
        GTuple [GString i] \<Rightarrow>
          Some ((prv_device_task_new gl DLD_TASK_MANAGER_GET_ALL_PROPS m path (Some ''(@a{sv})''))
            \<lparr>task_ut := Ut_get_props (g_strstrip gl i)\<rparr>)
      | _ \<Rightarrow> None)"

definition dld_task_manager_set_prop_new ::
  "glib \<Rightarrow> msg_id \<Rightarrow> string \<Rightarrow> gvariant \<Rightarrow> dld_task option" where
  "dld_task_manager_set_prop_new gl m path parameters =
     (case parameters of
        GTuple [GString i, GString p, GVariant v] \<Rightarrow>
          Some ((prv_device_task_new gl DLD_TASK_MANAGER_SET_PROP m path None)
            \<lparr>task_ut := Ut_set_prop (g_strstrip gl i) (g_strstrip gl p) v\<rparr>)
      | _ \<Rightarrow> None)"

definition dld_task_get_test_info_new :: "glib \<Rightarrow> msg_id \<Rightarrow> string \<Rightarrow> gvariant \<Rightarrow> dld_task option" where
  "dld_task_get_test_info_new gl m path parameters =
     (case parameters of
        GTuple [GUint n] \<Rightarrow>
          Some ((prv_device_task_new gl DLD_TASK_GET_TEST_INFO m path (Some ''(ss)''))
            \<lparr>multiple_retvals := True, task_ut := Ut_test n\<rparr>)
      | _ \<Rightarrow> None)"

definition dld_task_cancel_test_new :: "glib \<Rightarrow> msg_id \<Rightarrow> string \<Rightarrow> gvariant \<Rightarrow> dld_task option" where
  "dld_task_cancel_test_new gl m path parameters =
     (case parameters of
        GTuple [GUint n] \<Rightarrow>
          Some ((prv_device_task_new gl DLD_TASK_CANCEL_TEST m path None)\<lparr>task_ut := Ut_test n\<rparr>)
      | _ \<Rightarrow> None)"

definition dld_task_ping_new :: "glib \<Rightarrow> msg_id \<Rightarrow> string \<Rightarrow> gvariant \<Rightarrow> dld_task option" where
  "dld_task_ping_new gl m path parameters =
     (case parameters of
        GTuple [GString host, GUint repeat_count, GUint interval, GUint data_block_size, GUint dscp] \<Rightarrow>
          Some ((prv_device_task_new gl DLD_TASK_PING m path (Some ''(@u)''))
            \<lparr>task_ut := Ut_ping host repeat_count interval data_block_size dscp\<rparr>)
      | _ \<Rightarrow> None)"

definition dld_task_get_ping_result_new :: "glib \<Rightarrow> msg_id \<Rightarrow> string \<Rightarrow> gvariant \<Rightarrow> dld_task option" where
  "dld_task_get_ping_result_new gl m path parameters =
     (case parameters of
        GTuple [GUint n] \<Rightarrow>
          Some ((prv_device_task_new gl DLD_TASK_GET_PING_RESULT m path (Some ''(ssuuuuu)''))
            \<lparr>multiple_retvals := True, task_ut := Ut_test n\<rparr>)
      | _ \<Rightarrow> None)"

definition dld_task_nslookup_new :: "glib \<Rightarrow> msg_id \<Rightarrow> string \<Rightarrow> gvariant \<Rightarrow> dld_task option" where
  "dld_task_nslookup_new gl m path parameters =
     (case parameters of
        GTuple [GString hostname, GString dns_server, GUint repeat_count, GUint interval] \<Rightarrow>
          Some ((prv_device_task_new gl DLD_TASK_NSLOOKUP m path (Some ''(@u)''))
            \<lparr>task_ut := Ut_nslookup hostname dns_server repeat_count interval\<rparr>)
      | _ \<Rightarrow> None)"

definition dld_task_get_nslookup_result_new ::
  "glib \<Rightarrow> msg_id \<Rightarrow> string \<Rightarrow> gvariant \<Rightarrow> dld_task option" where
  "dld_task_get_nslookup_result_new gl m path parameters =
     (case parameters of
        GTuple [GUint n] \<Rightarrow>
          Some ((prv_device_task_new gl DLD_TASK_GET_NSLOOKUP_RESULT m path (Some ''(ssua(sssassu))''))
            \<lparr>multiple_retvals := True, task_ut := Ut_test n\<rparr>)
      | _ \<Rightarrow> None)"

definition dld_task_traceroute_new :: "glib \<Rightarrow> msg_id \<Rightarrow> string \<Rightarrow> gvariant \<Rightarrow> dld_task option" where
  "dld_task_traceroute_new gl m path parameters =
     (case parameters of
        GTuple [GString host, GUint timeout, GUint data_block_size, GUint max_hop_count, GUint dscp] \<Rightarrow>
          Some ((prv_device_task_new gl DLD_TASK_TRACEROUTE m path (Some ''(@u)''))
            \<lparr>task_ut := Ut_traceroute host timeout data_block_size max_hop_count dscp\<rparr>)
      | _ \<Rightarrow> None)"

definition dld_task_get_traceroute_result_new ::
  "glib \<Rightarrow> msg_id \<Rightarrow> string \<Rightarrow> gvariant \<Rightarrow> dld_task option" where
  "dld_task_get_traceroute_result_new gl m path parameters =
     (case parameters of
        GTuple [GUint n] \<Rightarrow>
          Some ((prv_device_task_new gl DLD_TASK_GET_TRACEROUTE_RESULT m path (Some ''(ssuas)''))
            \<lparr>multiple_retvals := True, task_ut := Ut_test n\<rparr>)
      | _ \<Rightarrow> None)"

lemmas constructor_defs =
  dld_task_rescan_new_def dld_task_get_version_new_def dld_task_get_devices_new_def
  dld_task_get_prop_new_def dld_task_get_props_new_def dld_task_get_icon_new_def
  dld_task_manager_get_prop_new_def dld_task_manager_get_props_new_def
  dld_task_manager_set_prop_new_def dld_task_get_test_info_new_def dld_task_cancel_test_new_def
  dld_task_ping_new_def dld_task_get_ping_result_new_def dld_task_nslookup_new_def
  dld_task_get_nslookup_result_new_def dld_task_traceroute_new_def
  dld_task_get_traceroute_result_new_def prv_device_task_new_def task_zero_def

subsection \<open>Cancellation\<close>

text \<open>\<open>dld_async_task_cancelled\<close>, the handler connected to a task's cancellable.\<close>

definition dld_async_task_cancelled :: "dld_async \<Rightarrow> dld_async \<times> effect list" where
  "dld_async_task_cancelled a =
     (a\<lparr>async_error :=
          (if async_error a = None
           then Some (GError DLEYNA_ERROR_CANCELLED ''Operation cancelled.'')
           else async_error a)\<rparr>,
      (if async_proxy a \<noteq> None then [Cancel_action (async_proxy a)] else []) @ [Idle_add])"

text \<open>
  \<open>prv_get_icon_cancelled\<close> of \<open>device.c\<close>; it is only connected with a download whose message
  is not NULL.
\<close>

definition prv_get_icon_cancelled :: "dld_async \<Rightarrow> dld_async \<times> effect list" where
  "prv_get_icon_cancelled a =
     (let (a1, eff) = dld_async_task_cancelled a in (a1, eff @ [Cancel_message]))"

fun run_cancel_handler :: "cancel_handler \<Rightarrow> dld_async \<Rightarrow> dld_async \<times> effect list" where
  "run_cancel_handler Dld_async_task_cancelled a = dld_async_task_cancelled a"
| "run_cancel_handler Prv_get_icon_cancelled a = prv_get_icon_cancelled a"

text \<open>
  GLib: cancelling a second time does nothing; the first time runs the connected handler.
  Connecting to a cancellable that is already cancelled runs the handler at once.
\<close>

definition g_cancellable_cancel :: "g_cancellable \<Rightarrow> dld_async \<Rightarrow> dld_async \<times> effect list" where
  "g_cancellable_cancel c a =
     (if gc_cancelled c then (a, [])
      else let a1 = a\<lparr>async_cancellable := Some (c\<lparr>gc_cancelled := True\<rparr>)\<rparr>
           in case gc_handler c of
                None \<Rightarrow> (a1, [Cancellable_cancel])
              | Some h \<Rightarrow> let (a2, eff) = run_cancel_handler h a1 in (a2, Cancellable_cancel # eff))"

definition g_cancellable_connect :: "cancel_handler \<Rightarrow> dld_async \<Rightarrow> dld_async \<times> effect list" where
  "g_cancellable_connect h a =
     (case async_cancellable a of
        None \<Rightarrow> (a, [])
      | Some c \<Rightarrow>
          if gc_cancelled c then run_cancel_handler h a
          else (a\<lparr>async_cancellable := Some (c\<lparr>gc_handler := Some h\<rparr>)\<rparr>, [Cancellable_connect]))"

definition g_cancellable_disconnect :: "dld_async \<Rightarrow> dld_async" where
  "g_cancellable_disconnect a =
     (case async_cancellable a of
        None \<Rightarrow> a
      | Some c \<Rightarrow> a\<lparr>async_cancellable := Some (c\<lparr>gc_handler := None\<rparr>)\<rparr>)"

definition dld_async_task_cancel :: "dld_async \<Rightarrow> dld_async \<times> effect list" where
  "dld_async_task_cancel a =
     (case async_cancellable a of None \<Rightarrow> (a, []) | Some c \<Rightarrow> g_cancellable_cancel c a)"

subsection \<open>Replies\<close>

text \<open>
  \<open>g_variant_new (fmt, v)\<close> with one value, for the formats the library uses: \<open>(v)\<close> boxes the
  value, \<open>(@T)\<close> takes a value of type T.
\<close>

definition g_variant_new_fmt :: "string \<Rightarrow> gvariant \<Rightarrow> gvariant option" where
  "g_variant_new_fmt fmt v =
     (if fmt = ''(v)'' then Some (GTuple [GVariant v])
      else if fmt = ''(@'' @ gv_type v @ '')'' then Some (GTuple [v])
      else None)"

definition dld_task_complete :: "dld_task \<Rightarrow> (dld_task \<times> effect list) option" where
  "dld_task_complete task =
     (case invocation task of
        None \<Rightarrow> Some (task, [])
      | Some m \<Rightarrow>
          (case (result_format task, task_result task) of
             (Some fmt, Some r) \<Rightarrow>
               if multiple_retvals task
               then Some (task\<lparr>invocation := None\<rparr>, [Return_response m (Some r)])
               else map_option (\<lambda>v. (task\<lparr>invocation := None\<rparr>, [Return_response m (Some v)]))
                      (g_variant_new_fmt fmt r)
           | _ \<Rightarrow> Some (task\<lparr>invocation := None\<rparr>, [Return_response m None])))"

definition dld_task_fail :: "gerror \<Rightarrow> dld_task \<Rightarrow> dld_task \<times> effect list" where
  "dld_task_fail error task =
     (case invocation task of
        None \<Rightarrow> (task, [])
      | Some m \<Rightarrow> (task\<lparr>invocation := None\<rparr>, [Return_error m error]))"

definition dld_task_cancel :: "dld_task \<Rightarrow> (dld_task \<times> effect list) option" where
  "dld_task_cancel task =
     (let (task1, eff1) =
            dld_task_fail (GError DLEYNA_ERROR_CANCELLED ''Operation cancelled.'') task
      in if synchronous task1 then Some (task1, eff1)
         else (case task_async task1 of
                 None \<Rightarrow> None
               | Some a \<Rightarrow>
                   let (a1, eff2) = dld_async_task_cancel a
                   in Some (task1\<lparr>task_async := Some a1\<rparr>, eff1 @ eff2)))"

text \<open>
  The strings that \<open>prv_dld_task_delete\<close> frees for the type of the task: None if it reads a
  member of the union that the constructor did not write.
\<close>

definition freed_strings :: "dld_task_type \<Rightarrow> task_ut \<Rightarrow> string list option" where
  "freed_strings type ut =
     (case type of
        DLD_TASK_GET_ALL_PROPS \<Rightarrow> (case ut of Ut_get_props i \<Rightarrow> Some [i] | _ \<Rightarrow> None)
      | DLD_TASK_MANAGER_GET_ALL_PROPS \<Rightarrow> (case ut of Ut_get_props i \<Rightarrow> Some [i] | _ \<Rightarrow> None)
      | DLD_TASK_GET_PROP \<Rightarrow> (case ut of Ut_get_prop i p \<Rightarrow> Some [i, p] | _ \<Rightarrow> None)
      | DLD_TASK_MANAGER_GET_PROP \<Rightarrow> (case ut of Ut_get_prop i p \<Rightarrow> Some [i, p] | _ \<Rightarrow> None)
      | DLD_TASK_MANAGER_SET_PROP \<Rightarrow> (case ut of Ut_set_prop i p v \<Rightarrow> Some [i, p] | _ \<Rightarrow> None)
      | DLD_TASK_GET_ICON \<Rightarrow> (case ut of Ut_get_icon m r \<Rightarrow> Some [m, r] | _ \<Rightarrow> None)
      | DLD_TASK_PING \<Rightarrow> (case ut of Ut_ping h _ _ _ _ \<Rightarrow> Some [h] | _ \<Rightarrow> None)
      | DLD_TASK_NSLOOKUP \<Rightarrow> (case ut of Ut_nslookup h s _ _ \<Rightarrow> Some [h, s] | _ \<Rightarrow> None)
      | DLD_TASK_TRACEROUTE \<Rightarrow> (case ut of Ut_traceroute h _ _ _ _ \<Rightarrow> Some [h] | _ \<Rightarrow> None)
      | _ \<Rightarrow> Some [])"

definition dld_async_task_delete :: "dld_async \<Rightarrow> effect list" where
  "dld_async_task_delete a =
     (if async_cancellable a \<noteq> None then [Other_call ''g_object_unref (cancellable)''] else [])"

definition prv_dld_task_delete :: "dld_task \<Rightarrow> (string list \<times> effect list) option" where
  "prv_dld_task_delete task =
     (case (if synchronous task then Some []
            else map_option dld_async_task_delete (task_async task)) of
        None \<Rightarrow> None
      | Some eff \<Rightarrow>
          map_option (\<lambda>strs. (strs @ (case task_path task of None \<Rightarrow> [] | Some p \<Rightarrow> [p]), eff))
            (freed_strings (task_type task) (task_ut task)))"

definition dld_task_delete :: "dld_task \<Rightarrow> (string list \<times> effect list) option" where
  "dld_task_delete task =
     (let eff = (case invocation task of
                   None \<Rightarrow> []
                 | Some m \<Rightarrow> [Return_error m (GError DLEYNA_ERROR_DIED ''Unable to complete command.'')])
      in map_option (\<lambda>(strs, eff2). (strs, eff @ eff2)) (prv_dld_task_delete task))"

text \<open>
  \<open>prv_async_task_complete\<close> of \<open>server.c\<close>, the callback of every asynchronous task, and
  \<open>dld_async_task_complete\<close>, the idle handler that calls it.
\<close>

definition prv_async_task_complete :: "gerror option \<Rightarrow> dld_task \<Rightarrow> (dld_task \<times> effect list) option" where
  "prv_async_task_complete error task =
     map_option (\<lambda>(task1, eff). (task1, eff @ [Task_completed]))
       (case error of
          Some e \<Rightarrow> Some (dld_task_fail e task)
        | None \<Rightarrow> dld_task_complete task)"

definition dld_async_task_complete :: "dld_task \<Rightarrow> (dld_task \<times> effect list) option" where
  "dld_async_task_complete task =
     (case task_async task of
        None \<Rightarrow> None
      | Some a \<Rightarrow> if async_cb a then prv_async_task_complete (async_error a) task else None)"

subsection \<open>One reply per method call\<close>

definition reply_of :: "effect \<Rightarrow> msg_id list" where
  "reply_of e = (case e of Return_response m _ \<Rightarrow> [m] | Return_error m _ \<Rightarrow> [m] | _ \<Rightarrow> [])"

definition replies :: "effect list \<Rightarrow> msg_id list" where
  "replies eff = concat (map reply_of eff)"

lemma replies_simps [simp]:
  "replies [] = []"
  "replies (e # eff) = reply_of e @ replies eff"
  "replies (eff1 @ eff2) = replies eff1 @ replies eff2"
  by (simp_all add: replies_def)

lemma reply_of_simps [simp]:
  "reply_of (Return_response m r) = [m]"
  "reply_of (Return_error m e) = [m]"
  "reply_of Task_completed = []"
  "reply_of Idle_add = []"
  "reply_of (Cancel_action p) = []"
  "reply_of Cancel_message = []"
  "reply_of Cancellable_cancel = []"
  "reply_of Cancellable_connect = []"
  "reply_of Cancellable_disconnect = []"
  "reply_of (Begin_action p s xs) = []"
  "reply_of (Queue_message s) = []"
  "reply_of (Other_call s) = []"
  by (simp_all add: reply_of_def)

text \<open>The D-Bus type of the reply a format string announces.\<close>

definition reply_type :: "string \<Rightarrow> string" where
  "reply_type fmt = (if take 2 fmt = ''(@'' then ''('' @ drop 2 fmt else fmt)"

text \<open>The result of a task, once there is one, has the type of its format string.\<close>

definition result_fits :: "dld_task \<Rightarrow> bool" where
  "result_fits task =
     (case (result_format task, task_result task) of
        (Some fmt, Some r) \<Rightarrow>
          if multiple_retvals task then take 2 fmt \<noteq> ''(@'' \<and> gv_type r = fmt
          else fmt = ''(v)'' \<or> fmt = ''(@'' @ gv_type r @ '')''
      | _ \<Rightarrow> True)"

text \<open>Well-formed tasks: the parts that are allocated are those that the type's operations use.\<close>

definition task_wf :: "dld_task \<Rightarrow> bool" where
  "task_wf task \<longleftrightarrow>
     result_fits task \<and> (synchronous task \<longleftrightarrow> task_async task = None) \<and>
     freed_strings (task_type task) (task_ut task) \<noteq> None"

lemma complete_reply_type:
  assumes "dld_task_complete task = Some (task', eff)" and "result_fits task"
    and "invocation task = Some m" and "result_format task = Some fmt" and "task_result task = Some r"
  shows "\<exists>v. eff = [Return_response m (Some v)] \<and> gv_type v = reply_type fmt"
proof (cases "multiple_retvals task")
  case True
  then have "eff = [Return_response m (Some r)]" "gv_type r = reply_type fmt"
    using assms by (auto simp: dld_task_complete_def result_fits_def reply_type_def)
  then show ?thesis by blast
next
  case False
  then have fmt: "fmt = ''(v)'' \<or> fmt = ''(@'' @ gv_type r @ '')''"
    using assms by (simp add: result_fits_def)
  show ?thesis
  proof (cases "fmt = ''(v)''")
    case True
    then have "eff = [Return_response m (Some (GTuple [GVariant r]))]"
      using False assms by (simp add: dld_task_complete_def g_variant_new_fmt_def)
    then show ?thesis using True by (simp add: reply_type_def)
  next
    case ne: False
    then have "eff = [Return_response m (Some (GTuple [r]))]"
      using fmt False assms by (simp add: dld_task_complete_def g_variant_new_fmt_def)
    then show ?thesis using fmt ne by (simp add: reply_type_def)
  qed
qed

lemma complete_defined:
  assumes "result_fits task"
  shows "dld_task_complete task \<noteq> None"
proof (cases "invocation task")
  case None
  then show ?thesis by (simp add: dld_task_complete_def)
next
  case (Some m)
  then show ?thesis
    using assms
    by (auto simp: dld_task_complete_def result_fits_def g_variant_new_fmt_def
        split: option.splits if_splits)
qed

lemma complete_sends_values:
  assumes "result_fits task" and "invocation task = Some m"
    and "result_format task = Some fmt" and "task_result task = Some r"
  shows "\<exists>task' v. dld_task_complete task = Some (task', [Return_response m (Some v)]) \<and>
           gv_type v = reply_type fmt"
proof -
  obtain task' eff where "dld_task_complete task = Some (task', eff)"
    using complete_defined [OF assms(1)] by auto
  from this complete_reply_type [OF this assms] show ?thesis by auto
qed

text \<open>
  The contract of the operations that may answer a call: a pending call gets exactly one reply
  and is no longer pending, an answered one gets none, and the task stays well formed.
\<close>

locale reply_op =
  fixes act :: "dld_task \<Rightarrow> (dld_task \<times> effect list) option"
  assumes act_replies:
      "act t = Some (t', eff) \<Longrightarrow>
         replies eff = (case invocation t of None \<Rightarrow> [] | Some m \<Rightarrow> [m]) \<and> invocation t' = None"
    and act_wf: "act t = Some (t', eff) \<Longrightarrow> task_wf t \<Longrightarrow> task_wf t'"
begin

lemma act_pending: "act t = Some (t', eff) \<Longrightarrow> invocation t = Some m \<Longrightarrow> replies eff = [m]"
  using act_replies by fastforce

lemma act_answered: "act t = Some (t', eff) \<Longrightarrow> invocation t = None \<Longrightarrow> replies eff = []"
  using act_replies by fastforce

end

lemma complete_frame:
  "dld_task_complete t = Some (t', eff) \<Longrightarrow> t' = t\<lparr>invocation := None\<rparr>"
  by (cases t) (auto simp: dld_task_complete_def split: option.splits if_splits)

lemma fail_frame: "fst (dld_task_fail e t) = t\<lparr>invocation := None\<rparr>"
  by (cases t) (auto simp: dld_task_fail_def split: option.splits)

lemma fail_replies: "replies (snd (dld_task_fail e t)) = (case invocation t of None \<Rightarrow> [] | Some m \<Rightarrow> [m])"
  by (auto simp: dld_task_fail_def split: option.splits)

lemma complete_replies:
  "dld_task_complete t = Some (t', eff) \<Longrightarrow> replies eff = (case invocation t of None \<Rightarrow> [] | Some m \<Rightarrow> [m])"
  by (auto simp: dld_task_complete_def split: option.splits if_splits)

lemma task_wf_answered [simp]: "task_wf (t\<lparr>invocation := None\<rparr>) = task_wf t"
  by (simp add: task_wf_def result_fits_def split: option.split)

lemma task_wf_async [simp]:
  "task_async t \<noteq> None \<Longrightarrow> task_wf (t\<lparr>task_async := Some a\<rparr>) = task_wf t"
  by (auto simp: task_wf_def result_fits_def split: option.split)

lemma cancel_handler_replies: "replies (snd (run_cancel_handler h a)) = []"
  by (cases h) (auto simp: dld_async_task_cancelled_def prv_get_icon_cancelled_def split: prod.splits)

lemma async_cancel_replies: "replies (snd (dld_async_task_cancel a)) = []"
proof (cases "async_cancellable a")
  case (Some c)
  then show ?thesis
  proof (cases "gc_handler c")
    case (Some h)
    then show ?thesis
      using cancel_handler_replies [of h "a\<lparr>async_cancellable := Some (c\<lparr>gc_cancelled := True\<rparr>)\<rparr>"]
        \<open>async_cancellable a = Some c\<close>
      by (cases "run_cancel_handler h (a\<lparr>async_cancellable := Some (c\<lparr>gc_cancelled := True\<rparr>)\<rparr>)")
        (simp add: dld_async_task_cancel_def g_cancellable_cancel_def)
  qed (simp add: dld_async_task_cancel_def g_cancellable_cancel_def)
qed (simp add: dld_async_task_cancel_def)

interpretation completing: reply_op dld_task_complete
proof
  fix t t' eff assume c: "dld_task_complete t = Some (t', eff)"
  note t' = complete_frame [OF c]
  show "replies eff = (case invocation t of None \<Rightarrow> [] | Some m \<Rightarrow> [m]) \<and> invocation t' = None"
    "task_wf t \<Longrightarrow> task_wf t'"
    by (simp_all add: t' complete_replies [OF c])
qed

interpretation failing: reply_op "\<lambda>t. Some (dld_task_fail e t)" for e
proof
  fix t t' eff assume f: "Some (dld_task_fail e t) = Some (t', eff)"
  then have "t' = t\<lparr>invocation := None\<rparr>" "eff = snd (dld_task_fail e t)"
    using fail_frame [of e t] by simp_all
  then show "replies eff = (case invocation t of None \<Rightarrow> [] | Some m \<Rightarrow> [m]) \<and> invocation t' = None"
    "task_wf t \<Longrightarrow> task_wf t'"
    by (simp_all add: fail_replies)
qed

lemma cancel_eq:
  "dld_task_cancel t =
     (let eff = snd (dld_task_fail (GError DLEYNA_ERROR_CANCELLED ''Operation cancelled.'') t);
          t1 = t\<lparr>invocation := None\<rparr>
      in if synchronous t then Some (t1, eff)
         else (case task_async t of
                 None \<Rightarrow> None
               | Some a \<Rightarrow> Some (t1\<lparr>task_async := Some (fst (dld_async_task_cancel a))\<rparr>,
                               eff @ snd (dld_async_task_cancel a))))"
  using fail_frame [of "GError DLEYNA_ERROR_CANCELLED ''Operation cancelled.''" t]
  by (auto simp: dld_task_cancel_def Let_def split: prod.splits option.splits)

interpretation cancelling: reply_op dld_task_cancel
proof
  fix t t' eff assume c: "dld_task_cancel t = Some (t', eff)"
  then show "replies eff = (case invocation t of None \<Rightarrow> [] | Some m \<Rightarrow> [m]) \<and> invocation t' = None"
    by (auto simp: cancel_eq Let_def fail_replies async_cancel_replies split: if_splits option.splits)
  show "task_wf t'" if "task_wf t"
    using c that by (auto simp: cancel_eq Let_def split: if_splits option.splits)
qed

lemma async_complete_eq:
  "prv_async_task_complete error t = Some (t', eff) \<Longrightarrow>
     \<exists>eff1. eff = eff1 @ [Task_completed] \<and>
       (case error of Some e \<Rightarrow> dld_task_fail e t = (t', eff1) | None \<Rightarrow> dld_task_complete t = Some (t', eff1))"
  by (auto simp: prv_async_task_complete_def split: option.splits)

interpretation async_completing: reply_op dld_async_task_complete
proof
  fix t t' eff assume a: "dld_async_task_complete t = Some (t', eff)"
  then obtain as where as: "task_async t = Some as"
    "prv_async_task_complete (async_error as) t = Some (t', eff)"
    by (auto simp: dld_async_task_complete_def split: option.splits if_splits)
  from async_complete_eq [OF as(2)] obtain eff1 where eff: "eff = eff1 @ [Task_completed]"
    and step: "case async_error as of Some e \<Rightarrow> dld_task_fail e t = (t', eff1)
               | None \<Rightarrow> dld_task_complete t = Some (t', eff1)"
    by blast
  then show "replies eff = (case invocation t of None \<Rightarrow> [] | Some m \<Rightarrow> [m]) \<and> invocation t' = None"
    using completing.act_replies [of t t' eff1] failing.act_replies [of _ t t' eff1]
    by (cases "async_error as") auto
  show "task_wf t'" if "task_wf t"
    using step that completing.act_wf [of t t' eff1] failing.act_wf [of _ t t' eff1]
    by (cases "async_error as") auto
qed

datatype task_op = Op_complete | Op_fail gerror | Op_cancel | Op_async_complete

fun task_step :: "task_op \<Rightarrow> dld_task \<Rightarrow> (dld_task \<times> effect list) option" where
  "task_step Op_complete t = dld_task_complete t"
| "task_step (Op_fail e) t = Some (dld_task_fail e t)"
| "task_step Op_cancel t = dld_task_cancel t"
| "task_step Op_async_complete t = dld_async_task_complete t"

fun run_task :: "task_op list \<Rightarrow> dld_task \<Rightarrow> (dld_task \<times> effect list) option" where
  "run_task [] t = Some (t, [])"
| "run_task (op # ops) t =
     (case task_step op t of
        None \<Rightarrow> None
      | Some (t1, eff1) \<Rightarrow> map_option (\<lambda>(t2, eff2). (t2, eff1 @ eff2)) (run_task ops t1))"

lemma task_step_eq:
  "task_step Op_complete = dld_task_complete"
  "task_step (Op_fail e) = (\<lambda>t. Some (dld_task_fail e t))"
  "task_step Op_cancel = dld_task_cancel"
  "task_step Op_async_complete = dld_async_task_complete"
  by (simp_all add: fun_eq_iff)

interpretation stepping: reply_op "task_step op" for op
  using completing.reply_op_axioms failing.reply_op_axioms cancelling.reply_op_axioms
    async_completing.reply_op_axioms
  by (cases op) (simp_all only: task_step_eq)

lemma run_task_replies:
  assumes "run_task ops t = Some (t', eff)"
  shows "replies eff = (if ops = [] then [] else case invocation t of None \<Rightarrow> [] | Some m \<Rightarrow> [m])"
    and "invocation t' = (if ops = [] then invocation t else None)"
    and "task_wf t \<Longrightarrow> task_wf t'"
proof -
  have "replies eff = (if ops = [] then [] else case invocation t of None \<Rightarrow> [] | Some m \<Rightarrow> [m]) \<and>
        invocation t' = (if ops = [] then invocation t else None) \<and> (task_wf t \<longrightarrow> task_wf t')"
    using assms
  proof (induction ops arbitrary: t eff)
    case (Cons op ops)
    then obtain t1 eff1 eff2 where s: "task_step op t = Some (t1, eff1)"
      "run_task ops t1 = Some (t', eff2)" "eff = eff1 @ eff2"
      by (auto split: option.splits prod.splits)
    from Cons.IH [OF s(2)] stepping.act_replies [OF s(1)] stepping.act_wf [OF s(1)] s(3)
    show ?case by auto
  qed simp
  then show "replies eff = (if ops = [] then [] else case invocation t of None \<Rightarrow> [] | Some m \<Rightarrow> [m])"
    "invocation t' = (if ops = [] then invocation t else None)" "task_wf t \<Longrightarrow> task_wf t'"
    by blast+
qed

lemma delete_replies:
  assumes "dld_task_delete t = Some (strs, eff)"
  shows "replies eff = (case invocation t of None \<Rightarrow> [] | Some m \<Rightarrow> [m])"
proof -
  have "replies (dld_async_task_delete a) = []" for a
    by (simp add: dld_async_task_delete_def)
  then show ?thesis
    using assms
    by (auto simp: dld_task_delete_def prv_dld_task_delete_def split: option.splits if_splits)
qed

lemma delete_defined: "task_wf t \<Longrightarrow> dld_task_delete t \<noteq> None"
  by (cases "synchronous t") (auto simp: dld_task_delete_def prv_dld_task_delete_def task_wf_def)

subsection \<open>Properties\<close>

text \<open>Whatever happens to a pending method call before its task is deleted - completions,
  failures and cancellations in any number and order - the caller gets exactly one reply, from
  the first of these or, when there was none, from the deletion; and the deletion of a
  well-formed task is defined.\<close>

theorem one_reply:
  assumes "task_wf t" and "invocation t = Some m" and "run_task ops t = Some (t', eff)"
  shows "\<exists>strs eff2. dld_task_delete t' = Some (strs, eff2) \<and> replies (eff @ eff2) = [m] \<and>
           replies eff = (if ops = [] then [] else [m])"
proof -
  note run = run_task_replies [OF assms(3)]
  obtain strs eff2 where d: "dld_task_delete t' = Some (strs, eff2)"
    using delete_defined [OF run(3) [OF assms(1)]] by auto
  with delete_replies [OF d] run(1,2) assms(2) show ?thesis by auto
qed

definition sample_task :: dld_task where
  "sample_task = dld_task_get_version_new 5"

theorem one_reply_witness:
  "\<exists>t' eff strs eff2. run_task [Op_complete, Op_cancel] sample_task = Some (t', eff) \<and>
     dld_task_delete t' = Some (strs, eff2) \<and> replies (eff @ eff2) = [5]"
proof -
  have wf: "task_wf sample_task" and inv: "invocation sample_task = Some 5"
    by (simp_all add: sample_task_def constructor_defs task_wf_def result_fits_def freed_strings_def)
  obtain t' eff where r: "run_task [Op_complete, Op_cancel] sample_task = Some (t', eff)"
    by (simp add: sample_task_def constructor_defs dld_task_complete_def g_variant_new_fmt_def
        cancel_eq)
  with one_reply [OF wf inv r] show ?thesis by blast
qed

text \<open>Completing a pending task that has a result sends one response, whose D-Bus type is the one
  its format string announces; for \<open>(v)\<close> the value is boxed, for \<open>(@T)\<close> it is the only member
  of a tuple, and for the formats with several values it is the result itself.\<close>

theorem complete_sends_format:
  assumes "result_fits t" and "invocation t = Some m"
    and "result_format t = Some fmt" and "task_result t = Some r"
  shows "\<exists>t' v. dld_task_complete t = Some (t', [Return_response m (Some v)]) \<and>
           invocation t' = None \<and> gv_type v = reply_type fmt \<and>
           v = (if multiple_retvals t then r
                else if fmt = ''(v)'' then GTuple [GVariant r] else GTuple [r])"
proof -
  obtain t' eff where c: "dld_task_complete t = Some (t', eff)"
    using complete_defined [OF assms(1)] by auto
  from complete_reply_type [OF c assms(1,2,3,4)] obtain v where
    v: "eff = [Return_response m (Some v)]" "gv_type v = reply_type fmt" by blast
  moreover have "v = (if multiple_retvals t then r
      else if fmt = ''(v)'' then GTuple [GVariant r] else GTuple [r])"
    using c v(1) assms by (auto simp: dld_task_complete_def g_variant_new_fmt_def split: if_splits)
  ultimately show ?thesis
    using c complete_frame [OF c] by auto
qed

theorem complete_sends_format_witness:
  "\<exists>t'. dld_task_complete sample_task = Some (t', [Return_response 5 (Some (GTuple [GString VERSION]))])"
proof -
  have "result_fits sample_task" "invocation sample_task = Some 5"
    "result_format sample_task = Some ''(@s)''" "task_result sample_task = Some (GString VERSION)"
    "\<not> multiple_retvals sample_task"
    by (simp_all add: sample_task_def constructor_defs result_fits_def)
  with complete_sends_format [of sample_task 5 "''(@s)''" "GString VERSION"] show ?thesis
    by auto
qed

text \<open>Cancelling an asynchronous task answers a call that is still pending with the error
  CANCELLED, keeps the first error the task recorded, stops the action or download it waits
  for and schedules its completion once; a second cancellation does nothing.\<close>

theorem cancel_pending:
  assumes "task_async t = Some a" and "\<not> synchronous t" and "invocation t = Some m"
    and "async_cancellable a = Some \<lparr>gc_cancelled = False, gc_handler = Some h\<rparr>"
    and "dld_task_cancel t = Some (t', eff)"
  shows "eff = [Return_error m (GError DLEYNA_ERROR_CANCELLED ''Operation cancelled.''), Cancellable_cancel] @
           (if async_proxy a = None then [] else [Cancel_action (async_proxy a)]) @ [Idle_add] @
           (if h = Prv_get_icon_cancelled then [Cancel_message] else []) \<and>
         dld_task_cancel t' = Some (t', []) \<and>
         (\<exists>a'. task_async t' = Some a' \<and>
            async_error a' = (case async_error a of
                None \<Rightarrow> Some (GError DLEYNA_ERROR_CANCELLED ''Operation cancelled.'')
              | Some e \<Rightarrow> Some e))"
proof -
  let ?c = "\<lparr>gc_cancelled = True, gc_handler = Some h\<rparr>"
  let ?err = "GError DLEYNA_ERROR_CANCELLED ''Operation cancelled.''"
  define a1 where "a1 = fst (run_cancel_handler h (a\<lparr>async_cancellable := Some ?c\<rparr>))"
  have a1: "async_cancellable a1 = Some ?c"
    "async_error a1 = (case async_error a of None \<Rightarrow> Some ?err | Some e \<Rightarrow> Some e)"
    by (cases h; simp add: a1_def dld_async_task_cancelled_def prv_get_icon_cancelled_def
        split: option.split)+
  have cancel: "dld_async_task_cancel a =
      (a1, Cancellable_cancel # (if async_proxy a = None then [] else [Cancel_action (async_proxy a)]) @
           [Idle_add] @ (if h = Prv_get_icon_cancelled then [Cancel_message] else []))"
    by (cases h)
      (simp_all add: a1_def dld_async_task_cancel_def g_cancellable_cancel_def assms(4)
        dld_async_task_cancelled_def prv_get_icon_cancelled_def Let_def)
  have t': "t' = t\<lparr>invocation := None, task_async := Some a1\<rparr>"
    and eff: "eff = Return_error m ?err # snd (dld_async_task_cancel a)"
    using assms(5) by (simp_all add: cancel_eq assms(1,2,3) dld_task_fail_def cancel)
  have "dld_task_cancel t' = Some (t', [])"
    using assms(2) a1(1)
    by (simp add: t' cancel_eq dld_task_fail_def dld_async_task_cancel_def g_cancellable_cancel_def)
  with a1 show ?thesis by (simp add: t' eff cancel)
qed

theorem cancel_pending_witness:
  "\<exists>t t' eff. dld_task_cancel t = Some (t', eff) \<and> replies eff = [6] \<and> Cancel_message \<in> set eff"
proof -
  let ?a = "async_zero\<lparr>async_cancellable :=
      Some \<lparr>gc_cancelled = False, gc_handler = Some Prv_get_icon_cancelled\<rparr>\<rparr>"
  let ?t = "(task_zero DLD_TASK_GET_ICON 6)\<lparr>task_async := Some ?a\<rparr>"
  obtain t' eff where c: "dld_task_cancel ?t = Some (t', eff)"
    by (simp add: cancel_eq task_zero_def)
  have "task_async ?t = Some ?a" "\<not> synchronous ?t" "invocation ?t = Some 6"
    by (simp_all add: task_zero_def)
  from cancel_pending [OF this _ c] have "replies eff = [6]" "Cancel_message \<in> set eff"
    by (simp_all add: async_zero_def)
  with c show ?thesis by blast
qed

end
