(* ===== verification/Xml_Util.thy ===== *)
theory Xml_Util
  imports C_Strings
begin

section \<open>xml-util.c: walking a parsed document\<close>

text \<open>
  A node of a parsed document, with the fields of \<open>xmlNode\<close> the library reads (the name, which
  may be NULL, and the children). A node pointer is the node together with its ancestors,
  nearest first, so that \<open>node->parent\<close> can be followed. \<open>xmlNodeGetContent\<close> belongs to
  libxml2: it is the parameter \<open>content\<close>.
\<close>

datatype xml = Xml (xml_name: "string option") (xml_text: string) (xml_children: "xml list")

type_synonym xnode = "xml \<times> xml list"

definition child_nodes :: "xnode \<Rightarrow> xnode list" where
  "child_nodes n = map (\<lambda>c. (c, fst n # snd n)) (xml_children (fst n))"

definition named :: "string \<Rightarrow> xnode \<Rightarrow> bool" where
  "named name n \<longleftrightarrow> xml_name (fst n) = Some name"

text \<open>The inner loop over \<open>node->next\<close>.\<close>

fun first_named :: "string \<Rightarrow> xnode list \<Rightarrow> xnode option" where
  "first_named name [] = None"
| "first_named name (n # ns) = (if named name n then Some n else first_named name ns)"

text \<open>The outer loop over the variadic arguments.\<close>

fun prv_get_child_node :: "xnode \<Rightarrow> string list \<Rightarrow> xnode option" where
  "prv_get_child_node n [] = Some n"
| "prv_get_child_node n (name # names) =
     (case first_named name (child_nodes n) of
        None \<Rightarrow> None
      | Some c \<Rightarrow> prv_get_child_node c names)"

text \<open>The list is built with \<open>g_list_prepend\<close>.\<close>

fun children_list_loop :: "string \<Rightarrow> xnode list \<Rightarrow> xnode list \<Rightarrow> xnode list" where
  "children_list_loop name child_list [] = child_list"
| "children_list_loop name child_list (n # ns) =
     children_list_loop name (if named name n then n # child_list else child_list) ns"

definition prv_get_children_list :: "xnode \<Rightarrow> string \<Rightarrow> xnode list" where
  "prv_get_children_list n name = children_list_loop name [] (child_nodes n)"

fun str_list_loop :: "(xml \<Rightarrow> string option) \<Rightarrow> string list \<Rightarrow> xnode list \<Rightarrow> string list" where
  "str_list_loop content str_list [] = str_list"
| "str_list_loop content str_list (n # ns) =
     str_list_loop content
       (case content (fst n) of None \<Rightarrow> str_list | Some s \<Rightarrow> s # str_list) ns"

text \<open>
  None is the undefined case of a node without a parent or a name (no variadic argument, at
  the top of the tree).
\<close>

definition xml_util_get_child_string_list_content_by_name ::
  "(xml \<Rightarrow> string option) \<Rightarrow> xnode \<Rightarrow> string list \<Rightarrow> string list option" where
  "xml_util_get_child_string_list_content_by_name content n names =
     (case prv_get_child_node n names of
        None \<Rightarrow> Some []
      | Some (c, p # ps) \<Rightarrow>
          map_option (\<lambda>name. str_list_loop content [] (prv_get_children_list (p, ps) name))
            (xml_name c)
      | Some (c, []) \<Rightarrow> None)"

definition xml_util_get_child_string_content_by_name ::
  "(xml \<Rightarrow> string option) \<Rightarrow> xnode \<Rightarrow> string list \<Rightarrow> string option" where
  "xml_util_get_child_string_content_by_name content n names =
     (case prv_get_child_node n names of
        None \<Rightarrow> None
      | Some c \<Rightarrow> content (fst c))"

subsection \<open>What the walks compute\<close>

lemma first_named_find: "first_named name ns = List.find (named name) ns"
  by (induction ns) auto

lemma children_list_loop_rev:
  "children_list_loop name acc ns = rev (filter (named name) ns) @ acc"
  by (induction ns arbitrary: acc) auto

lemma str_list_loop_rev:
  "str_list_loop content acc ns = rev (List.map_filter (\<lambda>n. content (fst n)) ns) @ acc"
  by (induction ns arbitrary: acc) (auto simp: List.map_filter_simps split: option.splits)

lemma map_filter_rev: "List.map_filter f (rev xs) = rev (List.map_filter f xs)"
  by (induction xs)
    (auto simp: List.map_filter_simps List.map_filter_def split: option.splits)

lemma prv_get_child_node_append:
  "prv_get_child_node n (xs @ ys) =
     (case prv_get_child_node n xs of None \<Rightarrow> None | Some c \<Rightarrow> prv_get_child_node c ys)"
  by (induction n xs rule: prv_get_child_node.induct) (auto split: option.splits)

lemma first_named_SomeD:
  "first_named name (child_nodes n) = Some c \<Longrightarrow>
     xml_name (fst c) = Some name \<and> fst c \<in> set (xml_children (fst n)) \<and> snd c = fst n # snd n"
  by (auto simp: first_named_find find_Some_iff child_nodes_def named_def)

lemma child_node_parent:
  assumes "prv_get_child_node n (names @ [name]) = Some c"
  obtains p where "prv_get_child_node n names = Some p"
    and "first_named name (child_nodes p) = Some c"
    and "xml_name (fst c) = Some name" and "snd c = fst p # snd p"
proof -
  from assms obtain p where p: "prv_get_child_node n names = Some p"
    and c: "first_named name (child_nodes p) = Some c"
    by (auto simp: prv_get_child_node_append split: option.splits)
  from that [OF p c] first_named_SomeD [OF c] show thesis by blast
qed

text \<open>
  The two prepending loops cancel out: the strings come in document order, one for each
  sibling of the node found that has its name and a content.
\<close>

lemma string_list_document_order:
  assumes found: "prv_get_child_node n (names @ [name]) = Some c"
    and parent: "prv_get_child_node n names = Some p"
  shows "xml_util_get_child_string_list_content_by_name content n (names @ [name]) =
           Some (List.map_filter content
                  (filter (\<lambda>x. xml_name x = Some name) (xml_children (fst p))))"
proof -
  obtain q where q: "prv_get_child_node n names = Some q"
    and nm: "xml_name (fst c) = Some name" and up: "snd c = fst q # snd q"
    using child_node_parent [OF found] by metis
  have "q = p" using q parent by simp
  have "str_list_loop content [] (prv_get_children_list p name) =
          List.map_filter (\<lambda>n. content (fst n)) (filter (named name) (child_nodes p))"
    by (simp add: str_list_loop_rev prv_get_children_list_def children_list_loop_rev map_filter_rev)
  also have "\<dots> = List.map_filter content
                  (filter (\<lambda>x. xml_name x = Some name) (xml_children (fst p)))"
    by (simp add: child_nodes_def filter_map comp_def named_def List.map_filter_def)
  finally show ?thesis
    using found nm up \<open>q = p\<close>
    by (cases c) (simp add: xml_util_get_child_string_list_content_by_name_def)
qed

end
