(* ===== verification/Device_Tasks.thy ===== *)
theory Device_Tasks
  imports Device Task Xml_Util
begin

section \<open>device.c: the method calls of a device\<close>

text \<open>
  The handlers that the library runs for a method call on a device: reading properties,
  fetching the icon, starting a test action of the Basic Management service and turning its
  answer into the result of the call. A handler takes the device and the task and returns both,
  with the calls it makes; None stands for undefined behaviour, as in the other theories.
\<close>

subsection \<open>Parts the handlers share\<close>

definition upd_async :: "(dld_async \<Rightarrow> dld_async) \<Rightarrow> dld_task \<Rightarrow> dld_task" where
  "upd_async f t = t\<lparr>task_async := map_option f (task_async t)\<rparr>"

definition set_error :: "dleyna_error \<Rightarrow> string \<Rightarrow> dld_task \<Rightarrow> dld_task" where
  "set_error code msg = upd_async (\<lambda>a. a\<lparr>async_error := Some (GError code msg)\<rparr>)"

definition has_error :: "dld_task \<Rightarrow> bool" where
  "has_error t \<longleftrightarrow> (case task_async t of None \<Rightarrow> False | Some a \<Rightarrow> async_error a \<noteq> None)"

text \<open>\<open>cb_data->cb = cb; cb_data->device = device;\<close>\<close>

definition set_cb :: "addr option \<Rightarrow> dld_task \<Rightarrow> dld_task" where
  "set_cb device = upd_async (\<lambda>a. a\<lparr>async_cb := True, async_device := device\<rparr>)"

definition is_device_interface :: "string \<Rightarrow> bool" where
  "is_device_interface i \<longleftrightarrow> i = DLEYNA_DIAGNOSTICS_INTERFACE_DEVICE \<or> i = ''''"

subsection \<open>Properties\<close>

definition prv_get_prop :: "dld_device \<Rightarrow> dld_task \<Rightarrow> dld_task option" where
  "prv_get_prop device t =
     (case task_ut t of
        Ut_get_prop i p \<Rightarrow>
          let (res, t1) =
                (if is_device_interface i
                 then ((case g_hash_table_lookup (dev_props device) p of
                          None \<Rightarrow> None | Some v \<Rightarrow> v), t)
                 else (None, set_error DLEYNA_ERROR_UNKNOWN_INTERFACE ''Unknown Interface'' t))
          in Some (case res of
               None \<Rightarrow> (if has_error t1 then t1
                        else set_error DLEYNA_ERROR_UNKNOWN_PROPERTY
                               ''Property not defined for object'' t1)
             | Some v \<Rightarrow> t1\<lparr>task_result := Some v\<rparr>)
      | _ \<Rightarrow> None)"

text \<open>None if a value is NULL, which the variant builder does not accept.\<close>

fun prv_add_props :: "(string, gvariant option) ghash \<Rightarrow> (string \<times> gvariant) list option" where
  "prv_add_props [] = Some []"
| "prv_add_props ((key, val) # props) =
     (case val of
        None \<Rightarrow> None
      | Some v \<Rightarrow> map_option (\<lambda>vb. (key, v) # vb) (prv_add_props props))"

definition prv_get_props :: "dld_device \<Rightarrow> dld_task \<Rightarrow> dld_task option" where
  "prv_get_props device t =
     (case task_ut t of
        Ut_get_props i \<Rightarrow>
          if is_device_interface i
          then map_option (\<lambda>vb. t\<lparr>task_result := Some (gv_vardict vb)\<rparr>)
                 (prv_add_props (dev_props device))
          else Some (set_error DLEYNA_ERROR_UNKNOWN_INTERFACE ''Unknown Interface'' t)
      | _ \<Rightarrow> None)"

definition dld_device_get_prop :: "dld_device \<Rightarrow> dld_task \<Rightarrow> (dld_task \<times> effect list) option" where
  "dld_device_get_prop device t =
     map_option (\<lambda>t1. (t1, [Idle_add])) (prv_get_prop device (set_cb (Some (dev_ref device)) t))"

definition dld_device_get_all_props :: "dld_device \<Rightarrow> dld_task \<Rightarrow> (dld_task \<times> effect list) option" where
  "dld_device_get_all_props device t =
     map_option (\<lambda>t1. (t1, [Idle_add])) (prv_get_props device (set_cb (Some (dev_ref device)) t))"

subsection \<open>The icon\<close>

definition prv_build_icon_result :: "glib \<Rightarrow> dld_device \<Rightarrow> dld_task \<Rightarrow> dld_task option" where
  "prv_build_icon_result gl device t =
     map_option
       (\<lambda>mime. t\<lparr>task_result :=
          Some (GTuple [GArray ''y'' (map GByte (take (icon_size device) (icon_bytes device))), mime])\<rparr>)
       (g_variant_new_string gl (icon_mime_type device))"

text \<open>\<open>msg_new url\<close> tells whether \<open>soup_message_new\<close> accepts the URL.\<close>

definition dld_device_get_icon ::
  "glib \<Rightarrow> (string \<Rightarrow> bool) \<Rightarrow> dld_device \<Rightarrow> dld_task \<Rightarrow>
     (dld_device \<times> dld_task \<times> effect list) option" where
  "dld_device_get_icon gl msg_new device t =
     (let t1 = set_cb (Some (dev_ref device)) t
      in if icon_size device \<noteq> 0
         then map_option (\<lambda>t2. (device, t2, [Idle_add])) (prv_build_icon_result gl device t1)
         else
           (case dld_device_get_context device of
              None \<Rightarrow> None
            | Some i \<Rightarrow>
                let de = di_descr (ctx_device_proxy (dev_contexts device ! i));
                    device1 = device\<lparr>icon_mime_type := de_icon_mime_type de\<rparr>
                in case de_icon_url de of
                     None \<Rightarrow>
                       Some (device1, set_error DLEYNA_ERROR_NOT_SUPPORTED ''No icon available'' t1,
                             [Idle_add])
                   | Some url \<Rightarrow>
                       if \<not> msg_new url
                       then Some (device1,
                              set_error DLEYNA_ERROR_BAD_RESULT (''Invalid URL '' @ url) t1, [Idle_add])
                       else (case task_async t1 of
                               None \<Rightarrow> None
                             | Some a \<Rightarrow>
                                 let (a1, eff) = g_cancellable_connect Prv_get_icon_cancelled a
                                 in Some (device1, t1\<lparr>task_async := Some a1\<rparr>,
                                          eff @ [Queue_message url]))))"

text \<open>What libsoup reports at the end of the download.\<close>

datatype soup_status = Soup_cancelled | Soup_successful "8 word list" | Soup_failed

definition prv_get_icon_session_cb ::
  "glib \<Rightarrow> soup_status \<Rightarrow> dld_device \<Rightarrow> dld_task \<Rightarrow> (dld_device \<times> dld_task \<times> effect list) option" where
  "prv_get_icon_session_cb gl status device t =
     (case status of
        Soup_cancelled \<Rightarrow> Some (device, t, [])
      | Soup_successful body \<Rightarrow>
          let device1 = device\<lparr>icon_size := length body, icon_bytes := body\<rparr>
          in map_option
               (\<lambda>t1. (device1, upd_async g_cancellable_disconnect t1, [Idle_add, Cancellable_disconnect]))
               (prv_build_icon_result gl device1 t)
      | Soup_failed \<Rightarrow>
          Some (device,
                upd_async g_cancellable_disconnect
                  (set_error DLEYNA_ERROR_OPERATION_FAILED ''Failed to GET device icon'' t),
                [Idle_add, Cancellable_disconnect]))"

subsection \<open>Starting an action\<close>

text \<open>
  The part every action shares: connect the cancellation, keep a weak pointer to the proxy of
  the preferred context and begin the action on it.
\<close>

definition begin_action ::
  "string \<Rightarrow> (string \<times> gvariant) list \<Rightarrow> dld_device \<Rightarrow> dld_task \<Rightarrow>
     (dld_task \<times> effect list) option" where
  "begin_action name args device t =
     (case dld_device_get_context device of
        None \<Rightarrow> None
      | Some i \<Rightarrow>
          let t1 = set_cb (Some (dev_ref device)) t
          in case (task_async t1, bms_proxy (dev_contexts device ! i)) of
               (Some a, Some p) \<Rightarrow>
                 let (a1, eff) = g_cancellable_connect Dld_async_task_cancelled a
                 in Some (t1\<lparr>task_async := Some (a1\<lparr>async_proxy := Some p, async_action := Some name\<rparr>)\<rparr>,
                          eff @ [Begin_action (Some p) name args])
             | _ \<Rightarrow> None)"

definition prv_generic_test_action ::
  "string \<Rightarrow> dld_device \<Rightarrow> dld_task \<Rightarrow> (dld_task \<times> effect list) option" where
  "prv_generic_test_action name device t =
     (case task_ut t of
        Ut_test test_id \<Rightarrow> begin_action name [(''TestID'', GUint test_id)] device t
      | _ \<Rightarrow> None)"

definition dld_device_get_test_info :: "dld_device \<Rightarrow> dld_task \<Rightarrow> (dld_task \<times> effect list) option" where
  "dld_device_get_test_info device t = prv_generic_test_action ''GetTestInfo'' device t"

definition dld_device_cancel_test :: "dld_device \<Rightarrow> dld_task \<Rightarrow> (dld_task \<times> effect list) option" where
  "dld_device_cancel_test device t = prv_generic_test_action ''CancelTest'' device t"

definition dld_device_ping :: "dld_device \<Rightarrow> dld_task \<Rightarrow> (dld_task \<times> effect list) option" where
  "dld_device_ping device t =
     (case task_ut t of
        Ut_ping host repeat interval data_block_size dscp \<Rightarrow>
          begin_action ''Ping''
            [(''Host'', GString host), (''NumberOfRepetitions'', GUint repeat),
             (''Timeout'', GUint interval), (''DataBlockSize'', GUint data_block_size),
             (''DSCP'', GUint dscp)] device t
      | _ \<Rightarrow> None)"

definition dld_device_get_ping_result :: "dld_device \<Rightarrow> dld_task \<Rightarrow> (dld_task \<times> effect list) option" where
  "dld_device_get_ping_result device t = prv_generic_test_action ''GetPingResult'' device t"

definition dld_device_nslookup :: "dld_device \<Rightarrow> dld_task \<Rightarrow> (dld_task \<times> effect list) option" where
  "dld_device_nslookup device t =
     (case task_ut t of
        Ut_nslookup hostname dns_server repeat interval \<Rightarrow>
          begin_action ''NSLookup''
            [(''HostName'', GString hostname), (''DNSServer'', GString dns_server),
             (''NumberOfRepetitions'', GUint repeat), (''Timeout'', GUint interval)] device t
      | _ \<Rightarrow> None)"

definition dld_device_get_nslookup_result ::
  "dld_device \<Rightarrow> dld_task \<Rightarrow> (dld_task \<times> effect list) option" where
  "dld_device_get_nslookup_result device t = prv_generic_test_action ''GetNSLookupResult'' device t"

definition dld_device_traceroute :: "dld_device \<Rightarrow> dld_task \<Rightarrow> (dld_task \<times> effect list) option" where
  "dld_device_traceroute device t =
     (case task_ut t of
        Ut_traceroute host timeout data_block_size max_hop_count dscp \<Rightarrow>
          begin_action ''Traceroute''
            [(''Host'', GString host), (''Timeout'', GUint timeout),
             (''DataBlockSize'', GUint data_block_size), (''MaxHopCount'', GUint max_hop_count),
             (''DSCP'', GUint dscp)] device t
      | _ \<Rightarrow> None)"

definition dld_device_get_traceroute_result ::
  "dld_device \<Rightarrow> dld_task \<Rightarrow> (dld_task \<times> effect list) option" where
  "dld_device_get_traceroute_result device t =
     prv_generic_test_action ''GetTracerouteResult'' device t"

subsection \<open>The answer to an action\<close>

text \<open>
  What \<open>gupnp_service_proxy_end_action\<close> gives: whether it succeeded, the message of the error
  if it set one, and the output arguments it filled in, by name; one that the device did not
  send stays NULL, or \<open>G_MAXUINT32\<close> for a number.
\<close>

record end_action =
  end_ok :: bool
  end_error :: "string option"
  end_strings :: "string \<Rightarrow> string option"
  end_uints :: "string \<Rightarrow> guint option"

definition out_uint :: "end_action \<Rightarrow> string \<Rightarrow> guint" where
  "out_uint r name = (case end_uints r name of None \<Rightarrow> G_MAXUINT32 | Some n \<Rightarrow> n)"

definition failed_message :: "end_action \<Rightarrow> string" where
  "failed_message r = (case end_error r of Some m \<Rightarrow> m | None \<Rightarrow> ''Invalid result'')"

text \<open>The end of every callback: record the error or the result, schedule the completion.\<close>

definition end_callback :: "string + gvariant option \<Rightarrow> dld_task \<Rightarrow> dld_task \<times> effect list" where
  "end_callback outcome t =
     (upd_async g_cancellable_disconnect
        (case outcome of
           Inl msg \<Rightarrow> set_error DLEYNA_ERROR_OPERATION_FAILED msg t
         | Inr None \<Rightarrow> t
         | Inr (Some v) \<Rightarrow> t\<lparr>task_result := Some v\<rparr>),
      [Idle_add, Cancellable_disconnect])"

definition prv_get_test_info_cb :: "end_action \<Rightarrow> dld_task \<Rightarrow> dld_task \<times> effect list" where
  "prv_get_test_info_cb r t =
     end_callback
       (case (end_strings r ''Type'', end_strings r ''State'') of
          (Some type, Some state) \<Rightarrow>
            if end_ok r then Inr (Some (GTuple [GString type, GString state]))
            else Inl (''GetTestInfo operation failed: '' @ failed_message r)
        | _ \<Rightarrow> Inl (''GetTestInfo operation failed: '' @ failed_message r)) t"

definition prv_cancel_test_cb :: "end_action \<Rightarrow> dld_task \<Rightarrow> dld_task \<times> effect list" where
  "prv_cancel_test_cb r t =
     end_callback
       (if end_ok r then Inr None
        else Inl (''CancelTest operation failed: '' @ failed_message r)) t"

definition prv_generic_test_action_cb :: "string \<Rightarrow> end_action \<Rightarrow> dld_task \<Rightarrow> dld_task \<times> effect list" where
  "prv_generic_test_action_cb action r t =
     end_callback
       (if \<not> end_ok r \<or> out_uint r ''TestID'' = G_MAXUINT32
        then Inl (action @ '' operation failed: '' @ failed_message r)
        else Inr (Some (GUint (out_uint r ''TestID'')))) t"

definition prv_ping_cb :: "end_action \<Rightarrow> dld_task \<Rightarrow> dld_task \<times> effect list" where
  "prv_ping_cb r t = prv_generic_test_action_cb ''Ping'' r t"

definition prv_nslookup_cb :: "end_action \<Rightarrow> dld_task \<Rightarrow> dld_task \<times> effect list" where
  "prv_nslookup_cb r t = prv_generic_test_action_cb ''NSLookup'' r t"

definition prv_traceroute_cb :: "end_action \<Rightarrow> dld_task \<Rightarrow> dld_task \<times> effect list" where
  "prv_traceroute_cb r t = prv_generic_test_action_cb ''Traceroute'' r t"

definition prv_get_ping_result_cb :: "end_action \<Rightarrow> dld_task \<Rightarrow> dld_task \<times> effect list" where
  "prv_get_ping_result_cb r t =
     end_callback
       (let success = out_uint r ''SuccessCount''; failure = out_uint r ''FailureCount'';
            avg_rsp_time = out_uint r ''AverageResponseTime'';
            min_rsp_time = out_uint r ''MinimumResponseTime'';
            max_rsp_time = out_uint r ''MaximumResponseTime''
        in case (end_strings r ''Status'', end_strings r ''AdditionalInfo'') of
             (Some status, Some info) \<Rightarrow>
               if \<not> end_ok r \<or> success = G_MAXUINT32 \<or> failure = G_MAXUINT32 \<or>
                  avg_rsp_time = G_MAXUINT32 \<or> min_rsp_time = G_MAXUINT32 \<or>
                  max_rsp_time = G_MAXUINT32
               then Inl (''Ping operation failed: '' @ failed_message r)
               else Inr (Some (GTuple [GString status, GString info, GUint success, GUint failure,
                      GUint avg_rsp_time, GUint min_rsp_time, GUint max_rsp_time]))
           | _ \<Rightarrow> Inl (''Ping operation failed: '' @ failed_message r)) t"

definition prv_get_traceroute_result_cb ::
  "glib \<Rightarrow> end_action \<Rightarrow> dld_task \<Rightarrow> dld_task \<times> effect list" where
  "prv_get_traceroute_result_cb gl r t =
     end_callback
       (let rsp_time = out_uint r ''ResponseTime''
        in case (end_strings r ''Status'', end_strings r ''AdditionalInfo'', end_strings r ''HopHosts'') of
             (Some status, Some info, Some hop_hosts) \<Rightarrow>
               if \<not> end_ok r \<or> rsp_time = G_MAXUINT32
               then Inl (''Traceroute operation failed: '' @ failed_message r)
               else Inr (Some (GTuple [GString status, GString info, GUint rsp_time,
                      gv_strings (comma_pieces gl hop_hosts)]))
           | _ \<Rightarrow> Inl (''Traceroute operation failed: '' @ failed_message r)) t"

subsection \<open>The result of a name lookup\<close>

record prv_nslookup_result =
  ns_status :: string
  ns_answer_type :: string
  ns_hostname_returned :: string
  ns_ip_addresses :: string
  ns_dns_server_ip :: string
  ns_response_time :: string

definition prv_extract_nslookup_result ::
  "(xml \<Rightarrow> string option) \<Rightarrow> xnode \<Rightarrow> prv_nslookup_result option" where
  "prv_extract_nslookup_result content n =
     (let get = (\<lambda>name. xml_util_get_child_string_content_by_name content n [name])
      in case (get ''Status'', get ''AnswerType'', get ''HostNameReturned'', get ''IPAddresses'',
               get ''DNSServerIP'', get ''ResponseTime'') of
           (Some status, Some answer_type, Some hostname, Some ip_addresses, Some dns, Some rsp) \<Rightarrow>
             if length hostname > 256 \<or> length ip_addresses > 256 then None
             else Some \<lparr>ns_status = status, ns_answer_type = answer_type,
                        ns_hostname_returned = hostname, ns_ip_addresses = ip_addresses,
                        ns_dns_server_ip = dns, ns_response_time = rsp\<rparr>
         | _ \<Rightarrow> None)"

fun decode_loop ::
  "(xml \<Rightarrow> string option) \<Rightarrow> prv_nslookup_result list \<Rightarrow> xnode list \<Rightarrow> prv_nslookup_result list" where
  "decode_loop content result_list [] = result_list"
| "decode_loop content result_list (n # ns) =
     decode_loop content
       (if named ''Result'' n
        then (case prv_extract_nslookup_result content n of
                None \<Rightarrow> result_list
              | Some r \<Rightarrow> r # result_list)
        else result_list) ns"

text \<open>\<open>parse\<close> is \<open>xmlParseMemory\<close> with \<open>xmlDocGetRootElement\<close>: None if either returns NULL.\<close>

definition prv_nslookup_result_decode ::
  "(string \<Rightarrow> xml option) \<Rightarrow> (xml \<Rightarrow> string option) \<Rightarrow> string \<Rightarrow> prv_nslookup_result list" where
  "prv_nslookup_result_decode parse content nslookup_xml =
     (case parse nslookup_xml of
        None \<Rightarrow> []
      | Some root \<Rightarrow>
          if xml_name root = Some ''NSLookupResult''
          then decode_loop content [] (child_nodes (root, []))
          else [])"

definition prv_results_list_add_result :: "glib \<Rightarrow> prv_nslookup_result \<Rightarrow> gvariant option" where
  "prv_results_list_add_result gl result =
     map_option
       (\<lambda>rsp. GTuple [GString (ns_status result), GString (ns_answer_type result),
                      GString (ns_hostname_returned result),
                      gv_strings (comma_pieces gl (ns_ip_addresses result)),
                      GString (ns_dns_server_ip result), GUint rsp])
       (atou (ns_response_time result))"

definition prv_results_list_build ::
  "glib \<Rightarrow> (string \<Rightarrow> xml option) \<Rightarrow> (xml \<Rightarrow> string option) \<Rightarrow> string \<Rightarrow> gvariant option" where
  "prv_results_list_build gl parse content nslookup_result =
     map_option (GArray ''(sssassu)'')
       (those (map (prv_results_list_add_result gl)
          (prv_nslookup_result_decode parse content nslookup_result)))"

definition prv_get_nslookup_result_cb ::
  "glib \<Rightarrow> (string \<Rightarrow> xml option) \<Rightarrow> (xml \<Rightarrow> string option) \<Rightarrow> end_action \<Rightarrow> dld_task \<Rightarrow>
     (dld_task \<times> effect list) option" where
  "prv_get_nslookup_result_cb gl parse content r t =
     (let success = out_uint r ''SuccessCount'';
          failed = Some (end_callback (Inl (''NSLookup operation failed: '' @ failed_message r)) t)
      in case (end_strings r ''Status'', end_strings r ''AdditionalInfo'', end_strings r ''Result'') of
           (Some status, Some info, Some nslookup_result) \<Rightarrow>
             if \<not> end_ok r \<or> success = G_MAXUINT32 then failed
             else map_option
                    (\<lambda>results. end_callback
                       (Inr (Some (GTuple [GString status, GString info, GUint success, results]))) t)
                    (prv_results_list_build gl parse content nslookup_result)
         | _ \<Rightarrow> failed)"

subsection \<open>Frames\<close>

lemma upd_async_simps [simp]:
  "task_type (upd_async f t) = task_type t"
  "task_path (upd_async f t) = task_path t"
  "result_format (upd_async f t) = result_format t"
  "task_result (upd_async f t) = task_result t"
  "invocation (upd_async f t) = invocation t"
  "synchronous (upd_async f t) = synchronous t"
  "multiple_retvals (upd_async f t) = multiple_retvals t"
  "task_ut (upd_async f t) = task_ut t"
  "task_async (upd_async f t) = map_option f (task_async t)"
  by (simp_all add: upd_async_def)

lemma set_error_simps [simp]:
  "task_type (set_error code msg t) = task_type t"
  "result_format (set_error code msg t) = result_format t"
  "task_result (set_error code msg t) = task_result t"
  "invocation (set_error code msg t) = invocation t"
  "synchronous (set_error code msg t) = synchronous t"
  "multiple_retvals (set_error code msg t) = multiple_retvals t"
  "task_ut (set_error code msg t) = task_ut t"
  "task_async (set_error code msg t) =
     map_option (\<lambda>a. a\<lparr>async_error := Some (GError code msg)\<rparr>) (task_async t)"
  "has_error (set_error code msg t) \<longleftrightarrow> task_async t \<noteq> None"
  by (auto simp: set_error_def has_error_def split: option.split)

lemma set_cb_simps [simp]:
  "task_type (set_cb device t) = task_type t"
  "result_format (set_cb device t) = result_format t"
  "task_result (set_cb device t) = task_result t"
  "invocation (set_cb device t) = invocation t"
  "synchronous (set_cb device t) = synchronous t"
  "multiple_retvals (set_cb device t) = multiple_retvals t"
  "task_ut (set_cb device t) = task_ut t"
  "task_async (set_cb device t) =
     map_option (\<lambda>a. a\<lparr>async_cb := True, async_device := device\<rparr>) (task_async t)"
  "has_error (set_cb device t) = has_error t"
  by (auto simp: set_cb_def has_error_def split: option.split)

lemma disconnect_simps [simp]:
  "async_error (g_cancellable_disconnect a) = async_error a"
  "async_cb (g_cancellable_disconnect a) = async_cb a"
  "async_proxy (g_cancellable_disconnect a) = async_proxy a"
  by (simp_all add: g_cancellable_disconnect_def split: option.split)

text \<open>A task as the task processor hands it to a handler: its call is pending, no outcome yet.\<close>

definition started_task :: "msg_id \<Rightarrow> dld_task \<Rightarrow> dld_async \<Rightarrow> bool" where
  "started_task m t a \<longleftrightarrow>
     invocation t = Some m \<and> task_result t = None \<and> \<not> synchronous t \<and> task_async t = Some a \<and>
     async_error a = None \<and>
     async_cancellable a = Some \<lparr>gc_cancelled = False, gc_handler = None\<rparr>"

text \<open>What the idle handler sends once a handler has recorded its outcome.\<close>

lemma async_complete_error:
  assumes "task_async t = Some a" and "async_cb a" and "async_error a = Some e" and "invocation t = Some m"
  shows "\<exists>t'. dld_async_task_complete t = Some (t', [Return_error m e, Task_completed])"
  using assms by (simp add: dld_async_task_complete_def prv_async_task_complete_def dld_task_fail_def)

lemma async_complete_result:
  assumes "task_async t = Some a" and "async_cb a" and "async_error a = None" and "invocation t = Some m"
    and "dld_task_complete t = Some (t', [Return_response m v])"
  shows "dld_async_task_complete t = Some (t', [Return_response m v, Task_completed])"
  using assms by (simp add: dld_async_task_complete_def prv_async_task_complete_def)

subsection \<open>Reading properties\<close>

definition device_property :: "dld_device \<Rightarrow> string \<Rightarrow> gvariant option" where
  "device_property d p = (case map_of (dev_props d) p of None \<Rightarrow> None | Some v \<Rightarrow> v)"

lemma get_prop_reply:
  assumes st: "started_task m t a" and ut: "task_ut t = Ut_get_prop i p"
    and fmt: "result_format t = Some ''(v)''" "\<not> multiple_retvals t"
    and get: "dld_device_get_prop d t = Some (t', eff)"
  shows "eff = [Idle_add] \<and>
     (\<exists>t''. dld_async_task_complete t' = Some (t'',
        [(if \<not> is_device_interface i
          then Return_error m (GError DLEYNA_ERROR_UNKNOWN_INTERFACE ''Unknown Interface'')
          else case device_property d p of
                 None \<Rightarrow> Return_error m (GError DLEYNA_ERROR_UNKNOWN_PROPERTY
                                           ''Property not defined for object'')
               | Some v \<Rightarrow> Return_response m (Some (GTuple [GVariant v]))), Task_completed]))"
proof -
  note st' = st [unfolded started_task_def]
  have t': "Some t' = prv_get_prop d (set_cb (Some (dev_ref d)) t)" and eff: "eff = [Idle_add]"
    using get by (auto simp: dld_device_get_prop_def)
  let ?a = "a\<lparr>async_cb := True, async_device := Some (dev_ref d)\<rparr>"
  have none: "\<not> has_error t" using st' by (simp add: has_error_def)
  have get_eq: "prv_get_prop d (set_cb (Some (dev_ref d)) t) = Some
      (if \<not> is_device_interface i
       then set_error DLEYNA_ERROR_UNKNOWN_INTERFACE ''Unknown Interface'' (set_cb (Some (dev_ref d)) t)
       else case device_property d p of
              None \<Rightarrow> set_error DLEYNA_ERROR_UNKNOWN_PROPERTY ''Property not defined for object''
                        (set_cb (Some (dev_ref d)) t)
            | Some v \<Rightarrow> (set_cb (Some (dev_ref d)) t)\<lparr>task_result := Some v\<rparr>)"
    using st' none ut by (simp add: prv_get_prop_def device_property_def Let_def split: option.split)
  show ?thesis
  proof (cases "is_device_interface i")
    case False
    then have "t' = set_error DLEYNA_ERROR_UNKNOWN_INTERFACE ''Unknown Interface'' (set_cb (Some (dev_ref d)) t)"
      using t' get_eq by simp
    then show ?thesis
      using async_complete_error [of t' "?a\<lparr>async_error :=
          Some (GError DLEYNA_ERROR_UNKNOWN_INTERFACE ''Unknown Interface'')\<rparr>"] st' False eff
      by simp
  next
    case True
    show ?thesis
    proof (cases "device_property d p")
      case None
      then have "t' = set_error DLEYNA_ERROR_UNKNOWN_PROPERTY ''Property not defined for object''
                   (set_cb (Some (dev_ref d)) t)"
        using t' get_eq True by simp
      then show ?thesis
        using async_complete_error [of t' "?a\<lparr>async_error :=
            Some (GError DLEYNA_ERROR_UNKNOWN_PROPERTY ''Property not defined for object'')\<rparr>"]
          st' True None eff
        by simp
    next
      case (Some v)
      then have "t' = (set_cb (Some (dev_ref d)) t)\<lparr>task_result := Some v\<rparr>"
        using t' get_eq True by simp
      then show ?thesis
        using st' True Some eff fmt
        by (simp add: dld_async_task_complete_def prv_async_task_complete_def dld_task_complete_def
            g_variant_new_fmt_def)
    qed
  qed
qed

lemma get_prop_defined: "task_ut t = Ut_get_prop i p \<Longrightarrow> \<exists>t' eff. dld_device_get_prop d t = Some (t', eff)"
  by (simp add: dld_device_get_prop_def prv_get_prop_def Let_def split: prod.splits)

lemma add_props_Some:
  "prv_add_props props = Some kvs \<longleftrightarrow>
     map fst kvs = map fst props \<and> map snd props = map (Some \<circ> snd) kvs"
proof (induction props arbitrary: kvs)
  case Nil
  then show ?case by auto
next
  case (Cons kv props)
  show ?case
    by (cases kv; cases kvs) (auto simp: Cons.IH split: option.splits)
qed

lemma add_props_lookup:
  "prv_add_props props = Some kvs \<Longrightarrow> map_of props k = map_option Some (map_of kvs k)"
proof (induction props arbitrary: kvs)
  case (Cons kv props)
  then show ?case by (cases kv) (auto split: option.splits)
qed simp

subsection \<open>Actions\<close>

lemma begin_actionE:
  assumes "begin_action name args d t = Some (t', eff)" and "started_task m t a"
  obtains i p where "dld_device_get_context d = Some i" and "bms_proxy (dev_contexts d ! i) = Some p"
    and "eff = [Cancellable_connect, Begin_action (Some p) name args]"
    and "t' = t\<lparr>task_async := Some
           (a\<lparr>async_cb := True, async_device := Some (dev_ref d), async_proxy := Some p,
              async_action := Some name,
              async_cancellable :=
                Some \<lparr>gc_cancelled = False, gc_handler = Some Dld_async_task_cancelled\<rparr>\<rparr>)\<rparr>"
  using assms
  by (auto simp: begin_action_def set_cb_def upd_async_def started_task_def g_cancellable_connect_def
      Let_def split: option.splits)

lemma begin_action_defined:
  assumes "started_task m t a" and "dld_device_get_context d = Some i"
    and "bms_proxy (dev_contexts d ! i) \<noteq> None"
  shows "begin_action name args d t \<noteq> None"
  using assms
  by (auto simp: begin_action_def set_cb_def upd_async_def started_task_def g_cancellable_connect_def)

text \<open>The callback each action is begun with, by the type of the task.\<close>

definition result_callback ::
  "glib \<Rightarrow> (string \<Rightarrow> xml option) \<Rightarrow> (xml \<Rightarrow> string option) \<Rightarrow> dld_task_type \<Rightarrow>
     (end_action \<Rightarrow> dld_task \<Rightarrow> (dld_task \<times> effect list) option) option" where
  "result_callback gl parse content type =
     (case type of
        DLD_TASK_GET_TEST_INFO \<Rightarrow> Some (\<lambda>r t. Some (prv_get_test_info_cb r t))
      | DLD_TASK_CANCEL_TEST \<Rightarrow> Some (\<lambda>r t. Some (prv_cancel_test_cb r t))
      | DLD_TASK_PING \<Rightarrow> Some (\<lambda>r t. Some (prv_ping_cb r t))
      | DLD_TASK_GET_PING_RESULT \<Rightarrow> Some (\<lambda>r t. Some (prv_get_ping_result_cb r t))
      | DLD_TASK_NSLOOKUP \<Rightarrow> Some (\<lambda>r t. Some (prv_nslookup_cb r t))
      | DLD_TASK_GET_NSLOOKUP_RESULT \<Rightarrow> Some (prv_get_nslookup_result_cb gl parse content)
      | DLD_TASK_TRACEROUTE \<Rightarrow> Some (\<lambda>r t. Some (prv_traceroute_cb r t))
      | DLD_TASK_GET_TRACEROUTE_RESULT \<Rightarrow> Some (\<lambda>r t. Some (prv_get_traceroute_result_cb gl r t))
      | _ \<Rightarrow> None)"

text \<open>The operation that begins each action, and the constructor of its task.\<close>

definition device_action ::
  "dld_task_type \<Rightarrow> dld_device \<Rightarrow> dld_task \<Rightarrow> (dld_task \<times> effect list) option" where
  "device_action type d t =
     (case type of
        DLD_TASK_GET_TEST_INFO \<Rightarrow> dld_device_get_test_info d t
      | DLD_TASK_CANCEL_TEST \<Rightarrow> dld_device_cancel_test d t
      | DLD_TASK_PING \<Rightarrow> dld_device_ping d t
      | DLD_TASK_GET_PING_RESULT \<Rightarrow> dld_device_get_ping_result d t
      | DLD_TASK_NSLOOKUP \<Rightarrow> dld_device_nslookup d t
      | DLD_TASK_GET_NSLOOKUP_RESULT \<Rightarrow> dld_device_get_nslookup_result d t
      | DLD_TASK_TRACEROUTE \<Rightarrow> dld_device_traceroute d t
      | DLD_TASK_GET_TRACEROUTE_RESULT \<Rightarrow> dld_device_get_traceroute_result d t
      | _ \<Rightarrow> None)"

definition action_task_new ::
  "glib \<Rightarrow> dld_task_type \<Rightarrow> msg_id \<Rightarrow> string \<Rightarrow> gvariant \<Rightarrow> dld_task option" where
  "action_task_new gl type m path params =
     (case type of
        DLD_TASK_GET_TEST_INFO \<Rightarrow> dld_task_get_test_info_new gl m path params
      | DLD_TASK_CANCEL_TEST \<Rightarrow> dld_task_cancel_test_new gl m path params
      | DLD_TASK_PING \<Rightarrow> dld_task_ping_new gl m path params
      | DLD_TASK_GET_PING_RESULT \<Rightarrow> dld_task_get_ping_result_new gl m path params
      | DLD_TASK_NSLOOKUP \<Rightarrow> dld_task_nslookup_new gl m path params
      | DLD_TASK_GET_NSLOOKUP_RESULT \<Rightarrow> dld_task_get_nslookup_result_new gl m path params
      | DLD_TASK_TRACEROUTE \<Rightarrow> dld_task_traceroute_new gl m path params
      | DLD_TASK_GET_TRACEROUTE_RESULT \<Rightarrow> dld_task_get_traceroute_result_new gl m path params
      | _ \<Rightarrow> None)"

text \<open>\<open>async_task->cancellable = g_cancellable_new ()\<close> in \<open>prv_process_async_task\<close>.\<close>

definition new_cancellable :: "dld_task \<Rightarrow> dld_task" where
  "new_cancellable =
     upd_async (\<lambda>a. a\<lparr>async_cancellable := Some \<lparr>gc_cancelled = False, gc_handler = None\<rparr>\<rparr>)"

text \<open>The format of the reply of each action, and whether it has several values.\<close>

definition action_format :: "dld_task_type \<Rightarrow> string option \<times> bool" where
  "action_format type =
     (case type of
        DLD_TASK_GET_TEST_INFO \<Rightarrow> (Some ''(ss)'', True)
      | DLD_TASK_PING \<Rightarrow> (Some ''(@u)'', False)
      | DLD_TASK_GET_PING_RESULT \<Rightarrow> (Some ''(ssuuuuu)'', True)
      | DLD_TASK_NSLOOKUP \<Rightarrow> (Some ''(@u)'', False)
      | DLD_TASK_GET_NSLOOKUP_RESULT \<Rightarrow> (Some ''(ssua(sssassu))'', True)
      | DLD_TASK_TRACEROUTE \<Rightarrow> (Some ''(@u)'', False)
      | DLD_TASK_GET_TRACEROUTE_RESULT \<Rightarrow> (Some ''(ssuas)'', True)
      | _ \<Rightarrow> (None, False))"

lemma action_task_started:
  assumes "action_task_new gl type m path params = Some t0"
  shows "\<exists>a. started_task m (new_cancellable t0) a" and "task_type t0 = type"
    and "(result_format t0, multiple_retvals t0) = action_format type"
    and "task_path t0 = Some (g_strstrip gl path)"
  using assms
  by (auto simp: action_task_new_def constructor_defs action_format_def started_task_def
      new_cancellable_def async_zero_def split: dld_task_type.splits gvariant.splits list.splits)

lemma device_action_begins:
  assumes "device_action type d t = Some (t', eff)"
  obtains name args where "begin_action name args d t = Some (t', eff)"
  using assms
  by (auto simp: device_action_def dld_device_get_test_info_def dld_device_cancel_test_def
      dld_device_ping_def dld_device_get_ping_result_def dld_device_nslookup_def
      dld_device_get_nslookup_result_def dld_device_traceroute_def
      dld_device_get_traceroute_result_def prv_generic_test_action_def
      split: dld_task_type.splits task_ut.splits)

text \<open>
  The contract of the callbacks: each ends in \<open>end_callback\<close>, with a failure or with a value
  that has the type of the format its task was made with.
\<close>

locale action_result =
  fixes cb :: "end_action \<Rightarrow> dld_task \<Rightarrow> (dld_task \<times> effect list) option"
    and fmt :: "string option \<times> bool"
  assumes cb_spec: "cb r t = Some (t', eff) \<Longrightarrow>
    \<exists>outcome. (t', eff) = end_callback outcome t \<and>
      (case outcome of
         Inl msg \<Rightarrow> True
       | Inr None \<Rightarrow> fst fmt = None
       | Inr (Some v) \<Rightarrow>
           (\<exists>f. fst fmt = Some f \<and>
              (if snd fmt then take 2 f \<noteq> ''(@'' \<and> gv_type v = f else f = ''(@'' @ gv_type v @ '')'')))"
begin

lemma callback_reply:
  assumes cb: "cb r t = Some (t', eff)"
    and t: "invocation t = Some m" "task_async t = Some a" "async_cb a" "async_error a = None"
      "task_result t = None"
    and format: "(result_format t, multiple_retvals t) = fmt"
  shows "eff = [Idle_add, Cancellable_disconnect]" and
    "\<exists>t'' rep. dld_async_task_complete t' = Some (t'', [rep, Task_completed]) \<and>
      ((\<exists>msg. rep = Return_error m (GError DLEYNA_ERROR_OPERATION_FAILED msg)) \<or>
       (fst fmt = None \<and> rep = Return_response m None) \<or>
       (\<exists>f v. fst fmt = Some f \<and> rep = Return_response m (Some v) \<and> gv_type v = reply_type f))"
proof -
  from cb_spec [OF cb] obtain outcome where o: "(t', eff) = end_callback outcome t"
    and ty: "case outcome of Inl msg \<Rightarrow> True | Inr None \<Rightarrow> fst fmt = None
       | Inr (Some v) \<Rightarrow> (\<exists>f. fst fmt = Some f \<and>
           (if snd fmt then take 2 f \<noteq> ''(@'' \<and> gv_type v = f else f = ''(@'' @ gv_type v @ '')''))"
    by blast
  from format have fm: "fst fmt = result_format t" "snd fmt = multiple_retvals t" by auto
  show "eff = [Idle_add, Cancellable_disconnect]" using o by (simp add: end_callback_def)
  show "\<exists>t'' rep. dld_async_task_complete t' = Some (t'', [rep, Task_completed]) \<and>
      ((\<exists>msg. rep = Return_error m (GError DLEYNA_ERROR_OPERATION_FAILED msg)) \<or>
       (fst fmt = None \<and> rep = Return_response m None) \<or>
       (\<exists>f v. fst fmt = Some f \<and> rep = Return_response m (Some v) \<and> gv_type v = reply_type f))"
  proof (cases outcome)
    case (Inl msg)
    let ?a = "g_cancellable_disconnect
        (a\<lparr>async_error := Some (GError DLEYNA_ERROR_OPERATION_FAILED msg)\<rparr>)"
    have "task_async t' = Some ?a" "invocation t' = Some m"
      using o Inl t by (simp_all add: end_callback_def)
    then obtain t'' where "dld_async_task_complete t' =
        Some (t'', [Return_error m (GError DLEYNA_ERROR_OPERATION_FAILED msg), Task_completed])"
      using async_complete_error [of t' ?a "GError DLEYNA_ERROR_OPERATION_FAILED msg" m] t by auto
    then show ?thesis by blast
  next
    case (Inr res)
    let ?a = "g_cancellable_disconnect a"
    have t': "task_async t' = Some ?a" "invocation t' = Some m" "task_result t' = res"
      "result_format t' = fst fmt" "multiple_retvals t' = snd fmt"
      using o Inr t fm by (auto simp: end_callback_def split: option.split)
    note fin = async_complete_result [OF t'(1), simplified, OF t(3,4) t'(2)]
    show ?thesis
    proof (cases res)
      case None
      then have "dld_task_complete t' = Some (t'\<lparr>invocation := None\<rparr>, [Return_response m None])"
        using t' Inr ty by (simp add: dld_task_complete_def)
      from fin [OF this] show ?thesis using ty Inr None by auto
    next
      case (Some v)
      then obtain f where f: "fst fmt = Some f"
        "if snd fmt then take 2 f \<noteq> ''(@'' \<and> gv_type v = f else f = ''(@'' @ gv_type v @ '')''"
        using ty Inr by auto
      then have "result_fits t'" using t' Some by (auto simp: result_fits_def)
      moreover have "result_format t' = Some f" "task_result t' = Some v" using t' f Some by simp_all
      ultimately obtain t'' w where
        "dld_task_complete t' = Some (t'', [Return_response m (Some w)])" "gv_type w = reply_type f"
        using complete_sends_values [OF _ t'(2)] by blast
      with fin [OF this(1)] f show ?thesis by blast
    qed
  qed
qed

end

lemma action_resultI:
  assumes "\<And>r t. \<exists>outcome. cb r t = Some (end_callback outcome t) \<and>
      (case outcome of
         Inl msg \<Rightarrow> True
       | Inr None \<Rightarrow> fst fmt = None
       | Inr (Some v) \<Rightarrow>
           (\<exists>f. fst fmt = Some f \<and>
              (if snd fmt then take 2 f \<noteq> ''(@'' \<and> gv_type v = f else f = ''(@'' @ gv_type v @ '')'')))
      \<or> cb r t = None"
  shows "action_result cb fmt"
proof
  fix r t t' eff assume "cb r t = Some (t', eff)"
  with assms [of r t] show "\<exists>outcome. (t', eff) = end_callback outcome t \<and>
      (case outcome of
         Inl msg \<Rightarrow> True
       | Inr None \<Rightarrow> fst fmt = None
       | Inr (Some v) \<Rightarrow>
           (\<exists>f. fst fmt = Some f \<and>
              (if snd fmt then take 2 f \<noteq> ''(@'' \<and> gv_type v = f else f = ''(@'' @ gv_type v @ '')'')))"
    by auto
qed

interpretation test_info_result:
  action_result "\<lambda>r t. Some (prv_get_test_info_cb r t)" "action_format DLD_TASK_GET_TEST_INFO"
  by (rule action_resultI)
    (auto simp: prv_get_test_info_cb_def action_format_def intro!: exI split: option.split)

interpretation cancel_test_result:
  action_result "\<lambda>r t. Some (prv_cancel_test_cb r t)" "action_format DLD_TASK_CANCEL_TEST"
  by (rule action_resultI) (auto simp: prv_cancel_test_cb_def action_format_def intro!: exI)

lemma generic_test_result:
  "action_result (\<lambda>r t. Some (prv_generic_test_action_cb action r t)) (Some ''(@u)'', False)"
  by (rule action_resultI) (auto simp: prv_generic_test_action_cb_def intro!: exI)

interpretation ping_result: action_result "\<lambda>r t. Some (prv_ping_cb r t)" "action_format DLD_TASK_PING"
  using generic_test_result by (simp add: prv_ping_cb_def action_format_def)

interpretation nslookup_result:
  action_result "\<lambda>r t. Some (prv_nslookup_cb r t)" "action_format DLD_TASK_NSLOOKUP"
  using generic_test_result by (simp add: prv_nslookup_cb_def action_format_def)

interpretation traceroute_result:
  action_result "\<lambda>r t. Some (prv_traceroute_cb r t)" "action_format DLD_TASK_TRACEROUTE"
  using generic_test_result by (simp add: prv_traceroute_cb_def action_format_def)

interpretation get_ping_result:
  action_result "\<lambda>r t. Some (prv_get_ping_result_cb r t)" "action_format DLD_TASK_GET_PING_RESULT"
  by (rule action_resultI)
    (auto simp: prv_get_ping_result_cb_def action_format_def Let_def intro!: exI split: option.split)

interpretation get_traceroute_result:
  action_result "\<lambda>r t. Some (prv_get_traceroute_result_cb gl r t)" "action_format DLD_TASK_GET_TRACEROUTE_RESULT"
  for gl
  by (rule action_resultI)
    (auto simp: prv_get_traceroute_result_cb_def action_format_def Let_def intro!: exI split: option.split)

lemma results_list_type: "prv_results_list_build gl parse content s = Some v \<Longrightarrow> gv_type v = ''a(sssassu)''"
  by (auto simp: prv_results_list_build_def)

interpretation get_nslookup_result:
  action_result "prv_get_nslookup_result_cb gl parse content" "action_format DLD_TASK_GET_NSLOOKUP_RESULT"
  for gl parse content
proof
  fix r t t' eff assume cb: "prv_get_nslookup_result_cb gl parse content r t = Some (t', eff)"
  then consider msg where "end_callback (Inl msg) t = (t', eff)"
    | status info success results where
        "end_callback (Inr (Some (GTuple [GString status, GString info, GUint success, results]))) t = (t', eff)"
        "gv_type results = ''a(sssassu)''"
    by (auto simp: prv_get_nslookup_result_cb_def Let_def split: option.splits if_splits
        dest!: results_list_type)
  then show "\<exists>outcome. (t', eff) = end_callback outcome t \<and>
      (case outcome of
         Inl msg \<Rightarrow> True
       | Inr None \<Rightarrow> fst (action_format DLD_TASK_GET_NSLOOKUP_RESULT) = None
       | Inr (Some v) \<Rightarrow>
           (\<exists>f. fst (action_format DLD_TASK_GET_NSLOOKUP_RESULT) = Some f \<and>
              (if snd (action_format DLD_TASK_GET_NSLOOKUP_RESULT)
               then take 2 f \<noteq> ''(@'' \<and> gv_type v = f else f = ''(@'' @ gv_type v @ '')'')))"
  proof cases
    case 1
    then show ?thesis by (intro exI [of _ "Inl msg"]) simp
  next
    case 2
    then show ?thesis
      by (intro exI [of _ "Inr (Some (GTuple [GString status, GString info, GUint success, results]))"])
        (simp add: action_format_def)
  qed
qed

lemma callback_answer:
  assumes "result_callback gl parse content type = Some cb" and "cb r t = Some (t', eff)"
    and t: "invocation t = Some m" "task_async t = Some a" "async_cb a" "async_error a = None"
      "task_result t = None"
    and fmt: "(result_format t, multiple_retvals t) = action_format type"
  shows "eff = [Idle_add, Cancellable_disconnect] \<and>
    (\<exists>t'' rep. dld_async_task_complete t' = Some (t'', [rep, Task_completed]) \<and>
      ((\<exists>msg. rep = Return_error m (GError DLEYNA_ERROR_OPERATION_FAILED msg)) \<or>
       (result_format t = None \<and> rep = Return_response m None) \<or>
       (\<exists>f v. result_format t = Some f \<and> rep = Return_response m (Some v) \<and> gv_type v = reply_type f)))"
proof -
  have res: "action_result cb (action_format type)"
    using assms(1) test_info_result.action_result_axioms cancel_test_result.action_result_axioms
      ping_result.action_result_axioms nslookup_result.action_result_axioms
      traceroute_result.action_result_axioms get_ping_result.action_result_axioms
      get_traceroute_result.action_result_axioms get_nslookup_result.action_result_axioms
    by (cases type) (auto simp: result_callback_def)
  have "result_format t = fst (action_format type)" using fmt by (metis fst_conv)
  then show ?thesis
    using action_result.callback_reply [OF res assms(2) t fmt] by simp
qed

subsection \<open>Name lookup results\<close>

lemma decode_loop_rev:
  "decode_loop content acc ns =
     rev (List.map_filter (prv_extract_nslookup_result content) (filter (named ''Result'') ns)) @ acc"
  by (induction ns arbitrary: acc) (auto simp: List.map_filter_simps split: option.split)

text \<open>The element a device sends for a result.\<close>

definition result_node :: "prv_nslookup_result \<Rightarrow> xml" where
  "result_node r =
     Xml (Some ''Result'') []
       [Xml (Some ''Status'') (ns_status r) [], Xml (Some ''AnswerType'') (ns_answer_type r) [],
        Xml (Some ''HostNameReturned'') (ns_hostname_returned r) [],
        Xml (Some ''IPAddresses'') (ns_ip_addresses r) [],
        Xml (Some ''DNSServerIP'') (ns_dns_server_ip r) [],
        Xml (Some ''ResponseTime'') (ns_response_time r) []]"

text \<open>
  What a result is: the content of the first child of a name, and an element called Result that has
  all of its six fields.
\<close>

definition field_of :: "(xml \<Rightarrow> string option) \<Rightarrow> string \<Rightarrow> xml \<Rightarrow> string option" where
  "field_of content name x =
     (case filter (\<lambda>c. xml_name c = Some name) (xml_children x) of [] \<Rightarrow> None | c # _ \<Rightarrow> content c)"

definition complete_result :: "(xml \<Rightarrow> string option) \<Rightarrow> xml \<Rightarrow> bool" where
  "complete_result content x \<longleftrightarrow>
     xml_name x = Some ''Result'' \<and>
     (\<forall>name \<in> {''Status'', ''AnswerType'', ''HostNameReturned'', ''IPAddresses'', ''DNSServerIP'', ''ResponseTime''}.
        field_of content name x \<noteq> None) \<and>
     (\<forall>name \<in> {''HostNameReturned'', ''IPAddresses''}. length (the (field_of content name x)) \<le> 256)"

lemma first_named_filter:
  "first_named name (map (\<lambda>c. (c, ps)) cs) =
     (case filter (\<lambda>c. xml_name c = Some name) cs of [] \<Rightarrow> None | c # _ \<Rightarrow> Some (c, ps))"
  by (induction cs) (auto simp: named_def)

lemma child_content: "xml_util_get_child_string_content_by_name content (x, ps) [name] = field_of content name x"
  by (simp add: xml_util_get_child_string_content_by_name_def child_nodes_def first_named_filter field_of_def
      split: list.split)

lemma extract_result:
  assumes "xml_name x = Some ''Result''"
  shows "prv_extract_nslookup_result content (x, ps) =
    (if complete_result content x
     then Some \<lparr>ns_status = the (field_of content ''Status'' x),
       ns_answer_type = the (field_of content ''AnswerType'' x),
       ns_hostname_returned = the (field_of content ''HostNameReturned'' x),
       ns_ip_addresses = the (field_of content ''IPAddresses'' x),
       ns_dns_server_ip = the (field_of content ''DNSServerIP'' x),
       ns_response_time = the (field_of content ''ResponseTime'' x)\<rparr>
     else None)"
  using assms
  by (auto simp: prv_extract_nslookup_result_def child_content complete_result_def split: option.splits)

subsection \<open>Properties\<close>

text \<open>C32: What a PropertiesChanged signal announced is what Get returns afterwards: a client that
  reads the property of a device's status event, with the device interface or the empty
  interface name, is sent the announced value in a variant.\<close>

theorem signalled_value_is_read:
  assumes "prv_bm_device_status_cb gl s d = (d', [Notify path iface sig (GTuple [i, gv_vardict [(key, val)], rest])])"
    and "started_task m t a" and "task_ut t = Ut_get_prop interface key"
    and "is_device_interface interface" and "result_format t = Some ''(v)''" and "\<not> multiple_retvals t"
  shows "\<exists>t1 t2. dld_device_get_prop d' t = Some (t1, [Idle_add]) \<and>
           dld_async_task_complete t1 =
             Some (t2, [Return_response m (Some (GTuple [GVariant val])), Task_completed])"
proof -
  have "key = DLD_INTERFACE_PROP_STATUS_INFO"
    and "device_property d' key = Some val"
    using assms(1) change_and_signal_simps(1,2)
      [of DLD_INTERFACE_PROP_STATUS_INFO "gv_strings (comma_pieces gl s)" d]
    by (auto simp: prv_bm_device_status_cb_def device_property_def gv_vardict_def)
  with get_prop_defined [OF assms(3)] get_prop_reply [OF assms(2,3,5,6)] assms(4) show ?thesis
    by fastforce
qed

definition sample_get :: "string \<Rightarrow> dld_task" where
  "sample_get p =
     new_cancellable (the (dld_task_get_prop_new glib_ref 6 ''/p/0'' (GTuple [GString '''', GString p])))"

lemma sample_get_started:
  "trim (g_ascii_isspace glib_ref) p = p \<Longrightarrow>
     (\<exists>a. started_task 6 (sample_get p) a) \<and> task_ut (sample_get p) = Ut_get_prop '''' p \<and>
     result_format (sample_get p) = Some ''(v)'' \<and> \<not> multiple_retvals (sample_get p)"
  by (simp add: sample_get_def constructor_defs started_task_def new_cancellable_def async_zero_def
      trim_def)

theorem signalled_value_is_read_witness:
  "\<exists>t1 t2. dld_device_get_prop (fst (prv_bm_device_status_cb glib_ref ''OK'' (sample_device [])))
              (sample_get ''StatusInfo'') = Some (t1, [Idle_add]) \<and>
     dld_async_task_complete t1 =
       Some (t2, [Return_response 6 (Some (GTuple [GVariant (gv_strings [''OK''])])), Task_completed])"
proof -
  have pieces: "comma_pieces glib_ref ''OK'' = [''OK'']"
    by (simp add: comma_pieces_def trim_def glib_ref_def)
  let ?cs = "change_and_signal DLD_INTERFACE_PROP_STATUS_INFO (gv_strings [''OK'']) (sample_device [])"
  have ev: "prv_bm_device_status_cb glib_ref ''OK'' (sample_device []) = (fst ?cs, snd ?cs)"
    by (simp add: prv_bm_device_status_cb_def pieces del: change_and_signal_simps)
  note sig = ev [unfolded change_and_signal_simps(2)]
  have "trim (g_ascii_isspace glib_ref) ''StatusInfo'' = ''StatusInfo''"
    by (simp add: trim_def glib_ref_def)
  from sample_get_started [OF this] obtain a where st: "started_task 6 (sample_get ''StatusInfo'') a"
    and t: "task_ut (sample_get ''StatusInfo'') = Ut_get_prop '''' DLD_INTERFACE_PROP_STATUS_INFO"
      "result_format (sample_get ''StatusInfo'') = Some ''(v)''"
      "\<not> multiple_retvals (sample_get ''StatusInfo'')"
    by (auto simp: name_defs)
  from signalled_value_is_read [OF sig st t(1) _ t(2,3)] show ?thesis
    by (simp add: is_device_interface_def ev)
qed

text \<open>C30: Get on a device answers with the value of the property, with UNKNOWN_PROPERTY when the
  device has none under that name, and with UNKNOWN_INTERFACE for any interface other than the
  device's and the empty name; in every case the completion is scheduled once.\<close>

theorem get_prop_answers:
  assumes "started_task m t a" and "task_ut t = Ut_get_prop i p"
    and "result_format t = Some ''(v)''" and "\<not> multiple_retvals t"
  shows "\<exists>t' t'' rep. dld_device_get_prop d t = Some (t', [Idle_add]) \<and>
     dld_async_task_complete t' = Some (t'', [rep, Task_completed]) \<and>
     (i \<noteq> DLEYNA_DIAGNOSTICS_INTERFACE_DEVICE \<and> i \<noteq> '''' \<longrightarrow>
        rep = Return_error m (GError DLEYNA_ERROR_UNKNOWN_INTERFACE ''Unknown Interface'')) \<and>
     (i = DLEYNA_DIAGNOSTICS_INTERFACE_DEVICE \<or> i = '''' \<longrightarrow>
        rep = (case map_of (dev_props d) p of
                 Some (Some v) \<Rightarrow> Return_response m (Some (GTuple [GVariant v]))
               | _ \<Rightarrow> Return_error m (GError DLEYNA_ERROR_UNKNOWN_PROPERTY
                        ''Property not defined for object'')))"
proof -
  obtain t' eff where g: "dld_device_get_prop d t = Some (t', eff)"
    using get_prop_defined [OF assms(2)] by blast
  from get_prop_reply [OF assms g] g show ?thesis
    by (auto simp: is_device_interface_def device_property_def split: option.splits if_splits)
qed

theorem get_prop_answers_witness:
  "\<exists>t' t''. dld_device_get_prop (sample_device []) (sample_get ''X'') = Some (t', [Idle_add]) \<and>
     dld_async_task_complete t' = Some (t'',
       [Return_error 6 (GError DLEYNA_ERROR_UNKNOWN_PROPERTY ''Property not defined for object''),
        Task_completed])"
proof -
  have "trim (g_ascii_isspace glib_ref) ''X'' = ''X''" by (simp add: trim_def glib_ref_def)
  from sample_get_started [OF this] obtain a where "started_task 6 (sample_get ''X'') a"
    "task_ut (sample_get ''X'') = Ut_get_prop '''' ''X''"
    "result_format (sample_get ''X'') = Some ''(v)''" "\<not> multiple_retvals (sample_get ''X'')"
    by auto
  from get_prop_answers [OF this, of "sample_device []"] show ?thesis
    by (auto simp: sample_device_def)
qed

text \<open>C31: GetAll and Get of a device agree. Both are run by their handlers and completed: GetAll is
  answered with a dictionary whose names are those in the device's table, and a Get of any name is
  answered with the value that the dictionary holds under that name, in a variant, and with
  UNKNOWN_PROPERTY if the dictionary does not have the name. Either call may name the device interface
  or leave the interface empty. GetAll must be defined, which it is if no value of the table is NULL.\<close>

theorem get_all_agrees_with_get:
  assumes "started_task m t a" and "task_ut t = Ut_get_props i" and "is_device_interface i"
    and "result_format t = Some ''(@a{sv})''" and "\<not> multiple_retvals t"
    and "dld_device_get_all_props d t = Some (t', eff)"
    and "started_task n u b" and "task_ut u = Ut_get_prop j p" and "is_device_interface j"
    and "result_format u = Some ''(v)''" and "\<not> multiple_retvals u"
  shows "\<exists>kvs t'' u' u''. eff = [Idle_add] \<and>
     dld_async_task_complete t' =
       Some (t'', [Return_response m (Some (GTuple [gv_vardict kvs])), Task_completed]) \<and>
     map fst kvs = map fst (dev_props d) \<and>
     dld_device_get_prop d u = Some (u', [Idle_add]) \<and>
     dld_async_task_complete u' = Some (u'',
       [(case map_of kvs p of
           Some v \<Rightarrow> Return_response n (Some (GTuple [GVariant v]))
         | None \<Rightarrow> Return_error n (GError DLEYNA_ERROR_UNKNOWN_PROPERTY ''Property not defined for object'')),
        Task_completed])"
proof -
  obtain kvs where kvs: "prv_add_props (dev_props d) = Some kvs"
    and t': "t' = (set_cb (Some (dev_ref d)) t)\<lparr>task_result := Some (gv_vardict kvs)\<rparr>" and eff: "eff = [Idle_add]"
    using assms(2,3,6) by (auto simp: dld_device_get_all_props_def prv_get_props_def)
  have all: "\<exists>t''. dld_async_task_complete t' =
      Some (t'', [Return_response m (Some (GTuple [gv_vardict kvs])), Task_completed])"
    using assms(1,4,5)
    by (simp add: t' started_task_def dld_async_task_complete_def prv_async_task_complete_def
        dld_task_complete_def g_variant_new_fmt_def gv_vardict_def)
  have v: "device_property d p = map_of kvs p"
    using add_props_lookup [OF kvs, of p] by (cases "map_of kvs p") (auto simp: device_property_def)
  obtain u' eff' where g: "dld_device_get_prop d u = Some (u', eff')" using get_prop_defined [OF assms(8)] by blast
  from get_prop_reply [OF assms(7,8,10,11) g] g assms(9) v kvs eff all show ?thesis
    by (auto simp: add_props_Some split: option.splits)
qed

definition sample_get_all :: dld_task where
  "sample_get_all = new_cancellable (the (dld_task_get_props_new glib_ref 7 ''/p/0'' (GTuple [GString ''''])))"

lemma sample_get_all_started:
  "(\<exists>a. started_task 7 sample_get_all a) \<and> task_ut sample_get_all = Ut_get_props '''' \<and>
     result_format sample_get_all = Some ''(@a{sv})'' \<and> \<not> multiple_retvals sample_get_all"
  by (simp add: sample_get_all_def constructor_defs started_task_def new_cancellable_def async_zero_def trim_def)

theorem get_all_agrees_with_get_witness:
  "\<exists>d v t' t'' u' u''. dld_device_get_all_props d sample_get_all = Some (t', [Idle_add]) \<and>
     dld_async_task_complete t' =
       Some (t'', [Return_response 7 (Some (GTuple [gv_vardict [(''StatusInfo'', v)]])), Task_completed]) \<and>
     dld_device_get_prop d (sample_get ''StatusInfo'') = Some (u', [Idle_add]) \<and>
     dld_async_task_complete u' =
       Some (u'', [Return_response 6 (Some (GTuple [GVariant v])), Task_completed])"
proof -
  let ?d = "fst (prv_bm_device_status_cb glib_ref ''OK'' (sample_device []))"
  have props: "dev_props ?d = [(''StatusInfo'', Some (gv_strings (comma_pieces glib_ref ''OK'')))]"
    by (simp add: prv_bm_device_status_cb_def change_and_signal_def prv_change_props_def
        sample_device_def name_defs)
  have dev: "is_device_interface ''''" by (simp add: is_device_interface_def)
  obtain a where t: "started_task 7 sample_get_all a" "task_ut sample_get_all = Ut_get_props ''''"
    "result_format sample_get_all = Some ''(@a{sv})''" "\<not> multiple_retvals sample_get_all"
    using sample_get_all_started by blast
  obtain t' eff where g: "dld_device_get_all_props ?d sample_get_all = Some (t', eff)"
    using dev by (simp add: dld_device_get_all_props_def prv_get_props_def props t(2))
  have "trim (g_ascii_isspace glib_ref) ''StatusInfo'' = ''StatusInfo''" by (simp add: trim_def glib_ref_def)
  from sample_get_started [OF this] obtain b where u: "started_task 6 (sample_get ''StatusInfo'') b"
    "task_ut (sample_get ''StatusInfo'') = Ut_get_prop '''' ''StatusInfo''"
    "result_format (sample_get ''StatusInfo'') = Some ''(v)''" "\<not> multiple_retvals (sample_get ''StatusInfo'')"
    by auto
  from get_all_agrees_with_get [OF t(1,2) dev t(3,4) g u(1,2) dev u(3,4)] obtain kvs t'' u' u'' where
    r: "eff = [Idle_add]" "dld_async_task_complete t' =
       Some (t'', [Return_response 7 (Some (GTuple [gv_vardict kvs])), Task_completed])"
    "map fst kvs = [''StatusInfo'']" "dld_device_get_prop ?d (sample_get ''StatusInfo'') = Some (u', [Idle_add])"
    "dld_async_task_complete u' = Some (u'',
       [(case map_of kvs ''StatusInfo'' of
           Some v \<Rightarrow> Return_response 6 (Some (GTuple [GVariant v]))
         | None \<Rightarrow> Return_error 6 (GError DLEYNA_ERROR_UNKNOWN_PROPERTY ''Property not defined for object'')),
        Task_completed])"
    by (auto simp: props)
  from r(3) obtain v where kvs: "kvs = [(''StatusInfo'', v)]" by (auto simp: map_eq_Cons_conv)
  show ?thesis
    by (intro exI [of _ ?d] exI [of _ v] exI [of _ t'] exI [of _ t''] exI [of _ u'] exI [of _ u''])
      (use g r kvs in simp)
qed


definition sample_answer :: end_action where
  "sample_answer =
     \<lparr>end_ok = True, end_error = None, end_strings = (\<lambda>_. None),
      end_uints = (\<lambda>name. if name = ''TestID'' then Some 3 else None)\<rparr>"

definition sample_ping :: "dld_task option" where
  "sample_ping = action_task_new glib_ref DLD_TASK_PING 6 ''/p/0''
     (GTuple [GString ''h'', GUint 1, GUint 2, GUint 3, GUint 4])"

lemma sample_ping_eq:
  "sample_ping = Some ((prv_device_task_new glib_ref DLD_TASK_PING 6 ''/p/0'' (Some ''(@u)''))
     \<lparr>task_ut := Ut_ping ''h'' 1 2 3 4\<rparr>)"
  by (simp add: sample_ping_def action_task_new_def dld_task_ping_new_def)


text \<open>C36: The parameters of the three calls that start a test reach the device unchanged, each as the
  input argument of the action that the service defines for it, on the proxy of the preferred
  context.\<close>

theorem test_parameters_forwarded:
  assumes "dld_device_get_context d = Some i" and "bms_proxy (dev_contexts d ! i) = Some p"
  shows "(\<exists>t t'. dld_task_ping_new gl m path (GTuple [GString host, GUint a, GUint b, GUint c, GUint e]) = Some t \<and>
            dld_device_ping d (new_cancellable t) = Some (t', [Cancellable_connect,
              Begin_action (Some p) ''Ping'' [(''Host'', GString host), (''NumberOfRepetitions'', GUint a),
                (''Timeout'', GUint b), (''DataBlockSize'', GUint c), (''DSCP'', GUint e)]])) \<and>
         (\<exists>t t'. dld_task_nslookup_new gl m path (GTuple [GString host, GString dns, GUint a, GUint b]) = Some t \<and>
            dld_device_nslookup d (new_cancellable t) = Some (t', [Cancellable_connect,
              Begin_action (Some p) ''NSLookup'' [(''HostName'', GString host), (''DNSServer'', GString dns),
                (''NumberOfRepetitions'', GUint a), (''Timeout'', GUint b)]])) \<and>
         (\<exists>t t'. dld_task_traceroute_new gl m path (GTuple [GString host, GUint a, GUint b, GUint c, GUint e]) = Some t \<and>
            dld_device_traceroute d (new_cancellable t) = Some (t', [Cancellable_connect,
              Begin_action (Some p) ''Traceroute'' [(''Host'', GString host), (''Timeout'', GUint a),
                (''DataBlockSize'', GUint b), (''MaxHopCount'', GUint c), (''DSCP'', GUint e)]]))"
  using assms
  by (simp add: constructor_defs dld_device_ping_def dld_device_nslookup_def dld_device_traceroute_def
      begin_action_def new_cancellable_def upd_async_def set_cb_def async_zero_def g_cancellable_connect_def)

theorem test_parameters_forwarded_witness:
  "\<exists>t t'. dld_task_nslookup_new glib_ref 6 ''/p/0'' (GTuple [GString ''h'', GString ''s'', GUint 1, GUint 2]) = Some t \<and>
     dld_device_nslookup (sample_device [sample_context 2 ''10.0.0.1'']) (new_cancellable t) =
       Some (t', [Cancellable_connect, Begin_action (Some 7) ''NSLookup''
         [(''HostName'', GString ''h''), (''DNSServer'', GString ''s''),
          (''NumberOfRepetitions'', GUint 1), (''Timeout'', GUint 2)]])"
proof -
  let ?d = "sample_device [sample_context 2 ''10.0.0.1'']"
  have "dld_device_get_context ?d = Some 0" "bms_proxy (dev_contexts ?d ! 0) = Some 7"
    by (simp_all add: sample_defs get_context_preferred preferred_def local_address_def)
  from test_parameters_forwarded [OF this] show ?thesis by blast
qed

text \<open>C37: The result of a ping is complete or an error: the counters and times the device sent are
  returned as they are when the action succeeded and sent all seven values, and the call fails
  with the device's message, or ''Invalid result'', as soon as one is missing - or when a number
  is the largest of its type, which the code takes for a missing one.\<close>

theorem ping_result_complete:
  assumes "task_async t = Some a" and "prv_get_ping_result_cb r t = (t', eff)"
  shows "(if end_ok r \<and> end_strings r ''Status'' \<noteq> None \<and> end_strings r ''AdditionalInfo'' \<noteq> None \<and>
             (\<forall>name \<in> set [''SuccessCount'', ''FailureCount'', ''AverageResponseTime'',
                  ''MinimumResponseTime'', ''MaximumResponseTime''].
                \<exists>n. end_uints r name = Some n \<and> n \<noteq> G_MAXUINT32)
          then task_result t' = Some (GTuple
                 (map (GString \<circ> the \<circ> end_strings r) [''Status'', ''AdditionalInfo''] @
                  map (GUint \<circ> the \<circ> end_uints r) [''SuccessCount'', ''FailureCount'',
                    ''AverageResponseTime'', ''MinimumResponseTime'', ''MaximumResponseTime'']))
          else task_result t' = task_result t \<and>
               (\<exists>a'. task_async t' = Some a' \<and>
                  async_error a' = Some (GError DLEYNA_ERROR_OPERATION_FAILED
                    (''Ping operation failed: '' @
                     (case end_error r of Some msg \<Rightarrow> msg | None \<Rightarrow> ''Invalid result'')))))"
proof -
  have out: "(\<exists>n. end_uints r name = Some n \<and> n \<noteq> G_MAXUINT32) \<longleftrightarrow> out_uint r name \<noteq> G_MAXUINT32"
    "out_uint r name \<noteq> G_MAXUINT32 \<Longrightarrow> the (end_uints r name) = out_uint r name" for name
    by (auto simp: out_uint_def split: option.split)
  have t': "t' = fst (prv_get_ping_result_cb r t)" using assms(2) by simp
  show ?thesis
    unfolding out t' prv_get_ping_result_cb_def end_callback_def failed_message_def
    by (cases "end_strings r ''Status''"; cases "end_strings r ''AdditionalInfo''"; cases "end_ok r")
      (simp_all add: assms(1) out(2) Let_def)
qed

theorem ping_result_complete_witness:
  "\<exists>t'. prv_get_ping_result_cb sample_answer (sample_get ''X'') = (t', [Idle_add, Cancellable_disconnect]) \<and>
     (\<exists>a'. task_async t' = Some a' \<and>
        async_error a' = Some (GError DLEYNA_ERROR_OPERATION_FAILED ''Ping operation failed: Invalid result''))"
proof -
  obtain t' where r: "prv_get_ping_result_cb sample_answer (sample_get ''X'') = (t', [Idle_add, Cancellable_disconnect])"
    by (simp add: prv_get_ping_result_cb_def end_callback_def)
  have "trim (g_ascii_isspace glib_ref) ''X'' = ''X''" by (simp add: trim_def glib_ref_def)
  from sample_get_started [OF this] obtain a where "task_async (sample_get ''X'') = Some a"
    by (auto simp: started_task_def)
  from ping_result_complete [OF this r] r show ?thesis by (simp add: sample_answer_def)
qed

text \<open>C28: The answer to a name lookup, whatever document the device sends, is read as follows. A text
  that is not XML, or whose root is not called NSLookupResult, has no results. Otherwise the results
  are the children of the root that are called Result, that have all six fields (each the content of
  the first child of that name) and that keep to 256 characters in the host name and in the
  addresses; every other child is skipped. Each result has the values of its fields, and the list is
  in the reverse of the order in the document.\<close>

theorem nslookup_decode:
  "(parse s = None \<longrightarrow> prv_nslookup_result_decode parse content s = []) \<and>
   (\<forall>name txt children. parse s = Some (Xml name txt children) \<longrightarrow>
      prv_nslookup_result_decode parse content s =
        (if name = Some ''NSLookupResult''
         then rev (map (\<lambda>x. \<lparr>ns_status = the (field_of content ''Status'' x),
                ns_answer_type = the (field_of content ''AnswerType'' x),
                ns_hostname_returned = the (field_of content ''HostNameReturned'' x),
                ns_ip_addresses = the (field_of content ''IPAddresses'' x),
                ns_dns_server_ip = the (field_of content ''DNSServerIP'' x),
                ns_response_time = the (field_of content ''ResponseTime'' x)\<rparr>)
              (filter (complete_result content) children))
         else []))"
proof -
  let ?r = "\<lambda>x. \<lparr>ns_status = the (field_of content ''Status'' x),
      ns_answer_type = the (field_of content ''AnswerType'' x),
      ns_hostname_returned = the (field_of content ''HostNameReturned'' x),
      ns_ip_addresses = the (field_of content ''IPAddresses'' x),
      ns_dns_server_ip = the (field_of content ''DNSServerIP'' x),
      ns_response_time = the (field_of content ''ResponseTime'' x)\<rparr>"
  have "List.map_filter (prv_extract_nslookup_result content) (filter (named ''Result'') (map (\<lambda>c. (c, ps)) cs)) =
      map ?r (filter (complete_result content) cs)" for ps cs
    by (induction cs) (simp_all add: List.map_filter_simps extract_result complete_result_def named_def)
  then show ?thesis
    by (simp add: prv_nslookup_result_decode_def decode_loop_rev child_nodes_def)
qed

text \<open>A document with two results, a result without its fields, an overlong one and an element of another name.\<close>

theorem nslookup_decode_witness:
  "\<exists>r1 r2 doc. map xml_name (xml_children doc) =
      [Some ''Result'', Some ''Result'', Some ''Other'', Some ''Result'', Some ''Result''] \<and>
    prv_nslookup_result_decode (\<lambda>s. Some doc) (\<lambda>x. Some (xml_text x)) ''x'' = [r2, r1] \<and> r1 \<noteq> r2"
proof -
  define r where "r s h = \<lparr>ns_status = s, ns_answer_type = ''A'', ns_hostname_returned = h,
    ns_ip_addresses = ''1.2.3.4'', ns_dns_server_ip = ''1.1.1.1'', ns_response_time = ''7''\<rparr>" for s h
  let ?cs = "[result_node (r ''1'' ''h''), Xml (Some ''Result'') [] [], Xml (Some ''Other'') [] [],
    result_node (r ''2'' (replicate 257 CHR ''x'')), result_node (r ''3'' ''h'')]"
  let ?doc = "Xml (Some ''NSLookupResult'') [] ?cs" and ?content = "\<lambda>x. Some (xml_text x)"
  have "filter (complete_result ?content) ?cs = [result_node (r ''1'' ''h''), result_node (r ''3'' ''h'')]"
    by (auto simp: complete_result_def field_of_def result_node_def r_def)
  with nslookup_decode [of "\<lambda>s. Some ?doc" "''x''" ?content]
  have "prv_nslookup_result_decode (\<lambda>s. Some ?doc) ?content ''x'' = [r ''3'' ''h'', r ''1'' ''h'']"
    by (simp add: field_of_def result_node_def r_def)
  moreover have "r ''1'' ''h'' \<noteq> r ''3'' ''h''" by (simp add: r_def)
  moreover have "map xml_name ?cs = [Some ''Result'', Some ''Result'', Some ''Other'', Some ''Result'', Some ''Result'']"
    by (simp add: result_node_def)
  ultimately show ?thesis by (metis xml.sel(3))
qed

subsection \<open>A missing string\<close>

text \<open>
  A device whose description lacks one of the optional strings has a NULL value in its table of
  properties (when \<open>g_variant_new_string\<close> returns NULL for NULL), and reading all its
  properties is not defined.
\<close>

lemma get_all_missing_string:
  assumes "gv_new_string_null gl = None" and "de_presentation_url (di_descr info) = None"
    and "dld_device_new gl ref ctx info bms ip counter q = Some (d, eff)"
    and "task_ut t = Ut_get_props ''''"
  shows "dld_device_get_all_props d t = None"
proof -
  have "map_of (dev_props d) DLD_INTERFACE_PROP_PRESENTATION_URL = Some None"
    using assms(3)
    by (rule device_newE)
      (simp add: described_props_def prop_name_defs g_variant_new_string_def assms(1,2))
  then have "prv_add_props (dev_props d) = None"
    using add_props_lookup [of "dev_props d" _ DLD_INTERFACE_PROP_PRESENTATION_URL]
    by (cases "prv_add_props (dev_props d)") auto
  then show ?thesis
    using assms(4) by (simp add: dld_device_get_all_props_def prv_get_props_def is_device_interface_def)
qed

end
