(* ===== verification/Async_Run.thy ===== *)
theory Async_Run
  imports Device_Tasks
begin

section \<open>The life of an asynchronous task\<close>

text \<open>
  Once its handler has run, an asynchronous task is driven by the main loop: the device's
  answer or the end of a download, a cancellation by the client or by the loss of the device,
  the destruction of the proxy, and the idle handler that completes the task. The step relation
  below runs the code of \<open>async.c\<close>, \<open>task.c\<close> and \<open>device.c\<close> for each of these. Completing a
  task lets the task processor delete it, so a second completion would be a use after free.
\<close>

subsection \<open>State and steps\<close>

text \<open>
  The task, the number of idle handlers scheduled for it, whether the answer to its action or
  the end of its download is still to come, how often it was completed and the calls made for it.
\<close>

record async_run =
  run_async_task :: dld_task
  run_idles :: nat
  run_action :: bool
  run_message :: bool
  run_done :: nat
  run_log :: "effect list"

abbreviation run_replies :: "async_run \<Rightarrow> msg_id list" where
  "run_replies s \<equiv> replies (run_log s)"

definition idles_in :: "effect list \<Rightarrow> nat" where
  "idles_in eff = length (filter (\<lambda>e. e = Idle_add) eff)"

lemma idles_in_simps [simp]:
  "idles_in [] = 0"
  "idles_in (e # eff) = of_bool (e = Idle_add) + idles_in eff"
  "idles_in (eff1 @ eff2) = idles_in eff1 + idles_in eff2"
  by (simp_all add: idles_in_def)

definition begins_action :: "effect list \<Rightarrow> bool" where
  "begins_action eff \<longleftrightarrow> list_ex (\<lambda>e. case e of Begin_action _ _ _ \<Rightarrow> True | _ \<Rightarrow> False) eff"

definition queues_message :: "effect list \<Rightarrow> bool" where
  "queues_message eff \<longleftrightarrow> list_ex (\<lambda>e. case e of Queue_message _ \<Rightarrow> True | _ \<Rightarrow> False) eff"

lemma starts_simps [simp]:
  "\<not> begins_action []" "\<not> queues_message []"
  "begins_action (Idle_add # eff) = begins_action eff" "queues_message (Idle_add # eff) = queues_message eff"
  "begins_action (eff1 @ eff2) \<longleftrightarrow> begins_action eff1 \<or> begins_action eff2"
  "queues_message (eff1 @ eff2) \<longleftrightarrow> queues_message eff1 \<or> queues_message eff2"
  by (simp_all add: begins_action_def queues_message_def)

definition cancels_action :: "effect list \<Rightarrow> bool" where
  "cancels_action eff \<longleftrightarrow> list_ex (\<lambda>e. case e of Cancel_action _ \<Rightarrow> True | _ \<Rightarrow> False) eff"

definition start_run :: "dld_task \<Rightarrow> effect list \<Rightarrow> async_run" where
  "start_run t eff =
     \<lparr>run_async_task = t, run_idles = idles_in eff, run_action = begins_action eff,
      run_message = queues_message eff, run_done = 0, run_log = eff\<rparr>"

text \<open>
  GUPnP does not call the callback of an action that was cancelled or whose proxy was
  destroyed; libsoup calls it with the status CANCELLED for a cancelled message, and the
  callback then only frees the download.
\<close>

inductive async_step :: "glib \<Rightarrow> async_run \<Rightarrow> async_run \<Rightarrow> bool" for gl where
  answer:
    "run_action s \<Longrightarrow> result_callback gl parse content (task_type (run_async_task s)) = Some cb \<Longrightarrow>
     cb r (run_async_task s) = Some (t', eff) \<Longrightarrow>
     async_step gl s (s\<lparr>run_async_task := t', run_idles := run_idles s + idles_in eff, run_action := False,
                     run_log := run_log s @ eff\<rparr>)"
| downloaded:
    "run_message s \<Longrightarrow> status \<noteq> Soup_cancelled \<Longrightarrow>
     prv_get_icon_session_cb gl status d (run_async_task s) = Some (d', t', eff) \<Longrightarrow>
     async_step gl s (s\<lparr>run_async_task := t', run_idles := run_idles s + idles_in eff, run_message := False,
                     run_log := run_log s @ eff\<rparr>)"
| cancel:
    "dld_task_cancel (run_async_task s) = Some (t', eff) \<Longrightarrow>
     async_step gl s (s\<lparr>run_async_task := t', run_idles := run_idles s + idles_in eff,
                     run_action := (run_action s \<and> \<not> cancels_action eff),
                     run_message := (run_message s \<and> Cancel_message \<notin> set eff),
                     run_log := run_log s @ eff\<rparr>)"
| idle:
    "0 < run_idles s \<Longrightarrow> dld_async_task_complete (run_async_task s) = Some (t', eff) \<Longrightarrow>
     async_step gl s (s\<lparr>run_async_task := t', run_idles := run_idles s - 1, run_done := run_done s + 1,
                     run_log := run_log s @ eff\<rparr>)"
| proxy_destroyed:
    "async_step gl s (s\<lparr>run_async_task := upd_async (\<lambda>a. a\<lparr>async_proxy := None\<rparr>) (run_async_task s),
                     run_action := False\<rparr>)"

inductive_cases async_stepE: "async_step gl s s'"

text \<open>
  What a handler leaves behind: either the completion is scheduled and nothing can cancel it,
  or an action or a download is under way and its cancellation is connected.
\<close>

definition handler_of :: "dld_async \<Rightarrow> cancel_handler option" where
  "handler_of a =
     (case async_cancellable a of
        None \<Rightarrow> None
      | Some c \<Rightarrow> if gc_cancelled c then None else gc_handler c)"

definition well_started :: "msg_id \<Rightarrow> dld_task \<Rightarrow> effect list \<Rightarrow> bool" where
  "well_started m t eff \<longleftrightarrow>
     invocation t = Some m \<and> \<not> synchronous t \<and>
     (\<exists>a. task_async t = Some a \<and> async_cb a \<and>
        (idles_in eff = 1 \<and> \<not> begins_action eff \<and> \<not> queues_message eff \<and> replies eff = [] \<and>
           handler_of a = None \<or>
         (\<exists>p name args. eff = [Cancellable_connect, Begin_action (Some p) name args] \<and>
            handler_of a = Some Dld_async_task_cancelled \<and> async_proxy a = Some p) \<or>
         (\<exists>url. eff = [Cancellable_connect, Queue_message url] \<and>
            handler_of a = Some Prv_get_icon_cancelled)))"

inductive async_reach :: "glib \<Rightarrow> msg_id \<Rightarrow> async_run \<Rightarrow> bool" for gl and m :: msg_id where
  start: "well_started m t eff \<Longrightarrow> async_reach gl m (start_run t eff)"
| step: "async_reach gl m s \<Longrightarrow> async_step gl s s' \<Longrightarrow> async_reach gl m s'"

subsection \<open>Invariant\<close>

definition run_inv :: "msg_id \<Rightarrow> async_run \<Rightarrow> bool" where
  "run_inv m s \<longleftrightarrow>
     \<not> synchronous (run_async_task s) \<and>
     (\<exists>a. task_async (run_async_task s) = Some a \<and> async_cb a \<and>
        run_idles s + run_done s + of_bool (handler_of a \<noteq> None) = 1 \<and>
        (run_action s \<longrightarrow> handler_of a = Some Dld_async_task_cancelled \<and> async_proxy a \<noteq> None) \<and>
        (run_message s \<longrightarrow> handler_of a = Some Prv_get_icon_cancelled)) \<and>
     run_replies s = (if invocation (run_async_task s) = None then [m] else []) \<and>
     (invocation (run_async_task s) = None \<or> invocation (run_async_task s) = Some m) \<and>
     (0 < run_done s \<longrightarrow> invocation (run_async_task s) = None)"

lemma run_inv_start: "well_started m t eff \<Longrightarrow> run_inv m (start_run t eff)"
  by (auto simp: well_started_def run_inv_def start_run_def begins_action_def queues_message_def)

lemma handler_simps [simp]:
  "handler_of (a\<lparr>async_error := e\<rparr>) = handler_of a"
  "handler_of (a\<lparr>async_proxy := p\<rparr>) = handler_of a"
  "handler_of (a\<lparr>async_cb := c\<rparr>) = handler_of a"
  "handler_of (a\<lparr>async_device := dv\<rparr>) = handler_of a"
  "handler_of (a\<lparr>async_action := ac\<rparr>) = handler_of a"
  "handler_of (g_cancellable_disconnect a) = None"
  by (auto simp: handler_of_def g_cancellable_disconnect_def split: option.split)

lemma handler_connected [simp]:
  "handler_of (a\<lparr>async_cancellable := Some \<lparr>gc_cancelled = False, gc_handler = h\<rparr>\<rparr>) = h"
  by (simp add: handler_of_def)

text \<open>Every callback keeps the contract of its action: it ends in \<open>end_callback\<close>.\<close>

lemma callback_contract:
  "result_callback gl parse content type = Some cb \<Longrightarrow> action_result cb (action_format type)"
  using test_info_result.action_result_axioms cancel_test_result.action_result_axioms
    ping_result.action_result_axioms nslookup_result.action_result_axioms
    traceroute_result.action_result_axioms get_ping_result.action_result_axioms
    get_traceroute_result.action_result_axioms get_nslookup_result.action_result_axioms
  by (cases type) (auto simp: result_callback_def)

lemma callback_ends:
  assumes "result_callback gl parse content type = Some cb" and "cb r t = Some (t', eff)"
  obtains outcome where "end_callback outcome t = (t', eff)"
    and "case outcome of
         Inl msg \<Rightarrow> True
       | Inr None \<Rightarrow> fst (action_format type) = None
       | Inr (Some v) \<Rightarrow>
           (\<exists>f. fst (action_format type) = Some f \<and>
              (if snd (action_format type) then take 2 f \<noteq> ''(@'' \<and> gv_type v = f else f = ''(@'' @ gv_type v @ '')''))"
  using action_result.cb_spec [OF callback_contract [OF assms(1)] assms(2)]
  by (elim exE conjE) (rule that, rule sym)

lemma end_callback_frame:
  assumes "end_callback outcome t = (t', eff)" and "task_async t = Some a"
  shows "eff = [Idle_add, Cancellable_disconnect]" and "invocation t' = invocation t"
    and "synchronous t' = synchronous t"
    and "\<exists>a'. task_async t' = Some a' \<and> handler_of a' = None \<and> async_cb a' = async_cb a"
  using assms by (auto simp: end_callback_def split: sum.splits option.splits)

lemma session_cb_frame:
  assumes "prv_get_icon_session_cb gl status d t = Some (d', t', eff)" and "status \<noteq> Soup_cancelled"
    and "task_async t = Some a"
  shows "eff = [Idle_add, Cancellable_disconnect]" and "invocation t' = invocation t"
    and "synchronous t' = synchronous t"
    and "\<exists>a'. task_async t' = Some a' \<and> handler_of a' = None \<and> async_cb a' = async_cb a"
  using assms
  by (auto simp: prv_get_icon_session_cb_def prv_build_icon_result_def Let_def
      split: soup_status.splits)

lemma cancel_frame:
  assumes "dld_task_cancel t = Some (t', eff)" and "task_async t = Some a" and "\<not> synchronous t"
  shows "invocation t' = None" and "synchronous t' = synchronous t"
    and "replies eff = (case invocation t of None \<Rightarrow> [] | Some m \<Rightarrow> [m])"
    and "idles_in eff = of_bool (handler_of a \<noteq> None)"
    and "cancels_action eff \<longleftrightarrow> handler_of a \<noteq> None \<and> async_proxy a \<noteq> None"
    and "Cancel_message \<in> set eff \<longleftrightarrow> handler_of a = Some Prv_get_icon_cancelled"
    and "\<exists>a'. task_async t' = Some a' \<and> handler_of a' = None \<and> async_cb a' = async_cb a \<and>
              async_proxy a' = async_proxy a"
proof -
  show "invocation t' = None" "replies eff = (case invocation t of None \<Rightarrow> [] | Some m \<Rightarrow> [m])"
    using cancelling.act_replies [OF assms(1)] by simp_all
  let ?f = "snd (dld_task_fail (GError DLEYNA_ERROR_CANCELLED ''Operation cancelled.'') t)"
  have fail: "idles_in ?f = 0" "\<not> cancels_action ?f" "Cancel_message \<notin> set ?f"
    by (auto simp: dld_task_fail_def cancels_action_def split: option.split)
  have t': "t' = t\<lparr>invocation := None, task_async := Some (fst (dld_async_task_cancel a))\<rparr>"
    and eff: "eff = ?f @ snd (dld_async_task_cancel a)"
    using assms by (auto simp: cancel_eq Let_def)
  show "synchronous t' = synchronous t" by (simp add: t')
  have step: "idles_in (snd (dld_async_task_cancel a)) = of_bool (handler_of a \<noteq> None) \<and>
     (cancels_action (snd (dld_async_task_cancel a)) \<longleftrightarrow> handler_of a \<noteq> None \<and> async_proxy a \<noteq> None) \<and>
     (Cancel_message \<in> set (snd (dld_async_task_cancel a)) \<longleftrightarrow> handler_of a = Some Prv_get_icon_cancelled) \<and>
     handler_of (fst (dld_async_task_cancel a)) = None \<and>
     async_cb (fst (dld_async_task_cancel a)) = async_cb a \<and>
     async_proxy (fst (dld_async_task_cancel a)) = async_proxy a"
  proof (cases "async_cancellable a")
    case None
    then show ?thesis by (simp add: dld_async_task_cancel_def handler_of_def cancels_action_def)
  next
    case (Some c)
    show ?thesis
    proof (cases "gc_handler c")
      case None
      with Some show ?thesis
        by (simp add: dld_async_task_cancel_def g_cancellable_cancel_def handler_of_def cancels_action_def)
    next
      case (Some h)
      with \<open>async_cancellable a = Some c\<close> show ?thesis
        by (cases h)
          (simp_all add: dld_async_task_cancel_def g_cancellable_cancel_def handler_of_def
            cancels_action_def dld_async_task_cancelled_def prv_get_icon_cancelled_def Let_def)
    qed
  qed
  have app: "cancels_action (e1 @ e2) \<longleftrightarrow> cancels_action e1 \<or> cancels_action e2" for e1 e2
    by (simp add: cancels_action_def)
  from step fail show "idles_in eff = of_bool (handler_of a \<noteq> None)"
    "cancels_action eff \<longleftrightarrow> handler_of a \<noteq> None \<and> async_proxy a \<noteq> None"
    "Cancel_message \<in> set eff \<longleftrightarrow> handler_of a = Some Prv_get_icon_cancelled"
    "\<exists>a'. task_async t' = Some a' \<and> handler_of a' = None \<and> async_cb a' = async_cb a \<and>
          async_proxy a' = async_proxy a"
    by (simp_all add: eff t' app)
qed

lemma async_complete_frame:
  assumes "dld_async_task_complete t = Some (t', eff)"
  shows "invocation t' = None" and "synchronous t' = synchronous t" and "task_async t' = task_async t"
    and "replies eff = (case invocation t of None \<Rightarrow> [] | Some m \<Rightarrow> [m])"
proof -
  show "invocation t' = None" "replies eff = (case invocation t of None \<Rightarrow> [] | Some m \<Rightarrow> [m])"
    using async_completing.act_replies [OF assms] by simp_all
  have "t' = t\<lparr>invocation := None\<rparr>"
    using assms fail_frame
    by (auto simp: dld_async_task_complete_def prv_async_task_complete_def
        dest: complete_frame split: option.splits if_splits) (metis fst_conv)+
  then show "synchronous t' = synchronous t" "task_async t' = task_async t" by simp_all
qed

lemma run_inv_step:
  assumes "run_inv m s" and "async_step gl s s'"
  shows "run_inv m s'"
  using assms(2)
proof cases
  case (answer parse content cb r t' eff)
  obtain outcome where "end_callback outcome (run_async_task s) = (t', eff)"
    by (rule callback_ends [OF answer(3,4)])
  note end_frame = end_callback_frame [OF this]
  from assms(1) obtain a where a: "task_async (run_async_task s) = Some a" "async_cb a"
    "handler_of a \<noteq> None" "run_idles s + run_done s = 0" "\<not> run_message s"
    using answer(2) by (auto simp: run_inv_def)
  with assms(1) answer end_frame [OF a(1)] show ?thesis
    by (auto simp: run_inv_def)
next
  case (downloaded status d d' t' eff)
  from assms(1) obtain a where a: "task_async (run_async_task s) = Some a" "async_cb a"
    "handler_of a \<noteq> None" "run_idles s + run_done s = 0" "\<not> run_action s"
    using downloaded(2) by (auto simp: run_inv_def)
  with assms(1) downloaded session_cb_frame [OF downloaded(4,3) a(1)] show ?thesis
    by (auto simp: run_inv_def)
next
  case (cancel t' eff)
  from assms(1) obtain a where a: "task_async (run_async_task s) = Some a" "\<not> synchronous (run_async_task s)"
    by (auto simp: run_inv_def)
  with assms(1) cancel cancel_frame [OF cancel(2) a] show ?thesis
    by (auto simp: run_inv_def split: option.splits)
next
  case (idle t' eff)
  with assms(1) async_complete_frame [OF idle(3)] show ?thesis
    by (auto simp: run_inv_def split: option.splits)
next
  case proxy_destroyed
  with assms(1) show ?thesis by (auto simp: run_inv_def)
qed

lemma run_inv_reach: "async_reach gl m s \<Longrightarrow> run_inv m s"
  by (induction rule: async_reach.induct) (auto intro: run_inv_start run_inv_step)

subsection \<open>The handlers start well\<close>

text \<open>The contract of a handler of an asynchronous task.\<close>

locale async_start =
  fixes handler :: "dld_task \<Rightarrow> (dld_task \<times> effect list) option"
  assumes starts: "started_task m t a \<Longrightarrow> handler t = Some (t', eff) \<Longrightarrow> well_started m t' eff"
begin

lemma handler_reach:
  "started_task m t a \<Longrightarrow> handler t = Some (t', eff) \<Longrightarrow> async_reach gl m (start_run t' eff)"
  by (rule async_reach.start) (rule starts)

end

lemma started_handler: "started_task m t a \<Longrightarrow> handler_of a = None"
  by (simp add: started_task_def handler_of_def)

interpretation getting_prop: async_start "dld_device_get_prop d" for d
proof
  fix m t a t' eff assume st: "started_task m t a" and g: "dld_device_get_prop d t = Some (t', eff)"
  then show "well_started m t' eff"
    using started_handler [OF st]
    by (auto simp: dld_device_get_prop_def prv_get_prop_def started_task_def well_started_def
        has_error_def split: task_ut.splits option.splits if_splits)
qed

interpretation getting_all_props: async_start "dld_device_get_all_props d" for d
proof
  fix m t a t' eff assume st: "started_task m t a" and g: "dld_device_get_all_props d t = Some (t', eff)"
  then show "well_started m t' eff"
    using started_handler [OF st]
    by (auto simp: dld_device_get_all_props_def prv_get_props_def started_task_def well_started_def
        split: task_ut.splits if_splits)
qed

interpretation acting: async_start "device_action type d" for type d
proof
  fix m t a t' eff assume st: "started_task m t a" and g: "device_action type d t = Some (t', eff)"
  from device_action_begins [OF g] obtain name args where
    b: "begin_action name args d t = Some (t', eff)" .
  from b st show "well_started m t' eff"
    by (rule begin_actionE) (use st in \<open>simp add: well_started_def started_task_def handler_of_def\<close>)
qed

interpretation getting_icon:
  async_start "\<lambda>t. map_option snd (dld_device_get_icon gl msg_new d t)" for gl msg_new d
proof
  fix m t a t' eff assume st: "started_task m t a"
    and g: "map_option snd (dld_device_get_icon gl msg_new d t) = Some (t', eff)"
  then show "well_started m t' eff"
    using started_handler [OF st]
    by (auto simp: dld_device_get_icon_def prv_build_icon_result_def started_task_def well_started_def
        g_cancellable_connect_def Let_def split: option.splits if_splits)
qed

subsection \<open>Properties\<close>

text \<open>C11: Whatever the order in which the answer, the end of a download, cancellations, the loss of the
  proxy and the idle handlers happen, an asynchronous task is completed at most once; once it is
  completed nothing that refers to it is left behind - no idle handler, no action, no download -
  and its caller has received exactly one reply; before that it has received at most one.\<close>

theorem task_completed_once:
  assumes "async_reach gl m s"
  shows "run_done s \<le> 1 \<and> run_idles s + run_done s \<le> 1 \<and>
         (run_done s = 1 \<longrightarrow> run_idles s = 0 \<and> \<not> run_action s \<and> \<not> run_message s \<and> run_replies s = [m]) \<and>
         (run_replies s = [] \<or> run_replies s = [m])"
  using run_inv_reach [OF assms] by (auto simp: run_inv_def)

theorem task_completed_once_witness:
  "\<exists>t t' eff.
     dld_device_get_prop (sample_device []) t = Some (t', eff) \<and> async_reach glib_ref 6 (start_run t' eff) \<and>
     run_idles (start_run t' eff) = 1"
proof -
  have "trim (g_ascii_isspace glib_ref) ''X'' = ''X''" by (simp add: trim_def glib_ref_def)
  from sample_get_started [OF this] obtain a where st: "started_task 6 (sample_get ''X'') a"
    and ut: "task_ut (sample_get ''X'') = Ut_get_prop '''' ''X''" by auto
  from get_prop_defined [OF ut] obtain t' eff where
    g: "dld_device_get_prop (sample_device []) (sample_get ''X'') = Some (t', eff)" by blast
  note reach = getting_prop.handler_reach [OF st g]
  have "eff = [Idle_add]" using g by (auto simp: dld_device_get_prop_def)
  then have "0 < run_idles (start_run t' eff)" by (simp add: start_run_def)
  with task_completed_once [OF reach] have "run_idles (start_run t' eff) = 1" by simp
  with g reach show ?thesis by blast
qed

text \<open>No asynchronous task can hang beyond its cancellation: as long as it is not completed,
  either its completion is scheduled, or it waits for an answer or a download and cancelling it
  (as the loss of its device and that of its client do) schedules the completion, after which
  neither the answer nor the download can schedule another.\<close>

theorem cancel_completes:
  assumes "async_reach gl m s" and "run_done s = 0"
  shows "run_idles s = 1 \<or>
         (\<exists>s'. async_step gl s s' \<and> run_idles s' = 1 \<and> \<not> run_action s' \<and> \<not> run_message s' \<and>
            run_replies s' = [m])"
proof (cases "run_idles s = 1")
  case False
  from run_inv_reach [OF assms(1)] obtain a where
    a: "task_async (run_async_task s) = Some a" "\<not> synchronous (run_async_task s)"
    and one: "run_idles s + run_done s + of_bool (handler_of a \<noteq> None) = 1"
    and act: "run_action s \<Longrightarrow> async_proxy a \<noteq> None"
      "run_message s \<Longrightarrow> handler_of a = Some Prv_get_icon_cancelled"
    and rep: "run_replies s = (if invocation (run_async_task s) = None then [m] else [])"
      "invocation (run_async_task s) = None \<or> invocation (run_async_task s) = Some m"
    by (auto simp: run_inv_def)
  have w: "run_idles s = 0" "handler_of a \<noteq> None"
    using one assms(2) False by (cases "handler_of a"; simp)+
  obtain t' eff where c: "dld_task_cancel (run_async_task s) = Some (t', eff)"
    using a(1,2) by (simp add: cancel_eq Let_def)
  from async_step.cancel [OF c] cancel_frame [OF c a(1,2)] w act rep show ?thesis
    by (intro disjI2 exI [of _ "s\<lparr>run_async_task := t', run_idles := run_idles s + idles_in eff,
        run_action := (run_action s \<and> \<not> cancels_action eff),
        run_message := (run_message s \<and> Cancel_message \<notin> set eff),
        run_log := run_log s @ eff\<rparr>"]) auto
qed simp

theorem cancel_completes_witness:
  "\<exists>t0 t1 eff1 s'. sample_ping = Some t0 \<and>
     device_action DLD_TASK_PING (sample_device [sample_context 2 ''10.0.0.1'']) (new_cancellable t0) =
       Some (t1, eff1) \<and>
     async_step glib_ref (start_run t1 eff1) s' \<and> run_idles s' = 1 \<and> run_replies s' = [6]"
proof -
  let ?d = "sample_device [sample_context 2 ''10.0.0.1'']"
  obtain t0 where t0: "sample_ping = Some t0" "task_ut t0 = Ut_ping ''h'' 1 2 3 4"
    by (simp add: sample_ping_eq)
  from action_task_started(1) [OF t0(1) [unfolded sample_ping_def]] obtain a where
    st: "started_task 6 (new_cancellable t0) a" by blast
  have ctx: "dld_device_get_context ?d = Some 0" "bms_proxy (dev_contexts ?d ! 0) = Some 7"
    by (simp_all add: sample_defs get_context_preferred preferred_def local_address_def)
  have "task_ut (new_cancellable t0) = Ut_ping ''h'' 1 2 3 4"
    using t0(2) by (simp add: new_cancellable_def)
  with begin_action_defined [OF st ctx(1)] ctx(2) obtain t1 eff1 where
    act: "device_action DLD_TASK_PING ?d (new_cancellable t0) = Some (t1, eff1)"
    by (fastforce simp: device_action_def dld_device_ping_def)
  note reach = acting.handler_reach [OF st act]
  from device_action_begins [OF act] obtain name args where
    "begin_action name args ?d (new_cancellable t0) = Some (t1, eff1)" .
  then have "idles_in eff1 = 0" using st by (rule begin_actionE) simp
  then have "run_idles (start_run t1 eff1) = 0" "run_done (start_run t1 eff1) = 0"
    by (simp_all add: start_run_def)
  with cancel_completes [OF reach [of glib_ref]] t0(1) act show ?thesis by auto
qed

end
