(* ===== verification/Manager.thy ===== *)
theory Manager
  imports Async_Run
begin

section \<open>manager.c: the settings of the service\<close>

text \<open>
  The Manager interface exposes three settings as properties: whether the service stays alive without
  clients, whether the white list of network interfaces is enabled, and its entries. The settings
  themselves, a file, belong to the core library and are parameters here.
\<close>

subsection \<open>The settings of the core library\<close>

record 'st settings_ops =
  dleyna_settings_is_never_quit :: "'st \<Rightarrow> bool"
  dleyna_settings_is_white_list_enabled :: "'st \<Rightarrow> bool"
  dleyna_settings_white_list_entries :: "'st \<Rightarrow> gvariant option"
  dleyna_settings_set_never_quit :: "'st \<Rightarrow> bool \<Rightarrow> 'st \<times> gerror option"
  dleyna_settings_set_white_list_enabled :: "'st \<Rightarrow> bool \<Rightarrow> 'st \<times> gerror option"
  dleyna_settings_set_white_list_entries :: "'st \<Rightarrow> gvariant \<Rightarrow> 'st \<times> gerror option"

text \<open>
  Their documented behaviour: a setter that reports no error stores the value and leaves the other
  settings alone.
\<close>

definition settings_doc :: "'st settings_ops \<Rightarrow> bool" where
  "settings_doc ops \<longleftrightarrow>
     (\<forall>st v st'. dleyna_settings_set_never_quit ops st v = (st', None) \<longrightarrow>
        dleyna_settings_is_never_quit ops st' = v \<and>
        dleyna_settings_is_white_list_enabled ops st' = dleyna_settings_is_white_list_enabled ops st \<and>
        dleyna_settings_white_list_entries ops st' = dleyna_settings_white_list_entries ops st) \<and>
     (\<forall>st v st'. dleyna_settings_set_white_list_enabled ops st v = (st', None) \<longrightarrow>
        dleyna_settings_is_white_list_enabled ops st' = v \<and>
        dleyna_settings_is_never_quit ops st' = dleyna_settings_is_never_quit ops st \<and>
        dleyna_settings_white_list_entries ops st' = dleyna_settings_white_list_entries ops st) \<and>
     (\<forall>st v st'. dleyna_settings_set_white_list_entries ops st v = (st', None) \<longrightarrow>
        dleyna_settings_white_list_entries ops st' = Some v \<and>
        dleyna_settings_is_never_quit ops st' = dleyna_settings_is_never_quit ops st \<and>
        dleyna_settings_is_white_list_enabled ops st' = dleyna_settings_is_white_list_enabled ops st)"

subsection \<open>Reading\<close>

definition prv_build_wl_entries :: "'st settings_ops \<Rightarrow> 'st \<Rightarrow> gvariant" where
  "prv_build_wl_entries ops st =
     (case dleyna_settings_white_list_entries ops st of
        None \<Rightarrow> gv_strings []
      | Some result \<Rightarrow> result)"

definition prv_add_all_props :: "'st settings_ops \<Rightarrow> 'st \<Rightarrow> (string \<times> gvariant) list" where
  "prv_add_all_props ops st =
     [(DLD_INTERFACE_PROP_NEVER_QUIT, GBool (dleyna_settings_is_never_quit ops st)),
      (DLD_INTERFACE_PROP_WHITE_LIST_ENABLED, GBool (dleyna_settings_is_white_list_enabled ops st)),
      (DLD_INTERFACE_PROP_WHITE_LIST_ENTRIES, prv_build_wl_entries ops st)]"

text \<open>\<open>prv_get_prop\<close> of \<open>manager.c\<close>.\<close>

definition prv_manager_get_prop :: "'st settings_ops \<Rightarrow> 'st \<Rightarrow> string \<Rightarrow> gvariant option" where
  "prv_manager_get_prop ops st name =
     (if name = DLD_INTERFACE_PROP_NEVER_QUIT
      then Some (GBool (dleyna_settings_is_never_quit ops st))
      else if name = DLD_INTERFACE_PROP_WHITE_LIST_ENABLED
      then Some (GBool (dleyna_settings_is_white_list_enabled ops st))
      else if name = DLD_INTERFACE_PROP_WHITE_LIST_ENTRIES
      then Some (prv_build_wl_entries ops st)
      else None)"

definition is_manager_interface :: "string \<Rightarrow> bool" where
  "is_manager_interface i \<longleftrightarrow> i = DLEYNA_DIAGNOSTICS_INTERFACE_MANAGER \<or> i = ''''"

text \<open>\<open>cb_data->cb = cb;\<close>\<close>

definition set_manager_cb :: "dld_task \<Rightarrow> dld_task" where
  "set_manager_cb = upd_async (\<lambda>a. a\<lparr>async_cb := True\<rparr>)"

definition dld_manager_get_all_props ::
  "'st settings_ops \<Rightarrow> 'st \<Rightarrow> dld_task \<Rightarrow> (dld_task \<times> effect list) option" where
  "dld_manager_get_all_props ops settings t =
     (case task_ut t of
        Ut_get_props i_name \<Rightarrow>
          let t1 = set_manager_cb t
          in Some
               ((if is_manager_interface i_name
                 then t1\<lparr>task_result := Some (gv_vardict (prv_add_all_props ops settings))\<rparr>
                 else set_error DLEYNA_ERROR_UNKNOWN_INTERFACE ''Interface is unknown.'' t1),
                [Idle_add])
      | _ \<Rightarrow> None)"

definition dld_manager_get_prop ::
  "'st settings_ops \<Rightarrow> 'st \<Rightarrow> dld_task \<Rightarrow> (dld_task \<times> effect list) option" where
  "dld_manager_get_prop ops settings t =
     (case task_ut t of
        Ut_get_prop i_name name \<Rightarrow>
          let t1 = set_manager_cb t
          in Some
               ((if is_manager_interface i_name
                 then (let t2 = t1\<lparr>task_result := prv_manager_get_prop ops settings name\<rparr>
                       in if task_result t2 = None
                          then set_error DLEYNA_ERROR_UNKNOWN_PROPERTY ''Unknown property'' t2
                          else t2)
                 else set_error DLEYNA_ERROR_UNKNOWN_INTERFACE ''Interface is unknown.'' t1),
                [Idle_add])
      | _ \<Rightarrow> None)"

subsection \<open>Writing\<close>

definition prv_wl_notify_prop :: "string \<Rightarrow> gvariant \<Rightarrow> effect list" where
  "prv_wl_notify_prop prop_name prop_val =
     [Notify DLEYNA_DIAGNOSTICS_OBJECT DLD_INTERFACE_PROPERTIES DLD_INTERFACE_PROPERTIES_CHANGED
        (GTuple [GString DLEYNA_DIAGNOSTICS_INTERFACE_MANAGER, gv_vardict [(prop_name, prop_val)],
                 gv_strings []])]"

text \<open>A setter returns the settings, the error it reports and the calls it makes.\<close>

definition prv_set_prop_never_quit ::
  "'st settings_ops \<Rightarrow> bool \<Rightarrow> 'st \<Rightarrow> 'st \<times> gerror option \<times> effect list" where
  "prv_set_prop_never_quit ops never_quit settings =
     (if dleyna_settings_is_never_quit ops settings = never_quit then (settings, None, [])
      else (let (st, error) = dleyna_settings_set_never_quit ops settings never_quit
            in (st, error,
                if error = None
                then prv_wl_notify_prop DLD_INTERFACE_PROP_NEVER_QUIT (GBool never_quit) else [])))"

definition prv_set_prop_wl_enabled ::
  "'st settings_ops \<Rightarrow> bool \<Rightarrow> 'st \<Rightarrow> 'st \<times> gerror option \<times> effect list" where
  "prv_set_prop_wl_enabled ops enabled settings =
     (if dleyna_settings_is_white_list_enabled ops settings = enabled then (settings, None, [])
      else (let (st, error) = dleyna_settings_set_white_list_enabled ops settings enabled
            in (st, error,
                if error = None
                then White_list_enable enabled #
                     prv_wl_notify_prop DLD_INTERFACE_PROP_WHITE_LIST_ENABLED (GBool enabled)
                else [])))"

definition prv_set_prop_wl_entries ::
  "'st settings_ops \<Rightarrow> gvariant \<Rightarrow> 'st \<Rightarrow> 'st \<times> gerror option \<times> effect list" where
  "prv_set_prop_wl_entries ops entries settings =
     (if gv_type entries \<noteq> ''as''
      then (settings,
            Some (GError DLEYNA_ERROR_BAD_QUERY ''Invalid parameter type. 'as' expected.''), [])
      else (let (st, error) = dleyna_settings_set_white_list_entries ops settings entries
            in (st, error,
                if error = None
                then White_list_clear # White_list_add entries #
                     prv_wl_notify_prop DLD_INTERFACE_PROP_WHITE_LIST_ENTRIES entries
                else [])))"

text \<open>\<open>g_variant_get_boolean\<close>: it is an error to call it on a value of another type.\<close>

fun g_variant_get_boolean :: "gvariant \<Rightarrow> bool option" where
  "g_variant_get_boolean (GBool b) = Some b"
| "g_variant_get_boolean _ = None"

definition dld_manager_set_prop ::
  "'st settings_ops \<Rightarrow> 'st \<Rightarrow> dld_task \<Rightarrow> ('st \<times> dld_task \<times> effect list) option" where
  "dld_manager_set_prop ops settings t =
     (case task_ut t of
        Ut_set_prop i_name name param \<Rightarrow>
          let t1 = set_manager_cb t
          in if \<not> is_manager_interface i_name
             then Some (settings,
                    set_error DLEYNA_ERROR_UNKNOWN_INTERFACE ''Interface is unknown.'' t1, [Idle_add])
             else
               map_option
                 (\<lambda>(st, error, eff).
                    (st,
                     case error of
                       None \<Rightarrow> t1
                     | Some e \<Rightarrow> upd_async (\<lambda>a. a\<lparr>async_error := Some e\<rparr>) t1,
                     eff @ [Idle_add]))
                 (if name = DLD_INTERFACE_PROP_NEVER_QUIT
                  then map_option (\<lambda>b. prv_set_prop_never_quit ops b settings) (g_variant_get_boolean param)
                  else if name = DLD_INTERFACE_PROP_WHITE_LIST_ENABLED
                  then map_option (\<lambda>b. prv_set_prop_wl_enabled ops b settings) (g_variant_get_boolean param)
                  else if name = DLD_INTERFACE_PROP_WHITE_LIST_ENTRIES
                  then Some (prv_set_prop_wl_entries ops param settings)
                  else Some (settings, Some (GError DLEYNA_ERROR_UNKNOWN_PROPERTY ''Unknown property''), []))
      | _ \<Rightarrow> None)"

subsection \<open>Lemmas\<close>

lemma set_manager_cb_simps [simp]:
  "invocation (set_manager_cb t) = invocation t" "task_result (set_manager_cb t) = task_result t"
  "synchronous (set_manager_cb t) = synchronous t" "result_format (set_manager_cb t) = result_format t"
  "multiple_retvals (set_manager_cb t) = multiple_retvals t" "task_ut (set_manager_cb t) = task_ut t"
  "task_async (set_manager_cb t) = map_option (\<lambda>a. a\<lparr>async_cb := True\<rparr>) (task_async t)"
  by (simp_all add: set_manager_cb_def upd_async_def)

text \<open>Calls that neither schedule, start nor answer anything.\<close>

definition inert :: "effect list \<Rightarrow> bool" where
  "inert eff \<longleftrightarrow> idles_in eff = 0 \<and> \<not> begins_action eff \<and> \<not> queues_message eff \<and> replies eff = []"

lemma inert_calls [simp]:
  "inert []" "inert (prv_wl_notify_prop n v)" "inert (White_list_enable b # eff) = inert eff"
  "inert (White_list_clear # eff) = inert eff" "inert (White_list_add v # eff) = inert eff"
  by (simp_all add: inert_def prv_wl_notify_prop_def begins_action_def queues_message_def reply_of_def)

lemma setters_inert:
  "inert (snd (snd (prv_set_prop_never_quit ops b st)))"
  "inert (snd (snd (prv_set_prop_wl_enabled ops b st)))"
  "inert (snd (snd (prv_set_prop_wl_entries ops v st)))"
  by (simp_all add: prv_set_prop_never_quit_def prv_set_prop_wl_enabled_def prv_set_prop_wl_entries_def
      case_prod_unfold Let_def)

interpretation manager_get: async_start "dld_manager_get_prop ops st" for ops st
proof
  fix m t a t' eff assume st: "started_task m t a" and g: "dld_manager_get_prop ops st t = Some (t', eff)"
  then show "well_started m t' eff"
    using started_handler [OF st]
    by (auto simp: dld_manager_get_prop_def started_task_def well_started_def Let_def
        split: task_ut.splits if_splits)
qed

interpretation manager_get_all: async_start "dld_manager_get_all_props ops st" for ops st
proof
  fix m t a t' eff assume st: "started_task m t a" and g: "dld_manager_get_all_props ops st t = Some (t', eff)"
  then show "well_started m t' eff"
    using started_handler [OF st]
    by (auto simp: dld_manager_get_all_props_def started_task_def well_started_def Let_def
        split: task_ut.splits if_splits)
qed

text \<open>What \<open>dld_manager_set_prop\<close> does on its interface, by the name of the property.\<close>

definition set_property ::
  "'st settings_ops \<Rightarrow> string \<Rightarrow> gvariant \<Rightarrow> 'st \<Rightarrow> ('st \<times> gerror option \<times> effect list) option" where
  "set_property ops name param st =
     (if name = DLD_INTERFACE_PROP_NEVER_QUIT
      then map_option (\<lambda>b. prv_set_prop_never_quit ops b st) (g_variant_get_boolean param)
      else if name = DLD_INTERFACE_PROP_WHITE_LIST_ENABLED
      then map_option (\<lambda>b. prv_set_prop_wl_enabled ops b st) (g_variant_get_boolean param)
      else if name = DLD_INTERFACE_PROP_WHITE_LIST_ENTRIES
      then Some (prv_set_prop_wl_entries ops param st)
      else Some (st, Some (GError DLEYNA_ERROR_UNKNOWN_PROPERTY ''Unknown property''), []))"

lemma set_propE:
  assumes "dld_manager_set_prop ops st t = Some (st', t', eff)" and "task_ut t = Ut_set_prop i name v"
  obtains "\<not> is_manager_interface i" and "st' = st" and "eff = [Idle_add]"
    and "t' = set_error DLEYNA_ERROR_UNKNOWN_INTERFACE ''Interface is unknown.'' (set_manager_cb t)"
  | error eff1 where "is_manager_interface i" and "set_property ops name v st = Some (st', error, eff1)"
    and "eff = eff1 @ [Idle_add]"
    and "t' = (case error of None \<Rightarrow> set_manager_cb t
               | Some e \<Rightarrow> upd_async (\<lambda>a. a\<lparr>async_error := Some e\<rparr>) (set_manager_cb t))"
  using assms unfolding dld_manager_set_prop_def set_property_def [symmetric]
  by (auto simp: Let_def split: if_splits prod.splits)

lemma set_property_inert: "set_property ops name v st = Some (st', error, eff) \<Longrightarrow> inert eff"
  using setters_inert [of ops _ st] setters_inert(3) [of ops v st]
  by (auto simp: set_property_def split: if_splits) (metis snd_conv)+

interpretation manager_set: async_start "\<lambda>t. map_option snd (dld_manager_set_prop ops st t)" for ops st
proof
  fix m t a t' eff assume st: "started_task m t a"
    and "map_option snd (dld_manager_set_prop ops st t) = Some (t', eff)"
  then obtain st' where g: "dld_manager_set_prop ops st t = Some (st', t', eff)" by auto
  then obtain i name v where ut: "task_ut t = Ut_set_prop i name v"
    by (cases "task_ut t") (simp_all add: dld_manager_set_prop_def)
  from g ut show "well_started m t' eff"
  proof (cases rule: set_propE)
    case 1
    then show ?thesis
      using st started_handler [OF st] by (simp add: well_started_def started_task_def)
  next
    case (2 error eff1)
    then show ?thesis
      using st started_handler [OF st] set_property_inert [OF 2(2)]
      by (auto simp: well_started_def started_task_def inert_def split: option.splits)
  qed
qed

lemma manager_get_reply:
  assumes st: "started_task m t a" and ut: "task_ut t = Ut_get_prop i p"
    and fmt: "result_format t = Some ''(v)''" "\<not> multiple_retvals t"
  shows "\<exists>t' t''. dld_manager_get_prop ops st t = Some (t', [Idle_add]) \<and>
     dld_async_task_complete t' = Some (t'',
        [(if \<not> is_manager_interface i
          then Return_error m (GError DLEYNA_ERROR_UNKNOWN_INTERFACE ''Interface is unknown.'')
          else case prv_manager_get_prop ops st p of
                 None \<Rightarrow> Return_error m (GError DLEYNA_ERROR_UNKNOWN_PROPERTY ''Unknown property'')
               | Some v \<Rightarrow> Return_response m (Some (GTuple [GVariant v]))), Task_completed])"
  using assms
  by (auto simp: dld_manager_get_prop_def started_task_def Let_def dld_async_task_complete_def
      prv_async_task_complete_def dld_task_fail_def dld_task_complete_def g_variant_new_fmt_def
      split: option.splits)

lemma manager_get_all_reply:
  assumes st: "started_task m t a" and ut: "task_ut t = Ut_get_props i"
    and fmt: "result_format t = Some ''(@a{sv})''" "\<not> multiple_retvals t"
  shows "\<exists>t' t''. dld_manager_get_all_props ops st t = Some (t', [Idle_add]) \<and>
     dld_async_task_complete t' = Some (t'',
        [(if \<not> is_manager_interface i
          then Return_error m (GError DLEYNA_ERROR_UNKNOWN_INTERFACE ''Interface is unknown.'')
          else Return_response m (Some (GTuple [gv_vardict (prv_add_all_props ops st)]))), Task_completed])"
  using assms
  by (auto simp: dld_manager_get_all_props_def started_task_def Let_def dld_async_task_complete_def
      prv_async_task_complete_def dld_task_fail_def dld_task_complete_def g_variant_new_fmt_def)

subsection \<open>Properties\<close>

text \<open>C27: Get on the Manager interface answers with the setting of that name; it is an error to ask
  for another name, and to name another interface. GetAll answers with a dictionary of exactly the
  properties that Get knows, each with the value that Get returns, and with the same error for
  another interface. Both complete their task once, from one idle handler.\<close>

theorem manager_get_and_get_all:
  assumes "started_task m t a" and "task_ut t = Ut_get_prop i p"
    and "result_format t = Some ''(v)''" and "\<not> multiple_retvals t"
    and "started_task n u b" and "task_ut u = Ut_get_props i"
    and "result_format u = Some ''(@a{sv})''" and "\<not> multiple_retvals u"
  shows "\<exists>t' t'' u' u'' rt ru.
     dld_manager_get_prop ops st t = Some (t', [Idle_add]) \<and>
     dld_async_task_complete t' = Some (t'', [rt, Task_completed]) \<and>
     dld_manager_get_all_props ops st u = Some (u', [Idle_add]) \<and>
     dld_async_task_complete u' = Some (u'', [ru, Task_completed]) \<and>
     (if i \<noteq> DLEYNA_DIAGNOSTICS_INTERFACE_MANAGER \<and> i \<noteq> ''''
      then rt = Return_error m (GError DLEYNA_ERROR_UNKNOWN_INTERFACE ''Interface is unknown.'') \<and>
           ru = Return_error n (GError DLEYNA_ERROR_UNKNOWN_INTERFACE ''Interface is unknown.'')
      else \<exists>kvs. ru = Return_response n (Some (GTuple [gv_vardict kvs])) \<and>
             set (map fst kvs) = {''NeverQuit'', ''WhiteListEnabled'', ''WhiteListEntries''} \<and>
             rt = (case map_of kvs p of
                     None \<Rightarrow> Return_error m (GError DLEYNA_ERROR_UNKNOWN_PROPERTY ''Unknown property'')
                   | Some v \<Rightarrow> Return_response m (Some (GTuple [GVariant v]))))"
proof -
  let ?kvs = "prv_add_all_props ops st"
  have same: "map_of ?kvs p = prv_manager_get_prop ops st p"
    by (simp add: prv_add_all_props_def prv_manager_get_prop_def name_defs)
  have keys: "set (map fst ?kvs) = {''NeverQuit'', ''WhiteListEnabled'', ''WhiteListEntries''}"
    by (simp add: prv_add_all_props_def name_defs)
  obtain u' u'' where u: "dld_manager_get_all_props ops st u = Some (u', [Idle_add])"
    "dld_async_task_complete u' = Some (u'', [(if \<not> is_manager_interface i
       then Return_error n (GError DLEYNA_ERROR_UNKNOWN_INTERFACE ''Interface is unknown.'')
       else Return_response n (Some (GTuple [gv_vardict ?kvs]))), Task_completed])"
    using manager_get_all_reply [OF assms(5-8), of ops st] by blast
  from manager_get_reply [OF assms(1-4), of ops st] obtain t' t'' where
    "dld_manager_get_prop ops st t = Some (t', [Idle_add])"
    "dld_async_task_complete t' = Some (t'', [(if \<not> is_manager_interface i
       then Return_error m (GError DLEYNA_ERROR_UNKNOWN_INTERFACE ''Interface is unknown.'')
       else case map_of ?kvs p of
              None \<Rightarrow> Return_error m (GError DLEYNA_ERROR_UNKNOWN_PROPERTY ''Unknown property'')
            | Some v \<Rightarrow> Return_response m (Some (GTuple [GVariant v]))), Task_completed])"
    unfolding same by blast
  with u keys show ?thesis by (auto simp: is_manager_interface_def)
qed

text \<open>Settings kept in memory, whose entries cannot be written.\<close>

definition memory_settings :: "(bool \<times> bool \<times> gvariant option) settings_ops" where
  "memory_settings =
     \<lparr>dleyna_settings_is_never_quit = fst,
      dleyna_settings_is_white_list_enabled = (\<lambda>(_, e, _). e),
      dleyna_settings_white_list_entries = (\<lambda>(_, _, w). w),
      dleyna_settings_set_never_quit = (\<lambda>(n, e, w) v. ((v, e, w), None)),
      dleyna_settings_set_white_list_enabled = (\<lambda>(n, e, w) v. ((n, v, w), None)),
      dleyna_settings_set_white_list_entries =
        (\<lambda>s v. (s, Some (GError DLEYNA_ERROR_OPERATION_FAILED ''read-only'')))\<rparr>"

lemma memory_settings_doc: "settings_doc memory_settings"
  by (auto simp: settings_doc_def memory_settings_def)

definition manager_task ::
  "(glib \<Rightarrow> msg_id \<Rightarrow> string \<Rightarrow> gvariant \<Rightarrow> dld_task option) \<Rightarrow> gvariant list \<Rightarrow> dld_task" where
  "manager_task new vs = new_cancellable (the (new glib_ref 6 DLEYNA_DIAGNOSTICS_OBJECT (GTuple vs)))"

lemma manager_task_started:
  "\<exists>a. started_task 6 (manager_task dld_task_manager_get_prop_new [GString i, GString p]) a"
  "\<exists>a. started_task 6 (manager_task dld_task_manager_get_props_new [GString i]) a"
  "\<exists>a. started_task 6 (manager_task dld_task_manager_set_prop_new [GString i, GString p, GVariant v]) a"
  by (simp_all add: manager_task_def constructor_defs new_cancellable_def started_task_def async_zero_def)

theorem manager_get_and_get_all_witness:
  "\<exists>u' u''. dld_manager_get_all_props memory_settings (True, False, None)
       (manager_task dld_task_manager_get_props_new [GString '''']) = Some (u', [Idle_add]) \<and>
     (\<exists>kvs. dld_async_task_complete u' =
        Some (u'', [Return_response 6 (Some (GTuple [gv_vardict kvs])), Task_completed]))"
proof -
  let ?t = "manager_task dld_task_manager_get_prop_new [GString '''', GString ''NeverQuit'']"
  let ?u = "manager_task dld_task_manager_get_props_new [GString '''']"
  have strip: "trim (g_ascii_isspace glib_ref) [] = []"
    "trim (g_ascii_isspace glib_ref) ''NeverQuit'' = ''NeverQuit''" by (simp_all add: trim_def glib_ref_def)
  have t: "task_ut ?t = Ut_get_prop '''' ''NeverQuit''" "result_format ?t = Some ''(v)''"
    "\<not> multiple_retvals ?t"
    by (simp_all add: manager_task_def constructor_defs new_cancellable_def strip)
  have u: "task_ut ?u = Ut_get_props ''''" "result_format ?u = Some ''(@a{sv})''" "\<not> multiple_retvals ?u"
    by (simp_all add: manager_task_def constructor_defs new_cancellable_def strip)
  obtain a b where "started_task 6 ?t a" "started_task 6 ?u b" using manager_task_started by blast
  from manager_get_and_get_all [OF this(1) t this(2) u, of memory_settings "(True, False, None)"]
  show ?thesis by auto
qed

text \<open>C26: Setting a property of the Manager interface. If no error is recorded, Get then returns the
  new value and the same value as before for every other name; the white list is updated to the new
  setting and exactly one PropertiesChanged signal with the new value is sent, in this order, unless
  the property is a flag that had this value already, in which case nothing is done. If an error is
  recorded - another interface, another name, entries that are not strings, settings that cannot be
  written - nothing is signalled and the white list stays as it is. In both cases one idle handler
  completes the task.\<close>

theorem manager_set_property:
  assumes "settings_doc ops" and "started_task m t a" and "task_ut t = Ut_set_prop i name v"
    and "dld_manager_set_prop ops st t = Some (st', t', eff)"
  shows "if has_error t' then eff = [Idle_add]
     else prv_manager_get_prop ops st' name = Some v \<and>
       (\<forall>n. n \<noteq> name \<longrightarrow> prv_manager_get_prop ops st' n = prv_manager_get_prop ops st n) \<and>
       (if name \<noteq> ''WhiteListEntries'' \<and> prv_manager_get_prop ops st name = Some v
        then st' = st \<and> eff = [Idle_add]
        else eff =
          (if name = ''WhiteListEntries'' then [White_list_clear, White_list_add v]
           else if name = ''WhiteListEnabled'' then [White_list_enable (v = GBool True)] else []) @
          [Notify DLEYNA_DIAGNOSTICS_OBJECT ''org.freedesktop.DBus.Properties'' ''PropertiesChanged''
             (GTuple [GString DLEYNA_DIAGNOSTICS_INTERFACE_MANAGER, gv_vardict [(name, v)], gv_strings []]),
           Idle_add])"
  using assms(4,3)
proof (cases rule: set_propE)
  case 1
  with assms(2) show ?thesis by (simp add: has_error_def set_error_def upd_async_def started_task_def)
next
  case (2 error eff1)
  note doc = assms(1) [unfolded settings_doc_def] and st' = assms(2) [unfolded started_task_def]
  have err: "has_error t' \<longleftrightarrow> error \<noteq> None"
    using 2(4) st' by (auto simp: has_error_def upd_async_def split: option.splits)
  note p = 2(2) [unfolded set_property_def name_defs]
  note defs = prv_manager_get_prop_def prv_build_wl_entries_def prv_wl_notify_prop_def name_defs(6,7,11-13)
  consider (never) b where "name = ''NeverQuit''" "v = GBool b" "prv_set_prop_never_quit ops b st = (st', error, eff1)"
    | (enabled) b where "name = ''WhiteListEnabled''" "v = GBool b" "prv_set_prop_wl_enabled ops b st = (st', error, eff1)"
    | (entries) "name = ''WhiteListEntries''" "prv_set_prop_wl_entries ops v st = (st', error, eff1)"
    | (unknown) "error \<noteq> None" "eff1 = []"
    using p by (cases v) (auto split: if_splits)
  then show ?thesis
  proof cases
    case never
    then show ?thesis
      using doc by (auto simp: err 2(3) prv_set_prop_never_quit_def defs split: if_splits prod.splits)
  next
    case enabled
    then show ?thesis
      using doc by (auto simp: err 2(3) prv_set_prop_wl_enabled_def defs split: if_splits prod.splits)
  next
    case entries
    then show ?thesis
      using doc by (auto simp: err 2(3) prv_set_prop_wl_entries_def defs split: if_splits prod.splits)
  next
    case unknown
    then show ?thesis by (simp add: err 2(3))
  qed
qed

theorem manager_set_property_witness:
  "\<exists>t'. dld_manager_set_prop memory_settings (False, False, None)
       (manager_task dld_task_manager_set_prop_new [GString '''', GString ''WhiteListEnabled'', GVariant (GBool True)]) =
     Some ((False, True, None), t',
       [White_list_enable True,
        Notify DLEYNA_DIAGNOSTICS_OBJECT ''org.freedesktop.DBus.Properties'' ''PropertiesChanged''
          (GTuple [GString DLEYNA_DIAGNOSTICS_INTERFACE_MANAGER,
                   gv_vardict [(''WhiteListEnabled'', GBool True)], gv_strings []]),
        Idle_add])"
proof -
  let ?t = "manager_task dld_task_manager_set_prop_new [GString '''', GString ''WhiteListEnabled'', GVariant (GBool True)]"
  have strip: "trim (g_ascii_isspace glib_ref) [] = []"
    "trim (g_ascii_isspace glib_ref) ''WhiteListEnabled'' = ''WhiteListEnabled''"
    by (simp_all add: trim_def glib_ref_def)
  have ut: "task_ut ?t = Ut_set_prop '''' ''WhiteListEnabled'' (GBool True)"
    by (simp add: manager_task_def constructor_defs new_cancellable_def strip)
  obtain a where st: "started_task 6 ?t a" using manager_task_started(3) by blast
  have run: "dld_manager_set_prop memory_settings (False, False, None) ?t = Some ((False, True, None), set_manager_cb ?t,
      [White_list_enable True] @ prv_wl_notify_prop ''WhiteListEnabled'' (GBool True) @ [Idle_add])"
    by (simp add: dld_manager_set_prop_def ut is_manager_interface_def name_defs prv_set_prop_wl_enabled_def
        memory_settings_def)
  have "\<not> has_error (set_manager_cb ?t)"
    using st by (simp add: has_error_def started_task_def)
  moreover have "prv_manager_get_prop memory_settings (False, False, None) ''WhiteListEnabled'' = Some (GBool False)"
    by (simp add: prv_manager_get_prop_def name_defs memory_settings_def)
  ultimately show ?thesis
    using manager_set_property [OF memory_settings_doc st ut run] run by simp
qed

text \<open>
  The type of a new value for a flag is not checked before it is read as a boolean: a client that
  passes a string calls \<open>g_variant_get_boolean\<close> with a value it must not be called with.
\<close>

lemma set_flag_unchecked:
  assumes "task_ut t = Ut_set_prop i ''NeverQuit'' (GString s)" and "is_manager_interface i"
  shows "dld_manager_set_prop ops st t = None"
  using assms by (simp add: dld_manager_set_prop_def name_defs Let_def)

end
