(* ===== verification/Upnp.thy ===== *)
theory Upnp
  imports Device_Tasks "HOL-Library.Monad_Syntax" "HOL-Library.Multiset"
begin

section \<open>upnp.c: the devices on the network\<close>

text \<open>
  The registry of devices: those whose construction is over, by UDN (\<open>device_udn_map\<close>), and those
  under construction (\<open>device_uc_map\<close>), with the handlers that GUPnP calls when a device appears
  or disappears on a network interface, the timer that moves a subscription, and the callbacks
  that end a construction. Devices and construction records live in a store from addresses to
  structures; a freed structure is no longer in it, and an operation that reads one returns None.

  The main loop's timers and the task processor's queues belong to GLib and to the core
  library. What they do is described by \<open>env_step\<close>, from their documentation: a timer runs
  until it fires or is removed; a cancelled queue drops its tasks; a queue whose tasks are done
  or dropped calls its \<open>finally\<close> callback once and is removed.
\<close>

subsection \<open>State\<close>

record prv_device_new_ct =
  ct_udn :: string
  ct_ip_address :: string
  ct_device :: addr
  ct_queue_id :: addr

record task_queue =
  q_tasks :: "service_task list"
  q_finally :: queue_finally
  q_user_data :: addr
  q_cancelled :: bool

record dld_upnp =
  device_udn_map :: "(string, addr) ghash"
  device_uc_map :: "(string, addr) ghash"
  upnp_counter :: guint
  devices :: "addr \<Rightarrow> dld_device option"
  privs :: "addr \<Rightarrow> prv_device_new_ct option"
  queues :: "addr \<Rightarrow> task_queue option"
  next_ref :: addr
  sources :: "(source_id \<times> timer_cb) list"
  next_source :: source_id
  calls :: "effect list"

text \<open>The effect of a call on the timers and the queues.\<close>

definition upd_queue :: "addr \<Rightarrow> (task_queue \<Rightarrow> task_queue) \<Rightarrow> dld_upnp \<Rightarrow> dld_upnp" where
  "upd_queue q f s = s\<lparr>queues := (queues s)(q := map_option f (queues s q))\<rparr>"

definition env_step :: "effect \<Rightarrow> dld_upnp \<Rightarrow> dld_upnp" where
  "env_step e s =
     (case e of
        Timeout_add tid _ cb \<Rightarrow> s\<lparr>sources := (tid, cb) # sources s, next_source := Suc tid\<rparr>
      | Source_remove tid \<Rightarrow> s\<lparr>sources := filter (\<lambda>(i, _). i \<noteq> tid) (sources s)\<rparr>
      | Add_queue q \<Rightarrow>
          s\<lparr>queues := (queues s)(q \<mapsto>
              \<lparr>q_tasks = [], q_finally = Prv_device_chain_end, q_user_data = 0, q_cancelled = False\<rparr>)\<rparr>
      | Set_finally q f \<Rightarrow> upd_queue q (\<lambda>x. x\<lparr>q_finally := f\<rparr>) s
      | Set_user_data q d \<Rightarrow> upd_queue q (\<lambda>x. x\<lparr>q_user_data := d\<rparr>) s
      | Add_service_task q t \<Rightarrow> upd_queue q (\<lambda>x. x\<lparr>q_tasks := q_tasks x @ [t]\<rparr>) s
      | Cancel_queue q \<Rightarrow> upd_queue q (\<lambda>x. x\<lparr>q_cancelled := True, q_tasks := []\<rparr>) s
      | _ \<Rightarrow> s)"

fun emit :: "effect list \<Rightarrow> dld_upnp \<Rightarrow> dld_upnp" where
  "emit [] s = s"
| "emit (e # eff) s = emit eff ((env_step e s)\<lparr>calls := calls s @ [e]\<rparr>)"

definition set_device :: "addr \<Rightarrow> dld_device \<Rightarrow> dld_upnp \<Rightarrow> dld_upnp" where
  "set_device a d s = s\<lparr>devices := (devices s)(a \<mapsto> d)\<rparr>"

text \<open>\<open>dld_upnp_new\<close>: empty tables; addresses and source identifiers start at 1.\<close>

definition dld_upnp_new :: dld_upnp where
  "dld_upnp_new =
     \<lparr>device_udn_map = [], device_uc_map = [], upnp_counter = 0, devices = (\<lambda>_. None),
      privs = (\<lambda>_. None), queues = (\<lambda>_. None), next_ref = 1, sources = [], next_source = 1,
      calls = []\<rparr>"

subsection \<open>The callbacks of the server\<close>

definition DLD_INTERFACE_FOUND_DEVICE :: string where
  "DLD_INTERFACE_FOUND_DEVICE = ''FoundDevice''"

definition DLD_INTERFACE_LOST_DEVICE :: string where
  "DLD_INTERFACE_LOST_DEVICE = ''LostDevice''"

definition prv_found_diagnostics_device :: "string \<Rightarrow> effect list" where
  "prv_found_diagnostics_device path =
     [Notify DLEYNA_DIAGNOSTICS_OBJECT DLEYNA_DIAGNOSTICS_INTERFACE_MANAGER
        DLD_INTERFACE_FOUND_DEVICE (GTuple [GObjPath path])]"

definition prv_lost_diagnostics_device :: "string \<Rightarrow> effect list" where
  "prv_lost_diagnostics_device path =
     [Notify DLEYNA_DIAGNOSTICS_OBJECT DLEYNA_DIAGNOSTICS_INTERFACE_MANAGER
        DLD_INTERFACE_LOST_DEVICE (GTuple [GObjPath path]),
      Remove_queues_for_sink path]"

subsection \<open>The tables\<close>

text \<open>\<open>dld_device_delete\<close> as the destructor of a table's values: the structure is freed.\<close>

definition free_device :: "addr \<Rightarrow> dld_upnp \<Rightarrow> dld_upnp option" where
  "free_device a s =
     (case devices s a of
        None \<Rightarrow> None
      | Some d \<Rightarrow> Some (emit (dld_device_delete d) (s\<lparr>devices := (devices s)(a := None)\<rparr>)))"

text \<open>Inserting into and removing from \<open>device_udn_map\<close> deletes the device that was stored.\<close>

definition udn_map_insert :: "string \<Rightarrow> addr \<Rightarrow> dld_upnp \<Rightarrow> dld_upnp option" where
  "udn_map_insert udn a s =
     do {
       s1 \<leftarrow> (case g_hash_table_lookup (device_udn_map s) udn of
                None \<Rightarrow> Some s
              | Some old \<Rightarrow> free_device old s);
       Some (s1\<lparr>device_udn_map := g_hash_table_insert (device_udn_map s1) udn a\<rparr>)
     }"

definition udn_map_remove :: "string \<Rightarrow> dld_upnp \<Rightarrow> dld_upnp option" where
  "udn_map_remove udn s =
     (case g_hash_table_lookup (device_udn_map s) udn of
        None \<Rightarrow> Some s
      | Some a \<Rightarrow>
          free_device a (s\<lparr>device_udn_map := g_hash_table_remove (device_udn_map s) udn\<rparr>))"

definition uc_map_remove :: "string \<Rightarrow> dld_upnp \<Rightarrow> dld_upnp" where
  "uc_map_remove udn s = s\<lparr>device_uc_map := g_hash_table_remove (device_uc_map s) udn\<rparr>"

text \<open>
  The device known under a UDN and, if it is under construction, its construction record.
\<close>

definition lookup_device :: "string \<Rightarrow> dld_upnp \<Rightarrow> (addr \<times> addr option) option option" where
  "lookup_device udn s =
     (case g_hash_table_lookup (device_udn_map s) udn of
        Some a \<Rightarrow> Some (Some (a, None))
      | None \<Rightarrow>
          (case g_hash_table_lookup (device_uc_map s) udn of
             None \<Rightarrow> Some None
           | Some p \<Rightarrow> map_option (\<lambda>priv_t. Some (ct_device priv_t, Some p)) (privs s p)))"

subsection \<open>The end of a construction\<close>

definition prv_device_new_free :: "addr \<Rightarrow> dld_upnp \<Rightarrow> dld_upnp" where
  "prv_device_new_free p s = s\<lparr>privs := (privs s)(p := None)\<rparr>"

definition prv_device_chain_end :: "bool \<Rightarrow> addr \<Rightarrow> dld_upnp \<Rightarrow> dld_upnp option" where
  "prv_device_chain_end cancelled data s =
     do {
       priv_t \<leftarrow> privs s data;
       s1 \<leftarrow> (if cancelled then Some s
              else do {
                device \<leftarrow> devices s (ct_device priv_t);
                s' \<leftarrow> udn_map_insert (ct_udn priv_t) (ct_device priv_t) s;
                Some (emit (prv_found_diagnostics_device (dev_path device)) s')
              });
       let s2 = prv_device_new_free data (uc_map_remove (ct_udn priv_t) s1);
       if cancelled then free_device (ct_device priv_t) s2 else Some s2
     }"

definition prv_device_context_switch_end :: "bool \<Rightarrow> addr \<Rightarrow> dld_upnp \<Rightarrow> dld_upnp option" where
  "prv_device_context_switch_end cancelled data s =
     (if privs s data = None then None else Some (prv_device_new_free data s))"

subsection \<open>A device appears\<close>

definition ct_zero :: prv_device_new_ct where
  "ct_zero = \<lparr>ct_udn = [], ct_ip_address = [], ct_device = 0, ct_queue_id = 0\<rparr>"

text \<open>The new construction record and its queue: their addresses and the state.\<close>

definition prv_create_device_queue :: "dld_upnp \<Rightarrow> addr \<times> addr \<times> dld_upnp" where
  "prv_create_device_queue s =
     (let p = next_ref s; q = Suc p
      in (p, q,
          emit [Add_queue q, Set_finally q Prv_device_chain_end, Set_user_data q p]
            (s\<lparr>privs := (privs s)(p \<mapsto> ct_zero), next_ref := Suc q\<rparr>)))"

definition prv_update_device_context ::
  "addr \<Rightarrow> string \<Rightarrow> addr \<Rightarrow> string \<Rightarrow> addr \<Rightarrow> dld_upnp \<Rightarrow> dld_upnp" where
  "prv_update_device_context p udn device ip_address queue_id s =
     s\<lparr>privs := (privs s)(p \<mapsto> \<lparr>ct_udn = udn, ct_ip_address = ip_address, ct_device = device,
                                ct_queue_id = queue_id\<rparr>),
       device_uc_map := g_hash_table_insert (device_uc_map s) udn p\<rparr>"

definition prv_add_device ::
  "glib \<Rightarrow> device_info \<Rightarrow> proxy option \<Rightarrow> string \<Rightarrow> string \<Rightarrow> dld_upnp \<Rightarrow> dld_upnp option" where
  "prv_add_device gl dev_proxy bms ip_address udn s =
     do {
       found \<leftarrow> lookup_device udn s;
       (case found of
          None \<Rightarrow>
            let (p, q, s1) = prv_create_device_queue s;
                ref = next_ref s1
            in do {
              (device, eff) \<leftarrow>
                dld_device_new gl ref (Suc ref) dev_proxy bms ip_address (upnp_counter s1) q;
              let s2 = emit eff (set_device ref device (s1\<lparr>next_ref := Suc (Suc ref)\<rparr>));
              let s3 = prv_update_device_context p udn ref ip_address q s2;
              Some (s3\<lparr>upnp_counter := upnp_counter s3 + 1\<rparr>)
            }
        | Some (a, _) \<Rightarrow>
            do {
              device \<leftarrow> devices s a;
              (case find_index (\<lambda>c. ctx_ip_address c = ip_address) (dev_contexts device) of
                 Some i \<Rightarrow> Some s
               | None \<Rightarrow>
                   do {
                     (device1, eff) \<leftarrow>
                       dld_device_append_new_context (next_ref s) ip_address dev_proxy bms device;
                     Some (emit eff (set_device a device1 (s\<lparr>next_ref := Suc (next_ref s)\<rparr>)))
                   })
            })
     }"

definition prv_add_sub_device ::
  "glib \<Rightarrow> string \<Rightarrow> device_info \<Rightarrow> proxy option \<Rightarrow> dld_upnp \<Rightarrow> dld_upnp option" where
  "prv_add_sub_device gl ip_address sub_proxy bms s =
     (case di_udn sub_proxy of
        None \<Rightarrow> Some s
      | Some udn \<Rightarrow> prv_add_device gl sub_proxy bms ip_address udn s)"

text \<open>
  The recursion over the sub-devices, which is the same text for devices that appear and for
  devices that disappear: \<open>act\<close> is the operation on one sub-device. It returns the variable
  \<open>service_info\<close>, whose last value is the result of the last recursive call.
\<close>

fun walk_sub_devices ::
  "(device_info \<Rightarrow> proxy option \<Rightarrow> dld_upnp \<Rightarrow> dld_upnp option) \<Rightarrow> device_info \<Rightarrow> dld_upnp \<Rightarrow>
     (proxy option \<times> dld_upnp) option"
and walk_children ::
  "(device_info \<Rightarrow> proxy option \<Rightarrow> dld_upnp \<Rightarrow> dld_upnp option) \<Rightarrow> device_info list \<Rightarrow>
     proxy option \<Rightarrow> dld_upnp \<Rightarrow> (proxy option \<times> dld_upnp) option" where
  "walk_sub_devices act (DeviceInfo de bms children) s = walk_children act children None s"
| "walk_children act [] service_info s = Some (service_info, s)"
| "walk_children act (child # next) service_info s =
     do {
       s1 \<leftarrow> (if di_bms child \<noteq> None then act child (di_bms child) s else Some s);
       (service_info1, s2) \<leftarrow> walk_sub_devices act child s1;
       s3 \<leftarrow> (if service_info1 \<noteq> None then act child service_info1 s2 else Some s2);
       walk_children act next service_info1 s3
     }"

definition prv_add_bm_service_sub_devices ::
  "glib \<Rightarrow> device_info \<Rightarrow> string \<Rightarrow> dld_upnp \<Rightarrow> (proxy option \<times> dld_upnp) option" where
  "prv_add_bm_service_sub_devices gl info ip_address s =
     walk_sub_devices (prv_add_sub_device gl ip_address) info s"

definition prv_device_available_cb ::
  "glib \<Rightarrow> device_info \<Rightarrow> string option \<Rightarrow> dld_upnp \<Rightarrow> dld_upnp option" where
  "prv_device_available_cb gl info ip s =
     (case (di_udn info, ip) of
        (Some udn, Some ip_address) \<Rightarrow>
          do {
            s1 \<leftarrow> (if di_bms info \<noteq> None
                   then prv_add_device gl info (di_bms info) ip_address udn s else Some s);
            (_, s2) \<leftarrow> prv_add_bm_service_sub_devices gl info ip_address s1;
            Some s2
          }
      | _ \<Rightarrow> Some s)"

subsection \<open>A device disappears\<close>

definition prv_subscribe_to_service_changes :: "addr \<Rightarrow> dld_upnp \<Rightarrow> dld_upnp option" where
  "prv_subscribe_to_service_changes a s =
     do {
       device \<leftarrow> devices s a;
       (device1, eff) \<leftarrow> dld_device_subscribe_to_service_changes (device\<lparr>dev_timeout_id := 0\<rparr>);
       Some (emit eff (set_device a device1 s))
     }"

definition prv_remove_device :: "string \<Rightarrow> string \<Rightarrow> dld_upnp \<Rightarrow> dld_upnp option" where
  "prv_remove_device ip_address udn s =
     do {
       found \<leftarrow> lookup_device udn s;
       (case found of
          None \<Rightarrow> Some s
        | Some (a, under_construction) \<Rightarrow>
            do {
              device \<leftarrow> devices s a;
              (case find_index (\<lambda>c. ctx_ip_address c = ip_address) (dev_contexts device) of
                 None \<Rightarrow> Some s
               | Some i \<Rightarrow>
                   let context = dev_contexts device ! i;
                       device1 = remove_context i device;
                       s1 = emit (prv_dld_context_delete context) (set_device a device1 s)
                   in (case under_construction of
                         None \<Rightarrow>
                           if dev_contexts device1 = []
                           then udn_map_remove udn
                                  (emit (prv_lost_diagnostics_device (dev_path device1)) s1)
                           else if bms_subscribed context \<and> dev_timeout_id device1 = 0
                           then (let tid = next_source s1
                                 in Some (emit [Timeout_add tid 1 (Subscribe_to_service_changes a)]
                                      (set_device a (device1\<lparr>dev_timeout_id := tid\<rparr>) s1)))
                           else Some s1
                       | Some p \<Rightarrow>
                           do {
                             priv_t \<leftarrow> privs s1 p;
                             if dev_contexts device1 = []
                             then Some (emit [Cancel_queue (ct_queue_id priv_t)] s1)
                             else if ctx_ip_address context = ct_ip_address priv_t
                             then do {
                               let s2 = emit [Set_finally (ct_queue_id priv_t) Prv_device_context_switch_end,
                                              Cancel_queue (ct_queue_id priv_t)]
                                          (uc_map_remove (ct_udn priv_t) s1);
                               j \<leftarrow> dld_device_get_context device1;
                               let (p1, q1, s3) = prv_create_device_queue s2;
                               Some (emit (dld_device_construct device1 q1)
                                 (prv_update_device_context p1 udn a
                                    (ctx_ip_address (dev_contexts device1 ! j)) q1 s3))
                             }
                             else if bms_subscribed context \<and> dev_timeout_id device1 = 0
                             then (let tid = next_source s1
                                   in Some (emit [Timeout_add tid 1 (Subscribe_to_service_changes a)]
                                        (set_device a (device1\<lparr>dev_timeout_id := tid\<rparr>) s1)))
                             else Some s1
                           }))
            })
     }"

definition prv_remove_sub_device ::
  "string \<Rightarrow> device_info \<Rightarrow> proxy option \<Rightarrow> dld_upnp \<Rightarrow> dld_upnp option" where
  "prv_remove_sub_device ip_address sub_proxy bms s =
     (case di_udn sub_proxy of
        None \<Rightarrow> Some s
      | Some udn \<Rightarrow> prv_remove_device ip_address udn s)"

definition prv_remove_bm_service_sub_devices ::
  "device_info \<Rightarrow> string \<Rightarrow> dld_upnp \<Rightarrow> (proxy option \<times> dld_upnp) option" where
  "prv_remove_bm_service_sub_devices info ip_address s =
     walk_sub_devices (prv_remove_sub_device ip_address) info s"

definition prv_device_unavailable_cb ::
  "device_info \<Rightarrow> string option \<Rightarrow> dld_upnp \<Rightarrow> dld_upnp option" where
  "prv_device_unavailable_cb info ip s =
     (case (di_udn info, ip) of
        (Some udn, Some ip_address) \<Rightarrow>
          do {
            (_, s1) \<leftarrow> prv_remove_bm_service_sub_devices info ip_address s;
            prv_remove_device ip_address udn s1
          }
      | _ \<Rightarrow> Some s)"

subsection \<open>Listing and unsubscribing\<close>

text \<open>The devices of \<open>device_udn_map\<close>, in the order in which the table is iterated.\<close>

definition known_devices :: "dld_upnp \<Rightarrow> dld_device list option" where
  "known_devices s = those (map (\<lambda>(udn, a). devices s a) (device_udn_map s))"

definition dld_upnp_get_device_ids :: "dld_upnp \<Rightarrow> gvariant option" where
  "dld_upnp_get_device_ids s =
     map_option (\<lambda>ds. GArray ''o'' (map (\<lambda>d. GObjPath (dev_path d)) ds)) (known_devices s)"

fun unsubscribe_devices :: "addr list \<Rightarrow> dld_upnp \<Rightarrow> dld_upnp option" where
  "unsubscribe_devices [] s = Some s"
| "unsubscribe_devices (a # as) s =
     do {
       device \<leftarrow> devices s a;
       let (device1, eff) = dld_device_unsubscribe device;
       unsubscribe_devices as (emit eff (set_device a device1 s))
     }"

definition dld_upnp_unsubscribe :: "dld_upnp \<Rightarrow> dld_upnp option" where
  "dld_upnp_unsubscribe s = unsubscribe_devices (map snd (device_udn_map s)) s"

text \<open>
  A network interface appears: a control point for its root devices is created, its signals are
  connected to \<open>prv_device_available_cb\<close> and \<open>prv_device_unavailable_cb\<close>, and the context manager keeps
  it. From then on GUPnP sends the events of the devices on that interface.
\<close>

definition prv_on_context_available :: "string \<Rightarrow> dld_upnp \<Rightarrow> dld_upnp" where
  "prv_on_context_available ip upnp =
     emit [Control_point_new ip ''upnp:rootdevice'', Signal_connect ''device-proxy-available'',
           Signal_connect ''device-proxy-unavailable'', Browser_set_active True, Manage_control_point,
           Control_point_unref] upnp"

definition dld_upnp_rescan :: "dld_upnp \<Rightarrow> dld_upnp" where
  "dld_upnp_rescan s = emit [Rescan_control_points] s"

subsection \<open>Method calls on a device\<close>

text \<open>
  Every asynchronous method call names its device by an object path. The registry looks the device
  up among the known ones and hands the task to the device's handler, or completes the task with an
  error.
\<close>

definition prv_get_and_check_device ::
  "dld_upnp \<Rightarrow> dld_task \<Rightarrow> (dld_device option \<times> dld_task \<times> effect list) option" where
  "prv_get_and_check_device s t =
     do {
       path \<leftarrow> task_path t;
       cb_data \<leftarrow> task_async t;
       device_list \<leftarrow> known_devices s;
       (case dld_device_from_path path device_list of
          Some device \<Rightarrow> Some (Some device, t, [])
        | None \<Rightarrow>
            Some (None,
              set_error DLEYNA_ERROR_OBJECT_NOT_FOUND
                ''Cannot locate a device for the specified object''
                (t\<lparr>task_async := Some (cb_data\<lparr>async_cb := True\<rparr>)\<rparr>),
              [Idle_add]))
     }"

text \<open>
  What the operations share. A handler may change the device (the icon cache), most do not.
\<close>

type_synonym device_handler = "dld_device \<Rightarrow> dld_task \<Rightarrow> (dld_device \<times> dld_task \<times> effect list) option"

definition keep_device ::
  "(dld_device \<Rightarrow> dld_task \<Rightarrow> (dld_task \<times> effect list) option) \<Rightarrow> device_handler" where
  "keep_device f d t = map_option (\<lambda>x. (d, x)) (f d t)"

definition on_checked_device ::
  "device_handler \<Rightarrow> dld_upnp \<Rightarrow> dld_task \<Rightarrow> (dld_upnp \<times> dld_task \<times> effect list) option" where
  "on_checked_device f s t =
     do {
       (device, t1, eff) \<leftarrow> prv_get_and_check_device s t;
       (case device of
          None \<Rightarrow> Some (s, t1, eff)
        | Some d \<Rightarrow>
            do {
              (d1, t2, eff2) \<leftarrow> f d t1;
              Some (set_device (dev_ref d) d1 s, t2, eff2)
            })
     }"

definition dld_upnp_get_prop :: "dld_upnp \<Rightarrow> dld_task \<Rightarrow> (dld_upnp \<times> dld_task \<times> effect list) option" where
  "dld_upnp_get_prop = on_checked_device (keep_device dld_device_get_prop)"

definition dld_upnp_get_all_props :: "dld_upnp \<Rightarrow> dld_task \<Rightarrow> (dld_upnp \<times> dld_task \<times> effect list) option" where
  "dld_upnp_get_all_props = on_checked_device (keep_device dld_device_get_all_props)"

definition dld_upnp_get_icon ::
  "glib \<Rightarrow> (string \<Rightarrow> bool) \<Rightarrow> dld_upnp \<Rightarrow> dld_task \<Rightarrow> (dld_upnp \<times> dld_task \<times> effect list) option" where
  "dld_upnp_get_icon gl msg_new = on_checked_device (dld_device_get_icon gl msg_new)"

definition dld_upnp_get_test_info :: "dld_upnp \<Rightarrow> dld_task \<Rightarrow> (dld_upnp \<times> dld_task \<times> effect list) option" where
  "dld_upnp_get_test_info = on_checked_device (keep_device dld_device_get_test_info)"

definition dld_upnp_cancel_test :: "dld_upnp \<Rightarrow> dld_task \<Rightarrow> (dld_upnp \<times> dld_task \<times> effect list) option" where
  "dld_upnp_cancel_test = on_checked_device (keep_device dld_device_cancel_test)"

definition dld_upnp_ping :: "dld_upnp \<Rightarrow> dld_task \<Rightarrow> (dld_upnp \<times> dld_task \<times> effect list) option" where
  "dld_upnp_ping = on_checked_device (keep_device dld_device_ping)"

definition dld_upnp_get_ping_result :: "dld_upnp \<Rightarrow> dld_task \<Rightarrow> (dld_upnp \<times> dld_task \<times> effect list) option" where
  "dld_upnp_get_ping_result = on_checked_device (keep_device dld_device_get_ping_result)"

definition dld_upnp_nslookup :: "dld_upnp \<Rightarrow> dld_task \<Rightarrow> (dld_upnp \<times> dld_task \<times> effect list) option" where
  "dld_upnp_nslookup = on_checked_device (keep_device dld_device_nslookup)"

definition dld_upnp_get_nslookup_result ::
  "dld_upnp \<Rightarrow> dld_task \<Rightarrow> (dld_upnp \<times> dld_task \<times> effect list) option" where
  "dld_upnp_get_nslookup_result = on_checked_device (keep_device dld_device_get_nslookup_result)"

definition dld_upnp_traceroute :: "dld_upnp \<Rightarrow> dld_task \<Rightarrow> (dld_upnp \<times> dld_task \<times> effect list) option" where
  "dld_upnp_traceroute = on_checked_device (keep_device dld_device_traceroute)"

definition dld_upnp_get_traceroute_result ::
  "dld_upnp \<Rightarrow> dld_task \<Rightarrow> (dld_upnp \<times> dld_task \<times> effect list) option" where
  "dld_upnp_get_traceroute_result = on_checked_device (keep_device dld_device_get_traceroute_result)"

lemmas upnp_op_defs =
  dld_upnp_get_prop_def dld_upnp_get_all_props_def dld_upnp_get_icon_def dld_upnp_get_test_info_def
  dld_upnp_cancel_test_def dld_upnp_ping_def dld_upnp_get_ping_result_def dld_upnp_nslookup_def
  dld_upnp_get_nslookup_result_def dld_upnp_traceroute_def dld_upnp_get_traceroute_result_def

text \<open>
  The deletion: the table of known devices owns its devices, the table of constructions nothing.
\<close>

fun free_devices :: "addr list \<Rightarrow> dld_upnp \<Rightarrow> dld_upnp option" where
  "free_devices [] s = Some s"
| "free_devices (a # as) s = do { s1 \<leftarrow> free_device a s; free_devices as s1 }"

definition dld_upnp_delete :: "dld_upnp \<Rightarrow> dld_upnp option" where
  "dld_upnp_delete s =
     do {
       s1 \<leftarrow> free_devices (map snd (device_udn_map s)) (emit [Other_call ''g_object_unref''] s);
       Some (s1\<lparr>device_udn_map := [], device_uc_map := []\<rparr>)
     }"

end
