(* ===== verification/Registry.thy ===== *)
theory Registry
  imports Upnp
begin

section \<open>The registry of devices: its invariant\<close>

text \<open>
  How the two tables, the construction records and the queues fit together. The invariant is
  stated over finite maps (the tables by UDN, the stores by address, the set of addresses that
  hold a device), and every way the code changes them is one lemma.
\<close>

text \<open>
  Each table entry leads to a live structure; a UDN is in one table only and no two entries lead
  to the same device; every device is in a table; every construction record belongs to one
  queue, and a queue's record is in the table unless the construction was moved to another
  context, in which case the queue is cancelled.
\<close>

definition device_tasks :: "addr \<Rightarrow> service_task set" where
  "device_tasks a = {Prv_subscribe a, Prv_declare a}"

definition queue_ok ::
  "(string \<Rightarrow> addr option) \<Rightarrow> (addr \<Rightarrow> prv_device_new_ct option) \<Rightarrow> addr \<Rightarrow> task_queue \<Rightarrow> bool" where
  "queue_ok C P q x \<longleftrightarrow>
     (\<exists>pr. P (q_user_data x) = Some pr \<and> ct_queue_id pr = q \<and>
        (q_cancelled x \<longrightarrow> q_tasks x = []) \<and>
        (q_finally x = Prv_device_chain_end \<longrightarrow>
           C (ct_udn pr) = Some (q_user_data x) \<and> set (q_tasks x) \<subseteq> device_tasks (ct_device pr)) \<and>
        (q_finally x = Prv_device_context_switch_end \<longrightarrow>
           q_cancelled x \<and> C (ct_udn pr) \<noteq> Some (q_user_data x)))"

definition reg ::
  "(string \<Rightarrow> addr option) \<Rightarrow> (string \<Rightarrow> addr option) \<Rightarrow> (addr \<Rightarrow> prv_device_new_ct option) \<Rightarrow>
     (addr \<Rightarrow> task_queue option) \<Rightarrow> addr set \<Rightarrow> addr \<Rightarrow> bool" where
  "reg U C P Q D n \<longleftrightarrow>
     (\<forall>u a. U u = Some a \<longrightarrow> C u = None \<and> a \<in> D) \<and>
     (\<forall>u u' a. U u = Some a \<longrightarrow> U u' = Some a \<longrightarrow> u = u') \<and>
     (\<forall>u p. C u = Some p \<longrightarrow> (\<exists>pr. P p = Some pr \<and> ct_udn pr = u \<and> ct_device pr \<in> D)) \<and>
     (\<forall>u u' p p' pr pr'. C u = Some p \<longrightarrow> P p = Some pr \<longrightarrow> C u' = Some p' \<longrightarrow> P p' = Some pr' \<longrightarrow>
        ct_device pr = ct_device pr' \<longrightarrow> u = u') \<and>
     (\<forall>u u' p pr. C u = Some p \<longrightarrow> P p = Some pr \<longrightarrow> U u' \<noteq> Some (ct_device pr)) \<and>
     (\<forall>a \<in> D. (\<exists>u. U u = Some a) \<or> (\<exists>u p pr. C u = Some p \<and> P p = Some pr \<and> ct_device pr = a)) \<and>
     (\<forall>q x. Q q = Some x \<longrightarrow> queue_ok C P q x) \<and>
     (\<forall>p pr. P p = Some pr \<longrightarrow> (\<exists>x. Q (ct_queue_id pr) = Some x \<and> q_user_data x = p)) \<and>
     (\<forall>a \<in> D. a < n) \<and> (\<forall>p pr. P p = Some pr \<longrightarrow> p < n) \<and> (\<forall>q x. Q q = Some x \<longrightarrow> q < n)"

lemma reg_udn: "reg U C P Q D n \<Longrightarrow> U u = Some a \<Longrightarrow> C u = None \<and> a \<in> D"
  by (simp add: reg_def)

lemma reg_udn_inj: "reg U C P Q D n \<Longrightarrow> U u = Some a \<Longrightarrow> U u' = Some a \<Longrightarrow> u = u'"
  by (simp add: reg_def)

lemma reg_uc:
  "reg U C P Q D n \<Longrightarrow> C u = Some p \<Longrightarrow> \<exists>pr. P p = Some pr \<and> ct_udn pr = u \<and> ct_device pr \<in> D"
  by (simp add: reg_def)

lemma reg_uc_inj:
  "reg U C P Q D n \<Longrightarrow> C u = Some p \<Longrightarrow> P p = Some pr \<Longrightarrow> C u' = Some p' \<Longrightarrow> P p' = Some pr' \<Longrightarrow>
     ct_device pr = ct_device pr' \<Longrightarrow> u = u'"
  unfolding reg_def by blast

lemma reg_udn_uc: "reg U C P Q D n \<Longrightarrow> C u = Some p \<Longrightarrow> P p = Some pr \<Longrightarrow> U u' \<noteq> Some (ct_device pr)"
  unfolding reg_def by blast

lemma reg_device:
  assumes "reg U C P Q D n" and "a \<in> D"
  obtains u where "U u = Some a"
  | u p pr where "C u = Some p" "P p = Some pr" "ct_device pr = a"
proof -
  from assms have "(\<exists>u. U u = Some a) \<or> (\<exists>u p pr. C u = Some p \<and> P p = Some pr \<and> ct_device pr = a)"
    by (simp add: reg_def)
  then show thesis using that by blast
qed

lemma reg_queue: "reg U C P Q D n \<Longrightarrow> Q q = Some x \<Longrightarrow> queue_ok C P q x"
  unfolding reg_def by blast

lemma reg_priv:
  "reg U C P Q D n \<Longrightarrow> P p = Some pr \<Longrightarrow> \<exists>x. Q (ct_queue_id pr) = Some x \<and> q_user_data x = p"
  unfolding reg_def by blast

lemma reg_bound:
  "reg U C P Q D n \<Longrightarrow> a \<in> D \<Longrightarrow> a < n"
  "reg U C P Q D n \<Longrightarrow> P p = Some pr \<Longrightarrow> p < n"
  "reg U C P Q D n \<Longrightarrow> Q q = Some x \<Longrightarrow> q < n"
  unfolding reg_def by blast+

text \<open>The queue of a construction that is in the table.\<close>

lemma reg_uc_queue:
  assumes r: "reg U C P Q D n" and c: "C u = Some p" and p: "P p = Some pr"
  shows "ct_udn pr = u \<and> ct_device pr \<in> D \<and>
     (\<exists>x. Q (ct_queue_id pr) = Some x \<and> q_user_data x = p \<and> q_finally x = Prv_device_chain_end)"
proof -
  have u: "ct_udn pr = u" "ct_device pr \<in> D" using reg_uc [OF r c] p by auto
  obtain x where x: "Q (ct_queue_id pr) = Some x" "q_user_data x = p"
    using reg_priv [OF r p] by blast
  have "q_finally x = Prv_device_chain_end"
    using reg_queue [OF r x(1)] p c u x(2) by (cases "q_finally x") (auto simp: queue_ok_def)
  with x u show ?thesis by blast
qed

lemma reg_priv_queue_unique:
  "reg U C P Q D n \<Longrightarrow> P p = Some pr \<Longrightarrow> Q q = Some x \<Longrightarrow> q_user_data x = p \<Longrightarrow> ct_queue_id pr = q"
  using reg_queue [of U C P Q D n q x] by (auto simp: queue_ok_def)

lemma reg_empty: "reg (\<lambda>_. None) (\<lambda>_. None) (\<lambda>_. None) (\<lambda>_. None) {} n"
  by (simp add: reg_def)

lemma reg_mono: "reg U C P Q D n \<Longrightarrow> n \<le> n' \<Longrightarrow> reg U C P Q D n'"
  unfolding reg_def by (meson less_le_trans)

lemma reg_add:
  assumes r: "reg U C P Q D n" and fresh: "U u = None" "C u = None"
    and new: "n \<le> p" "n \<le> q" "n \<le> a" "p < n'" "q < n'" "a < n'" "n \<le> n'"
    and x: "q_finally x = Prv_device_chain_end" "q_user_data x = p" "\<not> q_cancelled x"
      "set (q_tasks x) \<subseteq> device_tasks a"
    and pr: "ct_udn pr = u" "ct_device pr = a" "ct_queue_id pr = q"
  shows "reg U (C(u \<mapsto> p)) (P(p \<mapsto> pr)) (Q(q \<mapsto> x)) (insert a D) n'"
proof -
  have nw: "p \<notin> dom P" "q \<notin> dom Q" "a \<notin> D" "\<And>v. C v \<noteq> Some p" "\<And>v. U v \<noteq> Some a"
    using reg_bound [OF r] reg_uc [OF r] reg_udn [OF r] new(1,2,3) by (auto, (meson leD)+)
  have other: "\<And>v p' pr'. C v = Some p' \<Longrightarrow> P p' = Some pr' \<Longrightarrow> ct_device pr' \<noteq> a \<and> ct_queue_id pr' \<noteq> q"
    using reg_uc_queue [OF r] nw(2,3) by blast
  have oq: "\<And>q' x'. Q q' = Some x' \<Longrightarrow> q_user_data x' \<noteq> p"
    using reg_queue [OF r] nw(1) by (auto simp: queue_ok_def)
  have op: "\<And>p' pr'. P p' = Some pr' \<Longrightarrow> ct_queue_id pr' \<noteq> q"
    using reg_priv [OF r] nw(2) by blast
  show ?thesis
    unfolding reg_def
  proof (intro conjI)
    show "\<forall>v b. U v = Some b \<longrightarrow> (C(u \<mapsto> p)) v = None \<and> b \<in> insert a D"
      using reg_udn [OF r] fresh by auto
    show "\<forall>v v' b. U v = Some b \<longrightarrow> U v' = Some b \<longrightarrow> v = v'"
      using reg_udn_inj [OF r] by blast
    show "\<forall>v p'. (C(u \<mapsto> p)) v = Some p' \<longrightarrow>
        (\<exists>pr'. (P(p \<mapsto> pr)) p' = Some pr' \<and> ct_udn pr' = v \<and> ct_device pr' \<in> insert a D)"
    proof (intro allI impI)
      fix v p' assume v: "(C(u \<mapsto> p)) v = Some p'"
      show "\<exists>pr'. (P(p \<mapsto> pr)) p' = Some pr' \<and> ct_udn pr' = v \<and> ct_device pr' \<in> insert a D"
      proof (cases "v = u")
        case True
        then show ?thesis using v pr by auto
      next
        case False
        then show ?thesis using v reg_uc [OF r, of v p'] nw(4) [of v] by auto
      qed
    qed
    show "\<forall>v v' p1 p2 pr1 pr2. (C(u \<mapsto> p)) v = Some p1 \<longrightarrow> (P(p \<mapsto> pr)) p1 = Some pr1 \<longrightarrow>
        (C(u \<mapsto> p)) v' = Some p2 \<longrightarrow> (P(p \<mapsto> pr)) p2 = Some pr2 \<longrightarrow> ct_device pr1 = ct_device pr2 \<longrightarrow> v = v'"
      using reg_uc_inj [OF r] other nw(4) pr by (auto split: if_splits) metis+
    show "\<forall>v v' p' pr'. (C(u \<mapsto> p)) v = Some p' \<longrightarrow> (P(p \<mapsto> pr)) p' = Some pr' \<longrightarrow>
        U v' \<noteq> Some (ct_device pr')"
      using reg_udn_uc [OF r] nw(4,5) pr by (auto split: if_splits)
    show "\<forall>b \<in> insert a D. (\<exists>v. U v = Some b) \<or>
        (\<exists>v p' pr'. (C(u \<mapsto> p)) v = Some p' \<and> (P(p \<mapsto> pr)) p' = Some pr' \<and> ct_device pr' = b)"
    proof
      fix b assume "b \<in> insert a D"
      then consider "b = a" | "b \<in> D" by blast
      then show "(\<exists>v. U v = Some b) \<or>
          (\<exists>v p' pr'. (C(u \<mapsto> p)) v = Some p' \<and> (P(p \<mapsto> pr)) p' = Some pr' \<and> ct_device pr' = b)"
      proof cases
        case 1
        then show ?thesis using pr by auto
      next
        case 2
        from r this show ?thesis
        proof (cases rule: reg_device)
          case (2 v p' pr')
          then have "v \<noteq> u" "p' \<noteq> p" using fresh nw(1) by auto
          with 2 show ?thesis by auto
        qed auto
      qed
    qed
    show "\<forall>q' x'. (Q(q \<mapsto> x)) q' = Some x' \<longrightarrow> queue_ok (C(u \<mapsto> p)) (P(p \<mapsto> pr)) q' x'"
    proof (intro allI impI)
      fix q' x' assume q': "(Q(q \<mapsto> x)) q' = Some x'"
      show "queue_ok (C(u \<mapsto> p)) (P(p \<mapsto> pr)) q' x'"
      proof (cases "q' = q")
        case True
        then show ?thesis using q' x pr by (auto simp: queue_ok_def)
      next
        case False
        then have "Q q' = Some x'" using q' by simp
        from reg_queue [OF r this] fresh oq [OF this] show ?thesis
          by (auto simp: queue_ok_def)
      qed
    qed
    show "\<forall>p' pr'. (P(p \<mapsto> pr)) p' = Some pr' \<longrightarrow>
        (\<exists>x'. (Q(q \<mapsto> x)) (ct_queue_id pr') = Some x' \<and> q_user_data x' = p')"
    proof (intro allI impI)
      fix p' pr' assume p': "(P(p \<mapsto> pr)) p' = Some pr'"
      show "\<exists>x'. (Q(q \<mapsto> x)) (ct_queue_id pr') = Some x' \<and> q_user_data x' = p'"
      proof (cases "p' = p")
        case True
        then show ?thesis using p' x(2) pr(3) by auto
      next
        case False
        then have "P p' = Some pr'" using p' by simp
        from reg_priv [OF r this] op [OF this] show ?thesis by auto
      qed
    qed
    show "\<forall>b \<in> insert a D. b < n'" "\<forall>p' pr'. (P(p \<mapsto> pr)) p' = Some pr' \<longrightarrow> p' < n'"
      "\<forall>q' x'. (Q(q \<mapsto> x)) q' = Some x' \<longrightarrow> q' < n'"
      using reg_bound [OF r] new(4-6) less_le_trans [OF _ new(7)] by auto
  qed
qed

text \<open>A construction ends well: the device moves to the other table.\<close>

lemma reg_publish:
  assumes r: "reg U C P Q D n" and q: "Q q = Some x" "q_finally x = Prv_device_chain_end"
    and pr: "P (q_user_data x) = Some pr"
  shows "reg (U(ct_udn pr \<mapsto> ct_device pr)) (C(ct_udn pr := None)) (P(q_user_data x := None))
           (Q(q := None)) D n"
proof -
  let ?u = "ct_udn pr" and ?a = "ct_device pr" and ?p = "q_user_data x"
  have c: "C ?u = Some ?p" "ct_queue_id pr = q"
    using reg_queue [OF r q(1)] q(2) pr by (auto simp: queue_ok_def)
  have a: "?a \<in> D" using reg_uc [OF r c(1)] pr by auto
  have noU: "U v \<noteq> Some ?a" for v using reg_udn_uc [OF r c(1) pr] by auto
  have U0: "U ?u = None" using reg_udn [OF r] c(1) by (cases "U ?u") auto
  have other: "v = ?u" if "C v = Some ?p" for v using reg_uc [OF r that] pr by auto
  have otherq: "q' = q" if "Q q' = Some x'" "q_user_data x' = ?p" for q' x'
    using reg_queue [OF r that(1)] that(2) pr c(2) by (auto simp: queue_ok_def)
  show ?thesis
    unfolding reg_def
  proof (intro conjI allI impI ballI)
    fix v b assume "(U(?u \<mapsto> ?a)) v = Some b"
    then show "(C(?u := None)) v = None" "b \<in> D"
      using reg_udn [OF r, of v b] a by (auto split: if_splits)
  next
    fix v v' b assume "(U(?u \<mapsto> ?a)) v = Some b" "(U(?u \<mapsto> ?a)) v' = Some b"
    then show "v = v'" using reg_udn_inj [OF r, of v b v'] noU by (auto split: if_splits)
  next
    fix v p' assume "(C(?u := None)) v = Some p'"
    then have "C v = Some p'" "v \<noteq> ?u" by (auto split: if_splits)
    then show "\<exists>pr'. (P(?p := None)) p' = Some pr' \<and> ct_udn pr' = v \<and> ct_device pr' \<in> D"
      using reg_uc [OF r, of v p'] other by auto
  next
    fix v v' p1 p2 pr1 pr2
    assume "(C(?u := None)) v = Some p1" "(P(?p := None)) p1 = Some pr1"
      "(C(?u := None)) v' = Some p2" "(P(?p := None)) p2 = Some pr2" "ct_device pr1 = ct_device pr2"
    then show "v = v'" using reg_uc_inj [OF r] by (auto split: if_splits)
  next
    fix v v' p' pr' assume h: "(C(?u := None)) v = Some p'" "(P(?p := None)) p' = Some pr'"
    then have h': "C v = Some p'" "P p' = Some pr'" "v \<noteq> ?u" by (auto split: if_splits)
    then have "ct_device pr' \<noteq> ?a" using reg_uc_inj [OF r h'(1,2) c(1) pr] by auto
    then show "(U(?u \<mapsto> ?a)) v' \<noteq> Some (ct_device pr')"
      using reg_udn_uc [OF r h'(1,2), of v'] by auto
  next
    fix b assume b: "b \<in> D"
    from r b show "(\<exists>v. (U(?u \<mapsto> ?a)) v = Some b) \<or>
        (\<exists>v p' pr'. (C(?u := None)) v = Some p' \<and> (P(?p := None)) p' = Some pr' \<and> ct_device pr' = b)"
    proof (cases rule: reg_device)
      case (1 v)
      then have "v \<noteq> ?u" using U0 by auto
      with 1 show ?thesis by auto
    next
      case (2 v p' pr')
      show ?thesis
      proof (cases "v = ?u")
        case True
        then show ?thesis using 2 c(1) pr by auto
      next
        case False
        then have "p' \<noteq> ?p" using 2(1) other by auto
        with 2 False show ?thesis by auto
      qed
    qed
  next
    fix q' x' assume "(Q(q := None)) q' = Some x'"
    then have q': "Q q' = Some x'" "q' \<noteq> q" by (auto split: if_splits)
    then have ne: "q_user_data x' \<noteq> ?p" using otherq by auto
    show "queue_ok (C(?u := None)) (P(?p := None)) q' x'"
      using reg_queue [OF r q'(1)] ne c(1) by (auto simp: queue_ok_def)
  next
    fix p' pr' assume "(P(?p := None)) p' = Some pr'"
    then have p': "P p' = Some pr'" "p' \<noteq> ?p" by (auto split: if_splits)
    then have "ct_queue_id pr' \<noteq> q"
      using reg_priv [OF r p'(1)] q(1) by auto
    then show "\<exists>x'. (Q(q := None)) (ct_queue_id pr') = Some x' \<and> q_user_data x' = p'"
      using reg_priv [OF r p'(1)] by auto
  qed (use reg_bound [OF r] in \<open>auto split: if_splits\<close>)
qed

text \<open>A device that is registered under its UDN is removed.\<close>

lemma reg_remove:
  assumes r: "reg U C P Q D n" and u: "U u = Some a"
  shows "reg (U(u := None)) C P Q (D - {a}) n"
proof -
  have uc: "ct_device pr \<noteq> a" if "C v = Some p" "P p = Some pr" for v p pr
    using reg_udn_uc [OF r that, of u] u by auto
  show ?thesis
    unfolding reg_def
  proof (intro conjI allI impI ballI)
    fix v b assume "(U(u := None)) v = Some b"
    then show "C v = None" "b \<in> D - {a}"
      using reg_udn [OF r, of v b] reg_udn_inj [OF r, of v b u] u by (auto split: if_splits)
  next
    fix v v' b assume "(U(u := None)) v = Some b" "(U(u := None)) v' = Some b"
    then show "v = v'" using reg_udn_inj [OF r] by (auto split: if_splits)
  next
    fix v p assume "C v = Some p"
    then show "\<exists>pr. P p = Some pr \<and> ct_udn pr = v \<and> ct_device pr \<in> D - {a}"
      using reg_uc [OF r] uc by fastforce
  next
    fix b assume "b \<in> D - {a}"
    then have b: "b \<in> D" "b \<noteq> a" by auto
    from r b(1) show "(\<exists>v. (U(u := None)) v = Some b) \<or>
        (\<exists>v p pr. C v = Some p \<and> P p = Some pr \<and> ct_device pr = b)"
    proof (cases rule: reg_device)
      case (1 v)
      then have "v \<noteq> u" using u b(2) by auto
      with 1 show ?thesis by auto
    qed blast
  qed (use reg_uc_inj [OF r] reg_udn_uc [OF r] reg_queue [OF r] reg_priv [OF r] reg_bound [OF r]
      in \<open>auto split: if_splits\<close>)
qed

text \<open>Queues: a task is taken, or the queue is cancelled.\<close>

lemma reg_queue_update:
  assumes r: "reg U C P Q D n" and q: "Q q = Some x"
    and x': "q_user_data x' = q_user_data x" "q_finally x' = q_finally x"
      "q_cancelled x \<Longrightarrow> q_cancelled x'" "q_cancelled x' \<Longrightarrow> q_tasks x' = []"
      "set (q_tasks x') \<subseteq> set (q_tasks x)"
  shows "reg U C P (Q(q \<mapsto> x')) D n"
proof -
  have "queue_ok C P q x'"
    using reg_queue [OF r q] x' by (auto simp: queue_ok_def)
  then show ?thesis
    using r q x'(1) unfolding reg_def by (auto split: if_splits) (metis option.inject)+
qed

text \<open>A construction was cancelled: publishing and removing the device amounts to the same.\<close>

lemma reg_abandon:
  assumes r: "reg U C P Q D n" and q: "Q q = Some x" "q_finally x = Prv_device_chain_end"
    and pr: "P (q_user_data x) = Some pr"
  shows "reg U (C(ct_udn pr := None)) (P(q_user_data x := None)) (Q(q := None)) (D - {ct_device pr}) n"
proof -
  have "C (ct_udn pr) = Some (q_user_data x)"
    using reg_queue [OF r q(1)] q(2) pr by (auto simp: queue_ok_def)
  then have "U (ct_udn pr) = None"
    using reg_udn [OF r] by (cases "U (ct_udn pr)") auto
  then have "U(ct_udn pr \<mapsto> ct_device pr, ct_udn pr := None) = U"
    by auto
  with reg_remove [OF reg_publish [OF r q pr], of "ct_udn pr" "ct_device pr"] show ?thesis
    by simp
qed

text \<open>A construction is moved to another context: the old queue is told to end differently and is
  cancelled, a new record with a new queue takes its place.\<close>

lemma reg_switch:
  assumes r: "reg U C P Q D n" and c: "C u = Some p" and pr: "P p = Some pr"
    and x: "Q (ct_queue_id pr) = Some x"
    and new: "n \<le> p'" "n \<le> q'" "p' < n'" "q' < n'" "n \<le> n'"
    and x': "q_finally x' = Prv_device_chain_end" "q_user_data x' = p'" "\<not> q_cancelled x'"
      "set (q_tasks x') \<subseteq> device_tasks (ct_device pr)"
    and pr': "ct_udn pr' = u" "ct_device pr' = ct_device pr" "ct_queue_id pr' = q'"
    and old: "q_finally y = Prv_device_context_switch_end" "q_user_data y = p" "q_cancelled y" "q_tasks y = []"
  shows "reg U (C(u \<mapsto> p')) (P(p' \<mapsto> pr')) (Q(ct_queue_id pr \<mapsto> y, q' \<mapsto> x')) D n'"
proof -
  let ?q = "ct_queue_id pr"
  have nw: "P p' = None" "Q q' = None"
    using reg_bound(2) [OF r, of p'] reg_bound(3) [OF r, of q'] new(1,2)
    by (cases "P p'"; cases "Q q'"; simp)+
  then have ne: "p \<noteq> p'" "?q \<noteq> q'" using pr x by auto
  have u: "ct_udn pr = u" "ct_device pr \<in> D" using reg_uc [OF r c] pr by auto
  have noC: "C v \<noteq> Some p'" for v using reg_uc [OF r, of v p'] nw(1) by auto
  have oq: "q_user_data z \<noteq> p'" if "Q w = Some z" for w z
    using reg_queue [OF r that] nw(1) by (auto simp: queue_ok_def)
  have oqp: "w = ?q" if "Q w = Some z" "q_user_data z = p" for w z
    using reg_priv_queue_unique [OF r pr that] by simp
  have op: "ct_queue_id w \<noteq> q'" if "P v = Some w" for v w
    using reg_priv [OF r that] nw(2) by auto
  show ?thesis
    unfolding reg_def
  proof (intro conjI allI impI ballI)
    fix v b assume "U v = Some b"
    then show "(C(u \<mapsto> p')) v = None" "b \<in> D" using reg_udn [OF r, of v b] c by auto
  next
    fix v w assume v: "(C(u \<mapsto> p')) v = Some w"
    show "\<exists>z. (P(p' \<mapsto> pr')) w = Some z \<and> ct_udn z = v \<and> ct_device z \<in> D"
    proof (cases "v = u")
      case True
      then show ?thesis using v pr' u by auto
    next
      case False
      then show ?thesis using v reg_uc [OF r, of v w] noC [of v] by auto
    qed
  next
    fix v v' p1 p2 pr1 pr2
    assume "(C(u \<mapsto> p')) v = Some p1" "(P(p' \<mapsto> pr')) p1 = Some pr1"
      "(C(u \<mapsto> p')) v' = Some p2" "(P(p' \<mapsto> pr')) p2 = Some pr2" "ct_device pr1 = ct_device pr2"
    then show "v = v'"
      using reg_uc_inj [OF r] reg_uc_inj [OF r c pr] noC pr'(2) by (auto split: if_splits)
  next
    fix v v' w z assume "(C(u \<mapsto> p')) v = Some w" "(P(p' \<mapsto> pr')) w = Some z"
    then show "U v' \<noteq> Some (ct_device z)"
      using reg_udn_uc [OF r] reg_udn_uc [OF r c pr] noC pr'(2) by (auto split: if_splits)
  next
    fix b assume b: "b \<in> D"
    from r b show "(\<exists>v. U v = Some b) \<or>
        (\<exists>v w z. (C(u \<mapsto> p')) v = Some w \<and> (P(p' \<mapsto> pr')) w = Some z \<and> ct_device z = b)"
    proof (cases rule: reg_device)
      case (2 v w z)
      show ?thesis
      proof (cases "v = u")
        case True
        then have "b = ct_device pr'" using 2 c pr pr'(2) by auto
        then show ?thesis by auto
      next
        case False
        then show ?thesis using 2 noC [of v] by auto
      qed
    qed blast
  next
    fix w z assume w: "(Q(?q \<mapsto> y, q' \<mapsto> x')) w = Some z"
    consider "w = q'" "z = x'" | "w = ?q" "z = y" | "w \<noteq> q'" "w \<noteq> ?q" "Q w = Some z"
      using w by (auto split: if_splits)
    then show "queue_ok (C(u \<mapsto> p')) (P(p' \<mapsto> pr')) w z"
    proof cases
      case 1
      then show ?thesis using x' pr' by (auto simp: queue_ok_def)
    next
      case 2
      then show ?thesis using old pr u ne(1) by (auto simp: queue_ok_def)
    next
      case 3
      then have "q_user_data z \<noteq> p" using oqp by auto
      then show ?thesis
        using reg_queue [OF r 3(3)] oq [OF 3(3)] c by (auto simp: queue_ok_def)
    qed
  next
    fix v w assume w: "(P(p' \<mapsto> pr')) v = Some w"
    show "\<exists>z. (Q(?q \<mapsto> y, q' \<mapsto> x')) (ct_queue_id w) = Some z \<and> q_user_data z = v"
    proof (cases "v = p'")
      case True
      then show ?thesis using w x'(2) pr'(3) by auto
    next
      case False
      then have v: "P v = Some w" using w by simp
      from reg_priv [OF r v] obtain z where z: "Q (ct_queue_id w) = Some z" "q_user_data z = v" by blast
      show ?thesis
      proof (cases "ct_queue_id w = ?q")
        case True
        then have "v = p" using z x reg_priv [OF r pr] by auto
        then show ?thesis using True old(2) ne(2) by auto
      next
        case False
        then show ?thesis using z op [OF v] by auto
      qed
    qed
  qed (use reg_udn_inj [OF r] reg_bound [OF r] new(3,4) less_le_trans [OF _ new(5)] x
      in \<open>auto split: if_splits\<close>)
qed

text \<open>The cancelled queue of a construction that was moved ends.\<close>

lemma reg_switch_end:
  assumes r: "reg U C P Q D n" and q: "Q q = Some x" "q_finally x = Prv_device_context_switch_end"
  shows "reg U C (P(q_user_data x := None)) (Q(q := None)) D n"
proof -
  let ?p = "q_user_data x"
  obtain pr where pr: "P ?p = Some pr" "ct_queue_id pr = q" "C (ct_udn pr) \<noteq> Some ?p"
    using reg_queue [OF r q(1)] q(2) by (auto simp: queue_ok_def)
  have noC: "C v \<noteq> Some ?p" for v
    using reg_uc [OF r, of v ?p] pr by auto
  have other: "q' = q" if "Q q' = Some x'" "q_user_data x' = ?p" for q' x'
    using reg_priv_queue_unique [OF r pr(1) that] pr(2) by simp
  have keep: "(P(?p := None)) w = P w" if "C v = Some w" for v w
    using that noC by auto
  show ?thesis
    unfolding reg_def
  proof (intro conjI allI impI ballI)
    fix v w assume "C v = Some w"
    then show "\<exists>z. (P(?p := None)) w = Some z \<and> ct_udn z = v \<and> ct_device z \<in> D"
      using reg_uc [OF r, of v w] keep by auto
  next
    fix b assume b: "b \<in> D"
    from r b show "(\<exists>v. U v = Some b) \<or>
        (\<exists>v w z. C v = Some w \<and> (P(?p := None)) w = Some z \<and> ct_device z = b)"
    proof (cases rule: reg_device)
      case (2 v w z)
      then have "(P(?p := None)) w = Some z" using keep [OF 2(1)] by simp
      with 2 show ?thesis by blast
    qed blast
  next
    fix w z assume "(Q(q := None)) w = Some z"
    then have w: "Q w = Some z" "w \<noteq> q" by (auto split: if_splits)
    then have "q_user_data z \<noteq> ?p" using other by auto
    then show "queue_ok C (P(?p := None)) w z"
      using reg_queue [OF r w(1)] by (auto simp: queue_ok_def)
  next
    fix v w assume "(P(?p := None)) v = Some w"
    then have v: "P v = Some w" "v \<noteq> ?p" by (auto split: if_splits)
    then have "ct_queue_id w \<noteq> q" using reg_priv [OF r v(1)] q(1) by auto
    then show "\<exists>z. (Q(q := None)) (ct_queue_id w) = Some z \<and> q_user_data z = v"
      using reg_priv [OF r v(1)] by auto
  qed (use reg_udn [OF r] reg_udn_inj [OF r] reg_uc_inj [OF r] reg_udn_uc [OF r] reg_bound [OF r]
      in \<open>auto split: if_splits\<close>)
qed

end
