(* ===== verification/Upnp_Inv.thy ===== *)
theory Upnp_Inv
  imports Registry
begin

section \<open>The invariant of the registry, and devices that appear\<close>

text \<open>
  The invariant of the registry's states says that the tables, the construction records, the
  queues and the timers fit together and what the clients were told. It is preserved by an
  operation on one device (a locale of \<open>Dev_Context\<close>), by the addition of a device and of a
  context, and by the walk over the sub-devices of a device that appears.
\<close>

subsection \<open>Effects that only log, and timers that are removed\<close>

definition quiet :: "effect \<Rightarrow> bool" where
  "quiet e \<longleftrightarrow>
     (case e of
        Timeout_add _ _ _ \<Rightarrow> False
      | Add_queue _ \<Rightarrow> False
      | Set_finally _ _ \<Rightarrow> False
      | Set_user_data _ _ \<Rightarrow> False
      | Add_service_task _ _ \<Rightarrow> False
      | Cancel_queue _ \<Rightarrow> False
      | Notify _ _ sig _ \<Rightarrow> sig \<noteq> DLD_INTERFACE_FOUND_DEVICE \<and> sig \<noteq> DLD_INTERFACE_LOST_DEVICE
      | _ \<Rightarrow> True)"

definition removed_ids :: "effect list \<Rightarrow> source_id list" where
  "removed_ids eff = concat (map (\<lambda>e. case e of Source_remove i \<Rightarrow> [i] | _ \<Rightarrow> []) eff)"

lemma removed_ids_simps [simp]:
  "removed_ids [] = []"
  "removed_ids (e # eff) = (case e of Source_remove i \<Rightarrow> [i] | _ \<Rightarrow> []) @ removed_ids eff"
  "removed_ids (eff1 @ eff2) = removed_ids eff1 @ removed_ids eff2"
  by (simp_all add: removed_ids_def)

text \<open>The paths the clients know from the signals FoundDevice and LostDevice.\<close>

definition announce :: "effect \<Rightarrow> string multiset \<Rightarrow> string multiset" where
  "announce e M =
     (case e of
        Notify _ _ sig (GTuple [GObjPath p]) \<Rightarrow>
          if sig = DLD_INTERFACE_FOUND_DEVICE then add_mset p M
          else if sig = DLD_INTERFACE_LOST_DEVICE then M - {#p#} else M
      | _ \<Rightarrow> M)"

definition announced :: "effect list \<Rightarrow> string multiset" where
  "announced eff = fold announce eff {#}"

lemma announced_append: "announced (eff1 @ eff2) = fold announce eff2 (announced eff1)"
  by (simp add: announced_def)

lemma quiet_announce: "quiet e \<Longrightarrow> announce e M = M"
  by (auto simp: quiet_def announce_def split: effect.splits gvariant.splits list.splits)

lemma quiet_announced: "list_all quiet eff \<Longrightarrow> fold announce eff M = M"
  by (induction eff arbitrary: M) (simp_all add: quiet_announce)

lemma emit_append: "emit (eff1 @ eff2) s = emit eff2 (emit eff1 s)"
  by (induction eff1 arbitrary: s) simp_all

lemma emit_quiet:
  "list_all quiet eff \<Longrightarrow>
     emit eff s = s\<lparr>sources := filter (\<lambda>(i, _). i \<notin> set (removed_ids eff)) (sources s),
                    calls := calls s @ eff\<rparr>"
proof (induction eff arbitrary: s)
  case Nil
  have "filter (\<lambda>(i, _). True) xs = xs" for xs :: "(nat \<times> timer_cb) list"
    by (induction xs) auto
  then show ?case by simp
next
  case (Cons e eff)
  have e: "(env_step e s)\<lparr>calls := calls s @ [e]\<rparr> =
      s\<lparr>sources := filter (\<lambda>(i, _). i \<notin> set (removed_ids [e])) (sources s), calls := calls s @ [e]\<rparr>"
    using Cons.prems Cons.IH [of s]
    by (cases e) (auto simp: quiet_def env_step_def case_prod_unfold)
  have f: "filter P (filter Q xs) = filter (\<lambda>x. Q x \<and> P x) xs" for P Q and xs :: "(nat \<times> timer_cb) list"
    by (induction xs) auto
  show ?case
    unfolding emit.simps e using Cons.prems
    by (simp add: Cons.IH f case_prod_unfold del: removed_ids_simps(2))
      (simp add: removed_ids_simps(2) conj_commute)
qed

lemma quiet_context_effects:
  "list_all quiet (snd (prv_context_unsubscribe c))"
  "list_all quiet (prv_dld_context_delete c)"
  "list_all quiet (snd (subscribe_context a c))"
  "set (removed_ids (snd (prv_context_unsubscribe c))) = {bms_timeout_id c} - {0}"
  "set (removed_ids (prv_dld_context_delete c)) = {bms_timeout_id c} - {0}"
  "removed_ids (snd (subscribe_context a c)) = []"
  by (auto simp: prv_context_unsubscribe_def prv_dld_context_delete_def subscribe_context_def
      remove_notifies_def quiet_def)

subsection \<open>Devices and their timers\<close>

text \<open>The timers that a device and its contexts hold.\<close>

definition held :: "addr \<Rightarrow> dld_device \<Rightarrow> (source_id \<times> timer_cb) set" where
  "held a d =
     {(dev_timeout_id d, Subscribe_to_service_changes a) |_::unit. dev_timeout_id d \<noteq> 0} \<union>
     {(bms_timeout_id c, Re_enable_bms_subscription a (ctx_ref c)) | c.
        c \<in> set (dev_contexts d) \<and> bms_timeout_id c \<noteq> 0}"

lemma held_iff:
  "(j, cb) \<in> held a d \<longleftrightarrow>
     j \<noteq> 0 \<and> (j = dev_timeout_id d \<and> cb = Subscribe_to_service_changes a \<or>
       (\<exists>c \<in> set (dev_contexts d). j = bms_timeout_id c \<and> cb = Re_enable_bms_subscription a (ctx_ref c)))"
  by (auto simp: held_def)

definition dev_ok :: "addr \<Rightarrow> addr \<Rightarrow> dld_device \<Rightarrow> bool" where
  "dev_ok n a d \<longleftrightarrow>
     dev_ref d = a \<and> context_inv d \<and> length (dev_ids d) = DLD_INTERFACE_INFO_MAX \<and>
     (\<forall>c \<in> set (dev_contexts d). bms_proxy c \<noteq> None \<and> ctx_ref c < n)"

lemma dev_ok_mono: "dev_ok n a d \<Longrightarrow> n \<le> n' \<Longrightarrow> dev_ok n' a d"
  by (auto simp: dev_ok_def intro: less_le_trans)

text \<open>The device of a construction that was cancelled and is about to be deleted.\<close>

definition doomed :: "dld_upnp \<Rightarrow> addr \<Rightarrow> bool" where
  "doomed s a \<longleftrightarrow>
     (\<exists>q x pr. queues s q = Some x \<and> q_cancelled x \<and> q_finally x = Prv_device_chain_end \<and>
        privs s (q_user_data x) = Some pr \<and> ct_device pr = a)"

definition known_paths :: "dld_upnp \<Rightarrow> string multiset" where
  "known_paths s = image_mset (\<lambda>a. dev_path (the (devices s a))) (mset (map snd (device_udn_map s)))"

definition reg_of :: "dld_upnp \<Rightarrow> bool" where
  "reg_of s \<longleftrightarrow>
     reg (map_of (device_udn_map s)) (map_of (device_uc_map s)) (privs s) (queues s)
       (dom (devices s)) (next_ref s)"

definition devices_ok :: "addr set \<Rightarrow> dld_upnp \<Rightarrow> bool" where
  "devices_ok X s \<longleftrightarrow>
     (\<forall>a d. devices s a = Some d \<longrightarrow>
        dev_ok (next_ref s) a d \<and> (dev_contexts d = [] \<longrightarrow> a \<in> X \<or> doomed s a))"

definition sources_ok :: "dld_upnp \<Rightarrow> bool" where
  "sources_ok s \<longleftrightarrow>
     distinct (map fst (sources s)) \<and> 0 < next_source s \<and>
     (\<forall>i cb. (i, cb) \<in> set (sources s) \<longrightarrow>
        0 < i \<and> i < next_source s \<and> (\<exists>a d. devices s a = Some d \<and> (i, cb) \<in> held a d))"

text \<open>
  The object paths of the devices are pairwise different, since the counter they are made of does
  not wrap around before 2^32 structures have been allocated.
\<close>

definition paths_ok :: "dld_upnp \<Rightarrow> bool" where
  "paths_ok s \<longleftrightarrow>
     (next_ref s < 2 ^ 32 \<longrightarrow>
        unat (upnp_counter s) < next_ref s \<and>
        (\<forall>a d. devices s a = Some d \<longrightarrow> (\<exists>k < upnp_counter s. dev_path d = dld_device_path k)) \<and>
        (\<forall>a b d e. devices s a = Some d \<longrightarrow> devices s b = Some e \<longrightarrow> dev_path d = dev_path e \<longrightarrow> a = b))"

lemma paths_ok_keep:
  assumes ok: "paths_ok s" and le: "next_ref s \<le> next_ref s'" and c: "upnp_counter s' = upnp_counter s"
    and dev: "\<And>b e'. devices s' b = Some e' \<Longrightarrow> \<exists>e. devices s b = Some e \<and> dev_path e = dev_path e'"
  shows "paths_ok s'"
  unfolding paths_ok_def
proof (intro impI conjI allI)
  assume lt: "next_ref s' < 2 ^ 32"
  then have p: "next_ref s < 2 ^ 32" using le by simp
  show "unat (upnp_counter s') < next_ref s'" using ok p le c by (simp add: paths_ok_def)
  fix a d assume a: "devices s' a = Some d"
  then show "\<exists>k < upnp_counter s'. dev_path d = dld_device_path k"
    using dev [OF a] ok p c unfolding paths_ok_def by metis
  fix b e assume "devices s' b = Some e" "dev_path d = dev_path e"
  then show "a = b" using dev [OF a] dev ok p unfolding paths_ok_def by metis
qed

lemma paths_ok_add:
  assumes ok: "paths_ok s" and le: "Suc (next_ref s) \<le> next_ref s'"
    and c: "upnp_counter s' = upnp_counter s + 1"
    and dev: "devices s' = (devices s)(a \<mapsto> d)" and path: "dev_path d = dld_device_path (upnp_counter s)"
  shows "paths_ok s'"
  unfolding paths_ok_def
proof (intro impI)
  let ?c = "upnp_counter s"
  assume lt: "next_ref s' < 2 ^ 32"
  then have p: "next_ref s < 2 ^ 32" "unat ?c < next_ref s"
    and old: "\<And>b e. devices s b = Some e \<Longrightarrow> \<exists>k < ?c. dev_path e = dld_device_path k"
    and inj: "\<And>x y d e. devices s x = Some d \<Longrightarrow> devices s y = Some e \<Longrightarrow> dev_path d = dev_path e \<Longrightarrow> x = y"
    using le ok unfolding paths_ok_def by (fastforce, fastforce, fastforce, metis Suc_leD le_less_trans)
  then have u: "unat (?c + 1) = Suc (unat ?c)"
    using lt le by (simp add: unat_word_ariths)
  then have less: "k < ?c + 1 \<longleftrightarrow> k \<le> ?c" for k
    using u by (simp add: word_less_nat_alt word_le_nat_alt less_Suc_eq_le)
  have new: "dev_path e \<noteq> dev_path d" if "devices s b = Some e" for b e
    using old [OF that] path by (auto simp: device_path_inj)
  have "\<exists>k < ?c + 1. dev_path e = dld_device_path k" if "devices s' b = Some e" for b e
    using that old [of b e] path unfolding dev less by (auto split: if_splits intro: less_imp_le)
  moreover have "x = y" if "devices s' x = Some d1" "devices s' y = Some d2" "dev_path d1 = dev_path d2" for x y d1 d2
    using that inj [of x d1 y d2] new [of x d1] new [of y d2] unfolding dev by (auto split: if_splits)
  ultimately show "unat (upnp_counter s') < next_ref s' \<and>
     (\<forall>a d. devices s' a = Some d \<longrightarrow> (\<exists>k < upnp_counter s'. dev_path d = dld_device_path k)) \<and>
     (\<forall>a b d e. devices s' a = Some d \<longrightarrow> devices s' b = Some e \<longrightarrow> dev_path d = dev_path e \<longrightarrow> a = b)"
    using u p le c by auto
qed

text \<open>
  The invariant; inside an operation the devices of X may for a moment have no context
  although they are not about to be deleted.
\<close>

definition upnp_inv_except :: "addr set \<Rightarrow> dld_upnp \<Rightarrow> bool" where
  "upnp_inv_except X s \<longleftrightarrow>
     distinct (map fst (device_udn_map s)) \<and> distinct (map fst (device_uc_map s)) \<and>
     reg_of s \<and> devices_ok X s \<and> sources_ok s \<and> paths_ok s \<and>
     announced (calls s) = known_paths s"

abbreviation upnp_inv :: "dld_upnp \<Rightarrow> bool" where
  "upnp_inv s \<equiv> upnp_inv_except {} s"

lemma upnp_inv_new: "upnp_inv dld_upnp_new"
  by (simp add: upnp_inv_except_def dld_upnp_new_def reg_of_def reg_empty devices_ok_def
      sources_ok_def announced_def known_paths_def paths_ok_def)

lemma known_paths_cong:
  assumes "device_udn_map s' = device_udn_map s"
    and "\<And>a. a \<in> snd ` set (device_udn_map s) \<Longrightarrow>
           dev_path (the (devices s' a)) = dev_path (the (devices s a))"
  shows "known_paths s' = known_paths s"
  unfolding known_paths_def assms(1) by (rule image_mset_cong) (use assms(2) in auto)

lemma sources_ok_extend:
  assumes "sources_ok s" and "sources s' = sources s" and "next_source s' = next_source s"
    and "\<And>b e. devices s b = Some e \<Longrightarrow> devices s' b = Some e"
  shows "sources_ok s'"
  using assms unfolding sources_ok_def by metis

text \<open>An operation on one device.\<close>

lemma inv_device_update:
  assumes inv: "upnp_inv_except X s" and d: "devices s a = Some d"
    and ok: "dev_ok (next_ref s) a d'" and path: "dev_path d' = dev_path d"
    and ne: "dev_contexts d' = [] \<Longrightarrow> a \<in> X \<or> dev_contexts d = []"
    and quiet: "list_all quiet eff"
    and timers: "held a d \<inter> set (sources s) - held a d' \<subseteq> {(i, cb). i \<in> set (removed_ids eff)}"
  shows "upnp_inv_except X (emit eff (set_device a d' s))"
proof -
  let ?s' = "emit eff (set_device a d' s)"
  have s': "?s' = s\<lparr>devices := (devices s)(a \<mapsto> d'),
      sources := filter (\<lambda>(i, _). i \<notin> set (removed_ids eff)) (sources s), calls := calls s @ eff\<rparr>"
    by (simp add: emit_quiet [OF quiet] set_device_def)
  have "dom ((devices s)(a \<mapsto> d')) = dom (devices s)" using d by auto
  then have reg: "reg_of ?s'" using inv by (simp add: upnp_inv_except_def reg_of_def s')
  have doom: "doomed ?s' b = doomed s b" for b by (simp add: doomed_def s')
  have dev: "devices_ok X ?s'"
    using inv d ok ne unfolding upnp_inv_except_def devices_ok_def doom by (auto simp: s')
  have src: "sources_ok ?s'"
  proof -
    have old: "sources_ok s" using inv by (simp add: upnp_inv_except_def)
    have "\<exists>b e. ((devices s)(a \<mapsto> d')) b = Some e \<and> (i, cb) \<in> held b e"
      if i: "(i, cb) \<in> set (sources s)" "i \<notin> set (removed_ids eff)" for i cb
    proof -
      obtain b e where b: "devices s b = Some e" "(i, cb) \<in> held b e"
        using old i(1) unfolding sources_ok_def by blast
      show ?thesis
      proof (cases "b = a")
        case True
        then have "(i, cb) \<in> held a d'" using b d timers i by auto
        then show ?thesis by auto
      next
        case False
        then show ?thesis using b by auto
      qed
    qed
    then show ?thesis
      using old by (auto simp: sources_ok_def s' distinct_map inj_on_def)
  qed
  have paths: "paths_ok ?s'"
    by (rule paths_ok_keep [of s])
      (use inv d path in \<open>auto simp: upnp_inv_except_def s' split: if_splits\<close>)
  have "known_paths ?s' = known_paths s"
    by (rule known_paths_cong) (use d path in \<open>auto simp: s'\<close>)
  moreover have "announced (calls ?s') = announced (calls s)"
    by (simp add: s' announced_append quiet_announced [OF quiet])
  ultimately show ?thesis
    using inv reg dev src paths by (simp add: upnp_inv_except_def s')
qed

text \<open>An operation on one device that starts a timer.\<close>

lemma inv_timer_update:
  assumes inv: "upnp_inv_except X s" and d: "devices s a = Some d"
    and ok: "dev_ok (next_ref s) a d'" and path: "dev_path d' = dev_path d"
    and ne: "dev_contexts d' = [] \<Longrightarrow> a \<in> X \<or> dev_contexts d = []"
    and quiet: "list_all quiet eff" "removed_ids eff = []"
    and timers: "held a d \<subseteq> held a d'" "(next_source s, cb) \<in> held a d'"
  shows "upnp_inv_except X (emit (eff @ [Timeout_add (next_source s) n cb]) (set_device a d' s))"
proof -
  let ?s1 = "emit eff (set_device a d' s)"
  have s1: "upnp_inv_except X ?s1"
    by (rule inv_device_update [OF inv d ok path ne quiet(1)]) (use timers in auto)
  have f: "filter (\<lambda>(i, _). True) xs = xs" for xs :: "(nat \<times> timer_cb) list"
    by (induction xs) auto
  have eq: "?s1 = s\<lparr>devices := (devices s)(a \<mapsto> d'), calls := calls s @ eff\<rparr>"
    by (simp add: emit_quiet [OF quiet(1)] quiet(2) set_device_def f)
  let ?s2 = "emit (eff @ [Timeout_add (next_source s) n cb]) (set_device a d' s)"
  have s2: "?s2 = ?s1\<lparr>sources := (next_source s, cb) # sources s, next_source := Suc (next_source s),
      calls := calls ?s1 @ [Timeout_add (next_source s) n cb]\<rparr>"
    by (simp add: emit_append env_step_def eq)
  have old: "sources_ok ?s1" using s1 by (simp add: upnp_inv_except_def)
  then have lt: "i < next_source s" if "(i, c) \<in> set (sources s)" for i c
    using that by (auto simp: sources_ok_def eq)
  then have "next_source s \<notin> fst ` set (sources s)" by force
  then have "sources_ok ?s2"
    using old timers(2) by (auto simp: sources_ok_def s2 eq less_Suc_eq)
  moreover have "devices_ok X ?s2"
    using s1 by (auto simp: upnp_inv_except_def devices_ok_def doomed_def s2)
  moreover have "reg_of ?s2" using s1 by (simp add: upnp_inv_except_def reg_of_def s2)
  moreover have "paths_ok ?s2" using s1 by (simp add: upnp_inv_except_def paths_ok_def s2)
  moreover have "announced (calls ?s2) = known_paths ?s2"
  proof -
    have "announced (calls ?s1) = known_paths ?s1" using s1 by (simp add: upnp_inv_except_def)
    moreover have "known_paths ?s2 = known_paths ?s1" by (simp add: known_paths_def s2)
    ultimately show ?thesis by (simp add: s2 announced_append announce_def)
  qed
  ultimately show ?thesis
    using s1 by (simp add: upnp_inv_except_def s2)
qed

subsection \<open>The operations on a device keep its timers\<close>

text \<open>The calls an operation makes only log, and it removes the timers it forgets.\<close>

definition op_quiet :: "addr \<Rightarrow> dld_device \<Rightarrow> dld_device \<Rightarrow> effect list \<Rightarrow> bool" where
  "op_quiet a d d' eff \<longleftrightarrow>
     list_all quiet eff \<and> held a d - held a d' \<subseteq> {(i, cb). i \<in> set (removed_ids eff)}"

lemma op_quiet_refl [simp]: "op_quiet a d d []"
  by (simp add: op_quiet_def)

lemma op_quiet_trans:
  "op_quiet a d d1 eff1 \<Longrightarrow> op_quiet a d1 d2 eff2 \<Longrightarrow> op_quiet a d d2 (eff1 @ eff2)"
  by (auto simp: op_quiet_def)

lemma op_quiet_upd_context:
  assumes i: "i < length (dev_contexts d)" and ref: "\<And>c. ctx_ref (fst (f c)) = ctx_ref c"
    and q: "\<And>c. list_all quiet (snd (f c))"
    and t: "\<And>c. bms_timeout_id (fst (f c)) = bms_timeout_id c \<or>
                 (bms_timeout_id c \<noteq> 0 \<longrightarrow> bms_timeout_id c \<in> set (removed_ids (snd (f c))))"
  shows "op_quiet a d (fst (upd_context i f d)) (snd (upd_context i f d))"
proof -
  let ?c = "dev_contexts d ! i" and ?d' = "fst (upd_context i f d)"
  have d': "dev_contexts ?d' = (dev_contexts d)[i := fst (f ?c)]" "dev_timeout_id ?d' = dev_timeout_id d"
    by (simp_all add: upd_context_def split: prod.splits)
  have "(j, cb) \<in> held a ?d' \<or> j \<in> set (removed_ids (snd (f ?c)))" if m: "(j, cb) \<in> held a d" for j cb
  proof -
    consider "j = dev_timeout_id d" "cb = Subscribe_to_service_changes a" "dev_timeout_id d \<noteq> 0"
      | c where "c \<in> set (dev_contexts d)" "bms_timeout_id c \<noteq> 0"
        "j = bms_timeout_id c" "cb = Re_enable_bms_subscription a (ctx_ref c)"
      using m unfolding held_iff by blast
    then show ?thesis
    proof cases
      case 1
      then show ?thesis by (auto simp: held_def d')
    next
      case 2
      then obtain k where k: "k < length (dev_contexts d)" "c = dev_contexts d ! k"
        by (auto simp: in_set_conv_nth)
      show ?thesis
      proof (cases "k = i")
        case True
        have mem: "fst (f ?c) \<in> set (dev_contexts ?d')"
          using i by (simp add: d' set_update_memI)
        have c: "c = ?c" using k True by simp
        show ?thesis
        proof (cases "bms_timeout_id (fst (f ?c)) = bms_timeout_id ?c")
          case True
          then show ?thesis
            unfolding held_iff using 2 mem c ref [of ?c] by metis
        next
          case False
          then show ?thesis using t [of ?c] 2 c by auto
        qed
      next
        case False
        then have "dev_contexts ?d' ! k = c" "k < length (dev_contexts ?d')"
          using k by (simp_all add: d')
        then have "c \<in> set (dev_contexts ?d')" by (metis nth_mem)
        then show ?thesis using 2 by (auto simp: held_def)
      qed
    qed
  qed
  then show ?thesis
    using q [of ?c] by (auto simp: op_quiet_def snd_upd_context)
qed

lemma quiet_subscribe_to_service_changes:
  assumes "dld_device_subscribe_to_service_changes d = Some (d', eff)"
  shows "op_quiet a d d' eff" and "dev_timeout_id d' = dev_timeout_id d"
proof -
  from assms obtain i where i: "dld_device_get_context d = Some i"
    and u: "upd_context i (subscribe_context (dev_ref d)) d = (d', eff)"
    by (auto simp: dld_device_subscribe_to_service_changes_def split: option.splits)
  have "op_quiet a d (fst (upd_context i (subscribe_context (dev_ref d)) d))
          (snd (upd_context i (subscribe_context (dev_ref d)) d))"
    by (rule op_quiet_upd_context [OF get_context_less [OF i]])
      (auto simp: quiet_context_effects, auto simp: subscribe_context_def)
  with u show "op_quiet a d d' eff" by simp
  show "dev_timeout_id d' = dev_timeout_id d" using u by (auto simp: upd_context_def split: prod.splits)
qed

lemma quiet_subscribe_context:
  assumes "prv_device_subscribe_context d = Some (d', eff)"
  shows "op_quiet a d d' eff" and "dev_timeout_id d' = dev_timeout_id d"
proof -
  have "op_quiet a d d' eff \<and> dev_timeout_id d' = dev_timeout_id d"
  proof (cases "prv_device_get_subscribed_context d")
    case None
    with assms show ?thesis
      by (auto simp: prv_device_subscribe_context_def quiet_subscribe_to_service_changes
          split: option.splits if_splits)
  next
    case (Some i)
    then have i: "i < length (dev_contexts d)"
      by (auto simp: prv_device_get_subscribed_context_def dest: find_index_SomeD)
    let ?u = "upd_context i prv_context_unsubscribe d"
    have u: "op_quiet a d (fst ?u) (snd ?u)"
      by (rule op_quiet_upd_context [OF i])
        (auto simp: quiet_context_effects, simp add: prv_context_unsubscribe_def)
    have "dev_timeout_id (fst ?u) = dev_timeout_id d"
      by (simp add: upd_context_def split: prod.splits)
    then show ?thesis
      using assms Some u
      by (auto simp: prv_device_subscribe_context_def Let_def split: option.splits if_splits prod.splits
          dest: quiet_subscribe_to_service_changes intro: op_quiet_trans)
  qed
  then show "op_quiet a d d' eff" "dev_timeout_id d' = dev_timeout_id d" by auto
qed

lemma quiet_append_new_context:
  assumes "dld_device_append_new_context ref ip info bms d = Some (d', eff)"
  shows "op_quiet a d d' eff"
proof -
  let ?d1 = "fst (prv_device_append_new_context ref ip info bms d)"
  obtain eff2 where sub: "prv_device_subscribe_context ?d1 = Some (d', eff2)"
    and eff: "eff = [Device_proxy_ref] @ eff2"
    using assms by (auto simp: dld_device_append_new_context_def prv_device_append_new_context_def
        prv_context_new_def)
  have "op_quiet a d ?d1 [Device_proxy_ref]"
    by (auto simp: op_quiet_def quiet_def held_def prv_device_append_new_context_def prv_context_new_def)
  from op_quiet_trans [OF this quiet_subscribe_context(1) [OF sub]] show ?thesis by (simp add: eff)
qed

lemma quiet_unsubscribe: "op_quiet a d (fst (dld_device_unsubscribe d)) (snd (dld_device_unsubscribe d))"
proof -
  let ?f = "\<lambda>c. snd (prv_context_unsubscribe c)"
  have q: "list_all quiet (concat (map ?f cs))" for cs
    by (induction cs) (simp_all add: quiet_context_effects)
  have r: "set (removed_ids (concat (map ?f cs))) = (\<Union>c \<in> set cs. {bms_timeout_id c} - {0})" for cs
    by (induction cs) (simp_all add: quiet_context_effects)
  show ?thesis
    using q r by (auto simp: op_quiet_def dld_device_unsubscribe_eq held_def)
qed

lemma quiet_change_and_signal: "op_quiet a d (fst (change_and_signal key val d)) (snd (change_and_signal key val d))"
  by (simp add: op_quiet_def quiet_def change_and_signal_def prv_change_props_def held_def
      prv_emit_signal_properties_changed_def name_defs DLD_INTERFACE_FOUND_DEVICE_def
      DLD_INTERFACE_LOST_DEVICE_def)

lemma dev_ok_same_device:
  assumes "dev_ok n a d" and "same_device d d'" and "context_inv d'"
  shows "dev_ok n a d'"
proof -
  have "bms_proxy c \<noteq> None \<and> ctx_ref c < n" if c: "c \<in> set (dev_contexts d')" for c
  proof -
    from c obtain k where k: "k < length (dev_contexts d')" "c = dev_contexts d' ! k"
      by (auto simp: in_set_conv_nth)
    then have "same_context (dev_contexts d ! k) c" "dev_contexts d ! k \<in> set (dev_contexts d)"
      using assms(2) by (auto simp: same_device_def list_all2_conv_all_nth)
    then show ?thesis using assms(1) by (auto simp: dev_ok_def same_context_def)
  qed
  then show ?thesis
    using assms by (auto simp: dev_ok_def same_device_def)
qed

context device_op
begin

lemma op_dev_ok: "f d = Some (d', eff) \<Longrightarrow> dev_ok n a d \<Longrightarrow> dev_ok n a d'"
  by (rule dev_ok_same_device) (auto intro: op_same op_inv simp: dev_ok_def)

lemma op_upnp_inv:
  assumes f: "f d = Some (d', eff)" and inv: "upnp_inv_except X s" and d: "devices s a = Some d"
    and q: "op_quiet a d d' eff"
  shows "upnp_inv_except X (emit eff (set_device a d' s))"
proof (rule inv_device_update [OF inv d])
  have "dev_ok (next_ref s) a d" using inv d by (simp add: upnp_inv_except_def devices_ok_def)
  then show "dev_ok (next_ref s) a d'" by (rule op_dev_ok [OF f])
  show "dev_path d' = dev_path d" by (rule op_keeps [OF f])
  show "dev_contexts d' = [] \<Longrightarrow> a \<in> X \<or> dev_contexts d = []"
    using op_nonempty [OF f] by simp
qed (use q in \<open>auto simp: op_quiet_def\<close>)

end

lemma inv_device: "upnp_inv_except X s \<Longrightarrow> devices s a = Some d \<Longrightarrow> dev_ok (next_ref s) a d"
  by (simp add: upnp_inv_except_def devices_ok_def)

lemma inv_reg:
  "upnp_inv_except X s \<Longrightarrow>
     reg (map_of (device_udn_map s)) (map_of (device_uc_map s)) (privs s) (queues s)
       (dom (devices s)) (next_ref s)"
  by (simp add: upnp_inv_except_def reg_of_def)

text \<open>What a UDN leads to, in a state that satisfies the invariant.\<close>

lemma lookup_device_cases:
  assumes inv: "upnp_inv_except X s"
  obtains "lookup_device udn s = Some None" "map_of (device_udn_map s) udn = None"
      "map_of (device_uc_map s) udn = None"
  | a d where "lookup_device udn s = Some (Some (a, None))" "map_of (device_udn_map s) udn = Some a"
      "devices s a = Some d"
  | p pr d where "lookup_device udn s = Some (Some (ct_device pr, Some p))"
      "map_of (device_udn_map s) udn = None" "map_of (device_uc_map s) udn = Some p"
      "privs s p = Some pr" "ct_udn pr = udn" "devices s (ct_device pr) = Some d"
proof (cases "map_of (device_udn_map s) udn")
  case (Some a)
  then have "a \<in> dom (devices s)" using reg_udn [OF inv_reg [OF inv]] by blast
  then show thesis using Some that(2) by (auto simp: lookup_device_def)
next
  case None
  show thesis
  proof (cases "map_of (device_uc_map s) udn")
    case None
    then show thesis using that(1) \<open>map_of (device_udn_map s) udn = None\<close>
      by (simp add: lookup_device_def)
  next
    case (Some p)
    from reg_uc [OF inv_reg [OF inv] Some] obtain pr where
      "privs s p = Some pr" "ct_udn pr = udn" "ct_device pr \<in> dom (devices s)" by blast
    then show thesis using that(3) [of pr p] None Some by (auto simp: lookup_device_def)
  qed
qed

subsection \<open>A device appears\<close>

lemma add_known_device_inv:
  assumes inv: "upnp_inv s" and d: "devices s a = Some d" and bms: "bms \<noteq> None"
    and ip: "find_index (\<lambda>c. ctx_ip_address c = ip) (dev_contexts d) = None"
    and app: "dld_device_append_new_context (next_ref s) ip info bms d = Some (d', eff)"
  shows "upnp_inv (emit eff (set_device a d' (s\<lparr>next_ref := Suc (next_ref s)\<rparr>)))"
proof -
  let ?s = "s\<lparr>next_ref := Suc (next_ref s)\<rparr>"
  note ok = inv_device [OF inv d]
  have pre: "context_pre (fst (prv_device_append_new_context (next_ref s) ip info bms d))"
    by (rule append_new_context_pre)
      (use ok ip in \<open>auto simp: dev_ok_def find_index_None\<close>)
  let ?d1 = "fst (prv_device_append_new_context (next_ref s) ip info bms d)"
  obtain eff2 where sub: "prv_device_subscribe_context ?d1 = Some (d', eff2)"
    using app by (auto simp: dld_device_append_new_context_def split: prod.splits)
  note est = subscribe_context_establishes [OF sub pre]
  have "\<forall>c \<in> set (dev_contexts ?d1). bms_proxy c \<noteq> None \<and> ctx_ref c < Suc (next_ref s)"
    using ok bms by (auto simp: dev_ok_def prv_device_append_new_context_def prv_context_new_def)
  then have "\<forall>c \<in> set (dev_contexts d'). bms_proxy c \<noteq> None \<and> ctx_ref c < Suc (next_ref s)"
    using est(2) unfolding same_device_def list_all2_conv_all_nth same_context_def
    by (metis in_set_conv_nth)
  moreover have "dev_ids d' = dev_ids d"
    using same_device_context(8) [OF est(2)] by (simp add: prv_device_append_new_context_def prv_context_new_def)
  ultimately have ok': "dev_ok (Suc (next_ref s)) a d'"
    using est(1) append_new_context_keeps(1) [OF app] ok by (simp add: dev_ok_def)
  have "paths_ok ?s"
    by (rule paths_ok_keep [of s]) (use inv in \<open>auto simp: upnp_inv_except_def\<close>)
  then have mono: "upnp_inv ?s"
    using inv reg_mono [OF inv_reg [OF inv], of "Suc (next_ref s)"]
    by (auto simp: upnp_inv_except_def reg_of_def devices_ok_def sources_ok_def doomed_def
        known_paths_def intro: dev_ok_mono [OF _ le_SucI [OF order_refl]])
  show ?thesis
  proof (rule inv_device_update [OF mono])
    show "devices ?s a = Some d" "dev_ok (next_ref ?s) a d'" using d ok' by simp_all
    show "dev_path d' = dev_path d" by (rule append_new_context_keeps(2) [OF app])
    show "dev_contexts d' = [] \<Longrightarrow> a \<in> {} \<or> dev_contexts d = []"
      using append_new_context_keeps(5) [OF app] by simp
  qed (use quiet_append_new_context [OF app, of a] in \<open>auto simp: op_quiet_def\<close>)
qed

lemma add_new_device:
  assumes lk: "lookup_device udn s = Some None"
    and p: "p = next_ref s" and q: "q = Suc p" and a: "a = Suc q"
  shows "\<exists>d. dld_device_new gl a (Suc a) info bms ip (upnp_counter s) q =
      Some (d, [Device_proxy_ref, Add_service_task q (Prv_subscribe a),
                Add_service_task q (Prv_declare a), Queue_start q]) \<and>
    prv_add_device gl info bms ip udn s = Some (s\<lparr>
      device_uc_map := AList.update udn p (device_uc_map s),
      upnp_counter := upnp_counter s + 1,
      devices := (devices s)(a \<mapsto> d),
      privs := (privs s)(p \<mapsto> \<lparr>ct_udn = udn, ct_ip_address = ip, ct_device = a, ct_queue_id = q\<rparr>),
      queues := (queues s)(q \<mapsto>
        \<lparr>q_tasks = [Prv_subscribe a, Prv_declare a],
         q_finally = Prv_device_chain_end, q_user_data = p, q_cancelled = False\<rparr>),
      next_ref := Suc (Suc a),
      calls := calls s @ [Add_queue q, Set_finally q Prv_device_chain_end, Set_user_data q p,
        Device_proxy_ref, Add_service_task q (Prv_subscribe a), Add_service_task q (Prv_declare a),
        Queue_start q]\<rparr>)"
proof -
  obtain d eff where n: "dld_device_new gl a (Suc a) info bms ip (upnp_counter s) q = Some (d, eff)"
    using device_new_defined by blast
  then have eff: "eff = [Device_proxy_ref, Add_service_task q (Prv_subscribe a),
      Add_service_task q (Prv_declare a), Queue_start q]"
    by (rule device_newE)
  let ?pr = "\<lparr>ct_udn = udn, ct_ip_address = ip, ct_device = a, ct_queue_id = q\<rparr>"
  let ?s1 = "s\<lparr>privs := (privs s)(p \<mapsto> ct_zero), next_ref := a,
      queues := (queues s)(q \<mapsto>
        \<lparr>q_tasks = [], q_finally = Prv_device_chain_end, q_user_data = p, q_cancelled = False\<rparr>),
      calls := calls s @ [Add_queue q, Set_finally q Prv_device_chain_end, Set_user_data q p]\<rparr>"
  have create: "prv_create_device_queue s = (p, q, ?s1)"
    by (simp add: prv_create_device_queue_def p q a env_step_def upd_queue_def Let_def)
  show ?thesis
    using n
    by (intro exI [of _ d])
      (simp add: prv_add_device_def lk create eff prv_update_device_context_def
        env_step_def upd_queue_def set_device_def)
qed

lemma add_new_device_inv:
  assumes inv: "upnp_inv s" and lk: "lookup_device udn s = Some None"
    and fresh: "map_of (device_udn_map s) udn = None" "map_of (device_uc_map s) udn = None"
    and bms: "bms \<noteq> None"
  shows "\<exists>s'. prv_add_device gl info bms ip udn s = Some s' \<and> upnp_inv s'"
proof -
  define p q a where "p = next_ref s" and "q = Suc p" and "a = Suc q"
  note pqa = this
  from add_new_device [OF lk pqa, of gl info bms ip] obtain d s' where
    new: "dld_device_new gl a (Suc a) info bms ip (upnp_counter s) q =
      Some (d, [Device_proxy_ref, Add_service_task q (Prv_subscribe a),
                Add_service_task q (Prv_declare a), Queue_start q])"
    and add: "prv_add_device gl info bms ip udn s = Some s'"
    and s': "s' = s\<lparr>
      device_uc_map := AList.update udn p (device_uc_map s),
      upnp_counter := upnp_counter s + 1,
      devices := (devices s)(a \<mapsto> d),
      privs := (privs s)(p \<mapsto> \<lparr>ct_udn = udn, ct_ip_address = ip, ct_device = a, ct_queue_id = q\<rparr>),
      queues := (queues s)(q \<mapsto>
        \<lparr>q_tasks = [Prv_subscribe a, Prv_declare a],
         q_finally = Prv_device_chain_end, q_user_data = p, q_cancelled = False\<rparr>),
      next_ref := Suc (Suc a),
      calls := calls s @ [Add_queue q, Set_finally q Prv_device_chain_end, Set_user_data q p,
        Device_proxy_ref, Add_service_task q (Prv_subscribe a), Add_service_task q (Prv_declare a),
        Queue_start q]\<rparr>"
    by blast
  note r = inv_reg [OF inv]
  have none: "devices s a = None" "privs s p = None" "queues s q = None"
    using reg_bound(1) [OF r, of a] reg_bound(2) [OF r, of p] reg_bound(3) [OF r, of q] pqa
    by (cases "devices s a"; cases "privs s p"; cases "queues s q"; auto simp: domIff)+
  have reg: "reg_of s'"
    unfolding reg_of_def s'
    by (simp del: fun_upd_apply, rule reg_add [OF r fresh])
      (simp_all add: device_tasks_def pqa)
  have doom: "doomed s' b" if "doomed s b" for b
  proof -
    from that obtain q' x pr where h: "queues s q' = Some x" "q_cancelled x"
      "q_finally x = Prv_device_chain_end" "privs s (q_user_data x) = Some pr" "ct_device pr = b"
      by (auto simp: doomed_def)
    then have "q' \<noteq> q" "q_user_data x \<noteq> p" using none by auto
    with h show ?thesis unfolding doomed_def s' by (intro exI [of _ q'] exI [of _ x]) simp
  qed
  have ok: "dev_ok (Suc (Suc a)) a d \<and> dev_contexts d \<noteq> []"
    using new
    by (rule device_newE)
      (use bms device_new_inv [OF new] in \<open>simp add: dev_ok_def prv_context_new_def DLD_INTERFACE_INFO_MAX_def\<close>)
  have le: "next_ref s \<le> Suc (Suc a)" by (simp add: pqa)
  have dev: "devices_ok {} s'"
    using inv ok doom unfolding upnp_inv_except_def devices_ok_def
    by (auto simp: s' intro: dev_ok_mono [OF _ le])
  have src: "sources_ok s'"
  proof (rule sources_ok_extend)
    show "sources_ok s" using inv by (simp add: upnp_inv_except_def)
    show "sources s' = sources s" "next_source s' = next_source s" by (simp_all add: s')
    fix b e assume b: "devices s b = Some e"
    then have "b \<noteq> a" using none(1) by auto
    then show "devices s' b = Some e" using b by (simp add: s')
  qed
  have path: "dev_path d = dld_device_path (upnp_counter s)"
    using new by (rule device_newE) simp
  have paths: "paths_ok s'"
    by (rule paths_ok_add [of s _ a d]) (use inv path in \<open>simp_all add: upnp_inv_except_def s' pqa\<close>)
  have "known_paths s' = known_paths s"
  proof (rule known_paths_cong)
    fix b assume "b \<in> snd ` set (device_udn_map s)"
    then obtain u where "map_of (device_udn_map s) u = Some b"
      using inv by (force simp: upnp_inv_except_def)
    then have "b \<in> dom (devices s)" using reg_udn [OF r] by blast
    then show "dev_path (the (devices s' b)) = dev_path (the (devices s b))"
      using none by (auto simp: s')
  qed (simp add: s')
  moreover have "announced (calls s') = announced (calls s)"
    by (simp add: s' announced_append announce_def)
  ultimately have "upnp_inv s'"
    using inv reg dev src paths by (simp add: upnp_inv_except_def s')
  with add show ?thesis by blast
qed

lemma add_device_inv:
  assumes inv: "upnp_inv s" and bms: "bms \<noteq> None"
  shows "\<exists>s'. prv_add_device gl info bms ip udn s = Some s' \<and> upnp_inv s'"
proof -
  have known: "\<exists>s'. prv_add_device gl info bms ip udn s = Some s' \<and> upnp_inv s'"
    if lk: "lookup_device udn s = Some (Some (a, x))" and d: "devices s a = Some d" for a x d
  proof (cases "find_index (\<lambda>c. ctx_ip_address c = ip) (dev_contexts d)")
    case None
    obtain d' eff where app: "dld_device_append_new_context (next_ref s) ip info bms d = Some (d', eff)"
      using append_new_context_defined by blast
    from add_known_device_inv [OF inv d bms None app] show ?thesis
      by (simp add: prv_add_device_def lk d None app)
  next
    case (Some i)
    then show ?thesis using inv by (simp add: prv_add_device_def lk d)
  qed
  from inv show ?thesis
  proof (cases rule: lookup_device_cases [of "{}" s udn])
    case 1
    then show ?thesis using add_new_device_inv [OF inv _ _ _ bms] by blast
  qed (use known in blast)+
qed

subsection \<open>The walk over the sub-devices\<close>

text \<open>The sub-devices in the order in which the walk meets them: each before its own sub-devices.\<close>

fun sub_devices :: "device_info \<Rightarrow> device_info list" where
  "sub_devices (DeviceInfo de bms children) =
     concat (map (\<lambda>child. child # sub_devices child) children)"

text \<open>The ones with a Basic Management service.\<close>

definition bm_sub_devices :: "device_info \<Rightarrow> device_info list" where
  "bm_sub_devices info = filter (\<lambda>child. di_bms child \<noteq> None) (sub_devices info)"

fun visit ::
  "(device_info \<Rightarrow> proxy option \<Rightarrow> dld_upnp \<Rightarrow> dld_upnp option) \<Rightarrow> device_info list \<Rightarrow> dld_upnp \<Rightarrow>
     dld_upnp option" where
  "visit act [] s = Some s"
| "visit act (info # infos) s = do { s1 \<leftarrow> act info (di_bms info) s; visit act infos s1 }"

lemma visit_append: "visit act (xs @ ys) s = do { s1 \<leftarrow> visit act xs s; visit act ys s1 }"
  by (induction xs arbitrary: s) (auto split: bind_splits)

text \<open>
  The recursion always returns NULL, so that the second call of \<open>act\<close> in the loop is never
  reached, and visits the sub-devices with the service, each once, in order.
\<close>

lemma walk_children_visits:
  assumes "\<forall>child \<in> set children. \<forall>s. walk_sub_devices act child s =
      map_option (\<lambda>s'. (None, s')) (visit act (bm_sub_devices child) s)"
  shows "walk_children act children None s = map_option (\<lambda>s'. (None, s'))
     (visit act (filter (\<lambda>child. di_bms child \<noteq> None)
        (concat (map (\<lambda>child. child # sub_devices child) children))) s)"
  using assms
proof (induction children arbitrary: s)
  case (Cons child rest)
  have child: "walk_sub_devices act child s1 =
      map_option (\<lambda>s'. (None, s')) (visit act (bm_sub_devices child) s1)" for s1
    using Cons.prems by simp
  have rest: "walk_children act rest None s1 = map_option (\<lambda>s'. (None, s'))
     (visit act (filter (\<lambda>child. di_bms child \<noteq> None)
        (concat (map (\<lambda>child. child # sub_devices child) rest))) s1)" for s1
    by (rule Cons.IH) (use Cons.prems in simp)
  show ?case
  proof (cases "di_bms child")
    case None
    show ?thesis
      by (cases "visit act (bm_sub_devices child) s")
        (simp_all add: None child rest visit_append bm_sub_devices_def [symmetric] del: not_None_eq)
  next
    case (Some bms)
    show ?thesis
    proof (cases "act child (Some bms) s")
      case None
      with Some show ?thesis by simp
    next
      case (Some s1)
      with \<open>di_bms child = Some bms\<close> show ?thesis
        by (cases "visit act (bm_sub_devices child) s1")
          (simp_all add: child rest visit_append bm_sub_devices_def [symmetric] del: not_None_eq)
    qed
  qed
qed simp

lemma walk_visits:
  "walk_sub_devices act info s = map_option (\<lambda>s'. (None, s')) (visit act (bm_sub_devices info) s)"
proof (induction info arbitrary: s)
  case (DeviceInfo de bms children)
  then have "\<forall>child \<in> set children. \<forall>s. walk_sub_devices act child s =
      map_option (\<lambda>s'. (None, s')) (visit act (bm_sub_devices child) s)"
    by blast
  from walk_children_visits [OF this] show ?case by (simp add: bm_sub_devices_def)
qed

text \<open>
  The contract of an operation on a sub-device that the walk calls: it keeps the invariant and is
  defined.
\<close>

locale registry_op =
  fixes act :: "device_info \<Rightarrow> proxy option \<Rightarrow> dld_upnp \<Rightarrow> dld_upnp option"
  assumes act_inv: "upnp_inv s \<Longrightarrow> bms \<noteq> None \<Longrightarrow> \<exists>s'. act info bms s = Some s' \<and> upnp_inv s'"
begin

lemma visit_inv:
  "upnp_inv s \<Longrightarrow> \<forall>info \<in> set infos. di_bms info \<noteq> None \<Longrightarrow>
     \<exists>s'. visit act infos s = Some s' \<and> upnp_inv s'"
proof (induction infos arbitrary: s)
  case (Cons info infos)
  from act_inv [OF Cons.prems(1), of "di_bms info" info] Cons.prems(2) obtain s1 where
    s1: "act info (di_bms info) s = Some s1" "upnp_inv s1" by auto
  from Cons.IH [OF s1(2)] Cons.prems(2) s1(1) show ?case by simp
qed simp

lemma walk_inv: "upnp_inv s \<Longrightarrow> \<exists>s'. walk_sub_devices act info s = Some (None, s') \<and> upnp_inv s'"
  using visit_inv [of s "bm_sub_devices info"] by (auto simp: walk_visits bm_sub_devices_def)

end

interpretation adding: registry_op "prv_add_sub_device gl ip" for gl ip
proof
  fix s bms info
  assume "upnp_inv s" "bms \<noteq> (None :: proxy option)"
  then show "\<exists>s'. prv_add_sub_device gl ip info bms s = Some s' \<and> upnp_inv s'"
    using add_device_inv by (cases "di_udn info") (auto simp: prv_add_sub_device_def)
qed

lemma available_inv:
  assumes inv: "upnp_inv s"
  shows "\<exists>s'. prv_device_available_cb gl info ip s = Some s' \<and> upnp_inv s'"
proof (cases "di_udn info = None \<or> ip = None")
  case True
  then show ?thesis using inv by (auto simp: prv_device_available_cb_def split: option.splits)
next
  case False
  then obtain udn ip_address where u: "di_udn info = Some udn" "ip = Some ip_address" by auto
  have "\<exists>s1. (if di_bms info \<noteq> None then prv_add_device gl info (di_bms info) ip_address udn s else Some s)
      = Some s1 \<and> upnp_inv s1"
    using add_device_inv [OF inv, of "di_bms info"] inv by auto
  then obtain s1 where s1: "(if di_bms info \<noteq> None then prv_add_device gl info (di_bms info) ip_address udn s
      else Some s) = Some s1" "upnp_inv s1" by blast
  from adding.walk_inv [OF s1(2), of gl ip_address info] s1(1) show ?thesis
    by (auto simp: prv_device_available_cb_def u prv_add_bm_service_sub_devices_def)
qed

end
