(* ===== verification/Upnp_Remove.thy ===== *)
theory Upnp_Remove
  imports Upnp_Inv
begin

section \<open>Devices that disappear\<close>

text \<open>
  What \<open>prv_remove_device\<close> and the walk over the sub-devices of a device that disappears keep of
  the registry's invariant: a context is taken out of its device, and then the device is deleted,
  its construction is cancelled or moved to another context, or a timer is started to subscribe
  again.
\<close>

subsection \<open>Taking a context out\<close>

lemma inv_except_mono: "upnp_inv_except X s \<Longrightarrow> X \<subseteq> Y \<Longrightarrow> upnp_inv_except Y s"
  by (auto simp: upnp_inv_except_def devices_ok_def)

lemma inv_except_drop:
  assumes "upnp_inv_except {a} s" and "devices s a = Some d" and "dev_contexts d \<noteq> []"
  shows "upnp_inv s"
  using assms unfolding upnp_inv_except_def devices_ok_def by (metis insert_iff option.inject empty_iff)

lemma held_remove_context:
  assumes i: "i < length (dev_contexts d)" and inv: "context_inv d"
  shows "held a d - held a (remove_context i d) \<subseteq> {(j, cb). j = bms_timeout_id (dev_contexts d ! i) \<and> j \<noteq> 0}"
proof -
  have "distinct (dev_contexts d)" using inv by (auto simp: context_inv_def distinct_map)
  from set_remove_index_distinct [OF this i] show ?thesis
    by (auto simp: held_def remove_context_def)
qed

lemma context_removed:
  assumes inv: "upnp_inv s" and d: "devices s a = Some d" and i: "i < length (dev_contexts d)"
    and s1: "s1 = emit (prv_dld_context_delete (dev_contexts d ! i)) (set_device a (remove_context i d) s)"
  shows "upnp_inv_except {a} s1" and "devices s1 a = Some (remove_context i d)"
    and "device_udn_map s1 = device_udn_map s" and "device_uc_map s1 = device_uc_map s"
    and "privs s1 = privs s" and "queues s1 = queues s" and "next_ref s1 = next_ref s"
    and "next_source s1 = next_source s"
proof -
  note ok = inv_device [OF inv d]
  have ci: "context_inv d" using ok by (simp add: dev_ok_def)
  have "dev_ok (next_ref s) a (remove_context i d)"
    using ok remove_context_inv [OF ci i] set_remove_index [of i "dev_contexts d"]
    by (auto simp: dev_ok_def remove_context_def)
  then show "upnp_inv_except {a} s1"
    unfolding s1
    by (intro inv_device_update [OF inv_except_mono [OF inv] d])
      (use held_remove_context [OF i ci, of a] quiet_context_effects in
        \<open>auto simp: remove_context_def\<close>)
qed (simp_all add: s1 emit_quiet [OF quiet_context_effects(2)] set_device_def)

subsection \<open>The last context of a known device\<close>

lemma quiet_device_delete: "list_all quiet (dld_device_delete d)"
proof -
  have "list_all quiet (concat (map prv_dld_context_delete cs))" for cs
    by (induction cs) (simp_all add: quiet_context_effects)
  moreover have "list_all quiet (map Unpublish_object ids)" for ids
    by (induction ids) (simp_all add: quiet_def)
  ultimately show ?thesis by (simp add: dld_device_delete_def quiet_def)
qed

lemma held_device_delete: "held a d \<subseteq> {(i, cb). i \<in> set (removed_ids (dld_device_delete d))}"
proof -
  have "set (removed_ids (concat (map prv_dld_context_delete cs))) = (\<Union>c \<in> set cs. {bms_timeout_id c} - {0})" for cs
    by (induction cs) (simp_all add: quiet_context_effects)
  then show ?thesis by (auto simp: held_def dld_device_delete_def)
qed

text \<open>A device is freed: its timers are gone with it.\<close>

lemma sources_ok_free:
  assumes ok: "sources_ok s" and d: "devices s a = Some d"
    and s': "devices s' = (devices s)(a := None)" "next_source s' = next_source s"
      "sources s' = filter (\<lambda>(i, _). i \<notin> set (removed_ids (dld_device_delete d))) (sources s)"
  shows "sources_ok s'"
proof -
  have "\<exists>b e. devices s' b = Some e \<and> (i, cb) \<in> held b e"
    if i: "(i, cb) \<in> set (sources s)" "i \<notin> set (removed_ids (dld_device_delete d))" for i cb
  proof -
    obtain b e where b: "devices s b = Some e" "(i, cb) \<in> held b e"
      using ok i(1) unfolding sources_ok_def by blast
    then have "b \<noteq> a" using d i(2) held_device_delete [of a d] by auto
    with b show ?thesis by (auto simp: s')
  qed
  then show ?thesis using ok by (auto simp: sources_ok_def s' distinct_map inj_on_def)
qed

lemma devices_ok_free:
  assumes "devices_ok {a} s" and "devices s' = (devices s)(a := None)" and "next_ref s' = next_ref s"
    and "\<And>b. b \<noteq> a \<Longrightarrow> doomed s b \<Longrightarrow> doomed s' b"
  shows "devices_ok {} s'"
  using assms by (auto simp: devices_ok_def)

lemma mset_delete:
  "distinct (map fst t) \<Longrightarrow> map_of t k = Some v \<Longrightarrow> mset (map snd t) = add_mset v (mset (map snd (AList.delete k t)))"
proof (induction t)
  case (Cons kv t)
  show ?case
  proof (cases "fst kv = k")
    case True
    then have "AList.delete k t = t" using Cons.prems(1) by (cases kv) (auto intro!: AList.delete_idem)
    with True Cons.prems show ?thesis by (cases kv) auto
  next
    case False
    then show ?thesis using Cons by (cases kv) auto
  qed
qed simp

lemma known_device_removed:
  assumes inv: "upnp_inv_except {a} s" and u: "map_of (device_udn_map s) udn = Some a"
    and d: "devices s a = Some d"
  shows "\<exists>s'. udn_map_remove udn (emit (prv_lost_diagnostics_device (dev_path d)) s) = Some s' \<and> upnp_inv s'"
proof -
  let ?lost = "prv_lost_diagnostics_device (dev_path d)"
  have lost: "emit ?lost s = s\<lparr>calls := calls s @ ?lost\<rparr>"
    by (simp add: prv_lost_diagnostics_device_def env_step_def)
  define s' where "s' = s\<lparr>device_udn_map := AList.delete udn (device_udn_map s),
      devices := (devices s)(a := None),
      sources := filter (\<lambda>(i, _). i \<notin> set (removed_ids (dld_device_delete d))) (sources s),
      calls := calls s @ ?lost @ dld_device_delete d\<rparr>"
  have run: "udn_map_remove udn (emit ?lost s) = Some s'"
    by (simp add: udn_map_remove_def lost u free_device_def d emit_quiet [OF quiet_device_delete] s'_def)
  note inv' = inv [unfolded upnp_inv_except_def]
  have "dom (devices s') = dom (devices s) - {a}" by (auto simp: s'_def)
  then have "reg_of s'"
    using reg_remove [OF inv_reg [OF inv] u] by (simp add: reg_of_def s'_def delete_conv' fun_upd_def)
  moreover have "devices_ok {} s'"
    by (rule devices_ok_free [of a s]) (use inv' in \<open>auto simp: s'_def doomed_def\<close>)
  moreover have "sources_ok s'"
    by (rule sources_ok_free [OF _ d]) (use inv' in \<open>simp_all add: s'_def\<close>)
  moreover have "paths_ok s'"
    by (rule paths_ok_keep [of s]) (use inv' in \<open>auto simp: s'_def split: if_splits\<close>)
  moreover have "announced (calls s') = known_paths s'"
  proof -
    have mem: "b \<noteq> a" if "b \<in> snd ` set (AList.delete udn (device_udn_map s))" for b
    proof -
      from that obtain v where v: "(v, b) \<in> set (device_udn_map s)" "v \<noteq> udn" by (auto simp: AList.delete_eq)
      then have "map_of (device_udn_map s) v = Some b" using inv' by simp
      then show ?thesis using reg_udn_inj [OF inv_reg [OF inv] u] v(2) by auto
    qed
    have "known_paths s = add_mset (dev_path d) (known_paths s')"
      unfolding known_paths_def
      by (subst mset_delete [OF _ u])
        (use inv' d mem in \<open>auto simp: s'_def intro!: image_mset_cong\<close>)
    moreover have "announced (calls s') = announced (calls s) - {#dev_path d#}"
      by (simp add: s'_def announced_append prv_lost_diagnostics_device_def announce_def
          DLD_INTERFACE_FOUND_DEVICE_def DLD_INTERFACE_LOST_DEVICE_def quiet_announced [OF quiet_device_delete])
    ultimately show ?thesis using inv' by simp
  qed
  ultimately have "upnp_inv s'"
    using inv' by (simp add: upnp_inv_except_def s'_def distinct_delete)
  with run show ?thesis by blast
qed

subsection \<open>The construction of a device is cancelled or moved\<close>

lemma construction_cancelled:
  assumes inv: "upnp_inv_except {a} s" and c: "map_of (device_uc_map s) udn = Some p"
    and p: "privs s p = Some pr" and a: "ct_device pr = a"
  shows "upnp_inv (emit [Cancel_queue (ct_queue_id pr)] s)"
proof -
  note r = inv_reg [OF inv] and inv' = inv [unfolded upnp_inv_except_def]
  let ?q = "ct_queue_id pr"
  obtain x where x: "queues s ?q = Some x" "q_user_data x = p" "q_finally x = Prv_device_chain_end"
    using reg_uc_queue [OF r c p] by blast
  define s' where "s' = s\<lparr>queues := (queues s)(?q \<mapsto> x\<lparr>q_cancelled := True, q_tasks := []\<rparr>),
      calls := calls s @ [Cancel_queue ?q]\<rparr>"
  have s': "emit [Cancel_queue ?q] s = s'"
    by (simp add: env_step_def upd_queue_def x s'_def)
  have "reg_of s'"
    unfolding reg_of_def s'_def by (simp del: fun_upd_apply, rule reg_queue_update [OF r x(1)]) simp_all
  moreover have "doomed s' a"
    unfolding doomed_def s'_def using x p a by (intro exI [of _ ?q]) auto
  moreover have "doomed s' b" if "doomed s b" for b
  proof -
    from that obtain q y pry where y: "queues s q = Some y" "q_cancelled y"
      "q_finally y = Prv_device_chain_end" "privs s (q_user_data y) = Some pry" "ct_device pry = b"
      by (auto simp: doomed_def)
    show ?thesis
      unfolding doomed_def s'_def using x y by (intro exI [of _ q]) auto
  qed
  ultimately have "devices_ok {} s'" "reg_of s'"
    using inv' unfolding devices_ok_def by (auto simp: s'_def)
  moreover have "sources_ok s'" "paths_ok s'"
    using inv' by (simp_all add: sources_ok_def paths_ok_def s'_def)
  moreover have "announced (calls s') = known_paths s'"
    using inv' by (simp add: s'_def announced_append announce_def known_paths_def)
  ultimately have "upnp_inv s'"
    using inv' by (simp add: upnp_inv_except_def s'_def)
  then show ?thesis unfolding s' .
qed

text \<open>The calls of \<open>dld_device_construct\<close> put the steps that are left into the queue.\<close>

definition steps_left :: "dld_device \<Rightarrow> service_task list" where
  "steps_left d =
     (if construct_step d < 1 then [Prv_subscribe (dev_ref d)] else []) @
     (if construct_step d < 2 then [Prv_declare (dev_ref d)] else [])"

lemma emit_construct:
  assumes "queues s q = Some x"
  shows "emit (dld_device_construct d q) s =
     s\<lparr>queues := (queues s)(q \<mapsto> x\<lparr>q_tasks := q_tasks x @ steps_left d\<rparr>),
       calls := calls s @ dld_device_construct d q\<rparr>"
proof -
  have "(queues s)(q \<mapsto> x) = queues s" using assms by auto
  then show ?thesis
    using assms by (simp add: dld_device_construct_def steps_left_def env_step_def upd_queue_def)
qed

lemma construction_moved:
  assumes inv: "upnp_inv s" and c: "map_of (device_uc_map s) udn = Some p"
    and p: "privs s p = Some pr" and d: "devices s (ct_device pr) = Some d"
    and ne: "dev_contexts d \<noteq> []"
    and s2: "s2 = emit [Set_finally (ct_queue_id pr) Prv_device_context_switch_end,
               Cancel_queue (ct_queue_id pr)] (uc_map_remove (ct_udn pr) s)"
    and s3: "prv_create_device_queue s2 = (p1, q1, s3)"
  shows "upnp_inv (emit (dld_device_construct d q1)
           (prv_update_device_context p1 udn (ct_device pr) ip q1 s3))"
proof -
  note r = inv_reg [OF inv] and inv' = inv [unfolded upnp_inv_except_def]
  let ?q = "ct_queue_id pr" and ?a = "ct_device pr"
  let ?n = "next_ref s"
  obtain x where x: "queues s ?q = Some x" "q_user_data x = p" "q_finally x = Prv_device_chain_end"
    and u: "ct_udn pr = udn"
    using reg_uc_queue [OF r c p] by blast
  let ?y = "x\<lparr>q_finally := Prv_device_context_switch_end, q_cancelled := True, q_tasks := []\<rparr>"
  let ?x1 = "\<lparr>q_tasks = steps_left d, q_finally = Prv_device_chain_end, q_user_data = ?n, q_cancelled = False\<rparr>"
  let ?pr1 = "\<lparr>ct_udn = udn, ct_ip_address = ip, ct_device = ?a, ct_queue_id = Suc ?n\<rparr>"
  have S2: "s2 = s\<lparr>device_uc_map := AList.delete udn (device_uc_map s), queues := (queues s)(?q \<mapsto> ?y),
      calls := calls s @ [Set_finally ?q Prv_device_context_switch_end, Cancel_queue ?q]\<rparr>"
    by (simp add: s2 uc_map_remove_def env_step_def upd_queue_def x u)
  have new: "p1 = ?n" "q1 = Suc ?n"
    using s3 by (auto simp: prv_create_device_queue_def Let_def S2)
  define s4 where "s4 = s\<lparr>device_uc_map := AList.update udn ?n (AList.delete udn (device_uc_map s)),
      privs := (privs s)(?n \<mapsto> ?pr1), queues := (queues s)(?q \<mapsto> ?y, Suc ?n \<mapsto> ?x1),
      next_ref := Suc (Suc ?n), calls := calls s @
        [Set_finally ?q Prv_device_context_switch_end, Cancel_queue ?q, Add_queue q1,
         Set_finally q1 Prv_device_chain_end, Set_user_data q1 p1] @ dld_device_construct d q1\<rparr>"
  have S4: "emit (dld_device_construct d q1) (prv_update_device_context p1 udn ?a ip q1 s3) = s4"
    using s3
    by (auto simp: prv_create_device_queue_def Let_def S2 new s4_def prv_update_device_context_def
        env_step_def upd_queue_def emit_construct)
  have none: "privs s ?n = None" "queues s (Suc ?n) = None"
    using reg_bound(2) [OF r, of ?n] reg_bound(3) [OF r, of "Suc ?n"]
    by (cases "privs s ?n"; cases "queues s (Suc ?n)"; fastforce)+
  have ref: "dev_ref d = ?a" using inv_device [OF inv d] by (simp add: dev_ok_def)
  have up: "(map_of (device_uc_map s))(udn := None, udn \<mapsto> ?n) = (map_of (device_uc_map s))(udn \<mapsto> ?n)"
    by simp
  have "reg_of s4"
    unfolding reg_of_def s4_def
    by (simp del: fun_upd_apply add: delete_conv' up,
        rule reg_switch [OF r c p x(1)])
      (use x(2) u ref in \<open>auto simp: device_tasks_def steps_left_def\<close>)
  moreover have "devices_ok {} s4"
    unfolding devices_ok_def
  proof (intro allI impI conjI)
    fix b e assume b: "devices s4 b = Some e"
    then have bs: "devices s b = Some e" by (simp add: s4_def)
    then show "dev_ok (next_ref s4) b e"
      using dev_ok_mono [OF inv_device [OF inv bs], of "Suc (Suc ?n)"] by (simp add: s4_def)
    assume "dev_contexts e = []"
    then have "doomed s b" using inv' bs by (auto simp: devices_ok_def)
    then obtain q y pry where y: "queues s q = Some y" "q_cancelled y"
      "q_finally y = Prv_device_chain_end" "privs s (q_user_data y) = Some pry" "ct_device pry = b"
      by (auto simp: doomed_def)
    have "b \<noteq> ?a" using ne d bs \<open>dev_contexts e = []\<close> by auto
    then have "q \<noteq> ?q" "q \<noteq> Suc ?n" "q_user_data y \<noteq> ?n"
      using y x p none by auto
    then have "doomed s4 b"
      unfolding doomed_def s4_def using y by (intro exI [of _ q]) auto
    then show "b \<in> {} \<or> doomed s4 b" by simp
  qed
  moreover have "sources_ok s4" using inv' by (simp add: sources_ok_def s4_def)
  moreover have "paths_ok s4"
    by (rule paths_ok_keep [of s]) (use inv' in \<open>auto simp: s4_def\<close>)
  moreover have "list_all (\<lambda>e. announce e M = M) (dld_device_construct d q1)" for M
    by (simp add: dld_device_construct_def announce_def)
  then have "announced (calls s4) = known_paths s4"
    using inv' by (simp add: s4_def announced_append announce_def known_paths_def dld_device_construct_def)
  ultimately show ?thesis
    using inv' unfolding S4 by (simp add: upnp_inv_except_def s4_def distinct_update distinct_delete)
qed

subsection \<open>Removing a device\<close>

lemma resubscribe_timer:
  assumes inv: "upnp_inv_except X s" and d: "devices s a = Some d" and t: "dev_timeout_id d = 0"
    and ne: "dev_contexts d \<noteq> []"
  shows "upnp_inv_except X (emit [Timeout_add (next_source s) n (Subscribe_to_service_changes a)]
           (set_device a (d\<lparr>dev_timeout_id := next_source s\<rparr>) s))"
proof -
  have pos: "0 < next_source s" using inv by (simp add: upnp_inv_except_def sources_ok_def)
  have ok: "dev_ok (next_ref s) a (d\<lparr>dev_timeout_id := next_source s\<rparr>)"
    using inv_device [OF inv d]
    by (simp add: dev_ok_def context_inv_def dld_device_get_context_def cong: conj_cong option.case_cong)
  show ?thesis
    using inv_timer_update [OF inv d ok, of "[]" "Subscribe_to_service_changes a" n] t ne pos
    by (auto simp: held_def)
qed

lemma remove_known_inv:
  assumes inv: "upnp_inv s" and lk: "lookup_device udn s = Some (Some (a, None))"
    and u0: "map_of (device_udn_map s) udn = Some a" and d: "devices s a = Some d"
    and Some: "find_index (\<lambda>c. ctx_ip_address c = ip) (dev_contexts d) = Some i"
  shows "\<exists>s'. prv_remove_device ip udn s = Some s' \<and> upnp_inv s'"
proof -
  have i: "i < length (dev_contexts d)" using Some by (auto dest: find_index_SomeD)
  let ?c = "dev_contexts d ! i" and ?d1 = "remove_context i d"
  define s1 where "s1 = emit (prv_dld_context_delete ?c) (set_device a ?d1 s)"
  note s1 = context_removed [OF inv d i s1_def]
  have u: "map_of (device_udn_map s1) udn = Some a" using u0 s1(3) by simp
  note run = prv_remove_device_def lk d Some s1_def [symmetric] Let_def
  show ?thesis
  proof (cases "dev_contexts ?d1 = []")
    case True
    with known_device_removed [OF s1(1) u s1(2)] show ?thesis by (simp add: run)
  next
    case ne: False
    note inv1 = inv_except_drop [OF s1(1,2) ne]
    show ?thesis
    proof (cases "bms_subscribed ?c \<and> dev_timeout_id ?d1 = 0")
      case True
      with resubscribe_timer [OF inv1 s1(2) _ ne, of 1] ne show ?thesis
        by (simp add: run del: emit.simps)
    next
      case False
      with inv1 ne show ?thesis by (auto simp: run)
    qed
  qed
qed

lemma remove_constructing_inv:
  assumes inv: "upnp_inv s" and lk: "lookup_device udn s = Some (Some (ct_device pr, Some p))"
    and c: "map_of (device_uc_map s) udn = Some p" and pr: "privs s p = Some pr"
    and d: "devices s (ct_device pr) = Some d"
    and Some: "find_index (\<lambda>c. ctx_ip_address c = ip) (dev_contexts d) = Some i"
  shows "\<exists>s'. prv_remove_device ip udn s = Some s' \<and> upnp_inv s'"
proof -
  have i: "i < length (dev_contexts d)" using Some by (auto dest: find_index_SomeD)
  let ?c = "dev_contexts d ! i" and ?d1 = "remove_context i d" and ?a = "ct_device pr"
  define s1 where "s1 = emit (prv_dld_context_delete ?c) (set_device ?a ?d1 s)"
  note s1 = context_removed [OF inv d i s1_def]
  have p1: "map_of (device_uc_map s1) udn = Some p" "privs s1 p = Some pr"
    using c pr s1(4,5) by simp_all
  note run = prv_remove_device_def lk d Some s1_def [symmetric] p1(2) Let_def
  consider "dev_contexts ?d1 = []" | "dev_contexts ?d1 \<noteq> []" "ctx_ip_address ?c = ct_ip_address pr"
    | "dev_contexts ?d1 \<noteq> []" "ctx_ip_address ?c \<noteq> ct_ip_address pr" by blast
  then show ?thesis
  proof cases
    case 1
    with construction_cancelled [OF s1(1) p1 refl] show ?thesis by (simp add: run del: emit.simps)
  next
    case 2
    obtain j where j: "dld_device_get_context ?d1 = Some j"
      using 2(1) by (cases "dld_device_get_context ?d1") auto
    obtain p2 q2 s3 where s3: "prv_create_device_queue
        (emit [Set_finally (ct_queue_id pr) Prv_device_context_switch_end,
           Cancel_queue (ct_queue_id pr)] (uc_map_remove (ct_udn pr) s1)) = (p2, q2, s3)"
      by (metis surj_pair)
    from construction_moved [OF inv_except_drop [OF s1(1,2) 2(1)] p1 s1(2) 2(1) refl s3] 2 j s3
    show ?thesis by (simp add: run del: emit.simps)
  next
    case 3
    note inv1 = inv_except_drop [OF s1(1,2) 3(1)]
    show ?thesis
    proof (cases "bms_subscribed ?c \<and> dev_timeout_id ?d1 = 0")
      case True
      with resubscribe_timer [OF inv1 s1(2) _ 3(1), of 1] 3 show ?thesis
        by (simp add: run del: emit.simps)
    next
      case False
      with inv1 3 show ?thesis by (auto simp: run)
    qed
  qed
qed

lemma remove_device_inv:
  assumes inv: "upnp_inv s"
  shows "\<exists>s'. prv_remove_device ip udn s = Some s' \<and> upnp_inv s'"
  using inv
proof (cases rule: lookup_device_cases [of "{}" s udn])
  case 1
  then show ?thesis using inv by (simp add: prv_remove_device_def)
next
  case (2 a d)
  then show ?thesis
    using inv remove_known_inv [OF inv 2]
    by (cases "find_index (\<lambda>c. ctx_ip_address c = ip) (dev_contexts d)") (auto simp: prv_remove_device_def)
next
  case (3 p pr d)
  then show ?thesis
    using inv remove_constructing_inv [OF inv 3(1,3,4,6)]
    by (cases "find_index (\<lambda>c. ctx_ip_address c = ip) (dev_contexts d)") (auto simp: prv_remove_device_def)
qed

interpretation removing: registry_op "prv_remove_sub_device ip" for ip
proof
  fix s and bms :: "proxy option" and info
  assume "upnp_inv s"
  then show "\<exists>s'. prv_remove_sub_device ip info bms s = Some s' \<and> upnp_inv s'"
    using remove_device_inv by (cases "di_udn info") (auto simp: prv_remove_sub_device_def)
qed

lemma unavailable_inv:
  assumes inv: "upnp_inv s"
  shows "\<exists>s'. prv_device_unavailable_cb info ip s = Some s' \<and> upnp_inv s'"
proof (cases "di_udn info = None \<or> ip = None")
  case True
  then show ?thesis using inv by (auto simp: prv_device_unavailable_cb_def split: option.splits)
next
  case False
  then obtain udn ip_address where u: "di_udn info = Some udn" "ip = Some ip_address" by auto
  from removing.walk_inv [OF inv, of ip_address info] obtain s1 where
    s1: "walk_sub_devices (prv_remove_sub_device ip_address) info s = Some (None, s1)" "upnp_inv s1" by blast
  from remove_device_inv [OF s1(2)] s1(1) show ?thesis
    by (simp add: prv_device_unavailable_cb_def u prv_remove_bm_service_sub_devices_def)
qed

end
