(* ===== verification/Upnp_Run.thy ===== *)
theory Upnp_Run
  imports Upnp_Remove
begin

section \<open>The registry at run time: events, reachable states, safety\<close>

text \<open>
  The events that run the code of \<open>upnp.c\<close> and the callbacks of \<open>device.c\<close>, in any order: devices
  appear and disappear, the task processor runs the tasks of a queue and ends it, timers fire,
  subscriptions are lost, devices send events, the service unsubscribes. A state is reachable if
  it results from a sequence of events, each of them possible when it happens. Every reachable
  state satisfies the registry's invariant. A possible event has undefined behaviour in three cases,
  which \<open>ev_undefined\<close> lists, and in no other.
\<close>

subsection \<open>Events\<close>

text \<open>
  An operation on the device at an address, and the context at an address: None if the structure
  was freed.
\<close>

definition on_device ::
  "(dld_device \<Rightarrow> (dld_device \<times> effect list) option) \<Rightarrow> addr \<Rightarrow> dld_upnp \<Rightarrow> dld_upnp option" where
  "on_device f a s =
     do {
       device \<leftarrow> devices s a;
       (device1, eff) \<leftarrow> f device;
       Some (emit eff (set_device a device1 s))
     }"

definition on_context ::
  "(dev_context \<Rightarrow> dev_context \<times> effect list) \<Rightarrow> addr \<Rightarrow> addr \<Rightarrow> dld_upnp \<Rightarrow> dld_upnp option" where
  "on_context f a r s =
     do {
       device \<leftarrow> devices s a;
       i \<leftarrow> find_index (\<lambda>c. ctx_ref c = r) (dev_contexts device);
       on_device (at_context i f) a s
     }"

datatype upnp_event =
    Ev_context_available string
  | Ev_available device_info "string option"
  | Ev_unavailable device_info "string option"
  | Ev_run_task addr "nat \<Rightarrow> guint"
  | Ev_queue_end addr
  | Ev_timer source_id
  | Ev_subscription_lost addr addr
  | Ev_device_status addr string
  | Ev_test_ids addr string
  | Ev_active_test_ids addr string
  | Ev_get_icon "string \<Rightarrow> bool" dld_task
  | Ev_icon_session soup_status addr dld_task
  | Ev_rescan
  | Ev_unsubscribe

text \<open>A task of a construction; if it fails the task processor cancels the rest of the queue.\<close>

definition cancel_rest :: "task_queue \<Rightarrow> task_queue" where
  "cancel_rest x = x\<lparr>q_cancelled := True, q_tasks := []\<rparr>"

definition run_service_task ::
  "(nat \<Rightarrow> guint) \<Rightarrow> addr \<Rightarrow> service_task \<Rightarrow> dld_upnp \<Rightarrow> dld_upnp option" where
  "run_service_task pub q t s =
     (case t of
        Prv_subscribe a \<Rightarrow> on_device prv_subscribe a s
      | Prv_declare a \<Rightarrow>
          do {
            device \<leftarrow> devices s a;
            let (device1, failed, eff) = prv_declare pub device;
            let s1 = emit eff (set_device a device1 s);
            Some (if failed then upd_queue q cancel_rest s1 else s1)
          })"

definition run_timer :: "timer_cb \<Rightarrow> dld_upnp \<Rightarrow> dld_upnp option" where
  "run_timer cb s =
     (case cb of
        Subscribe_to_service_changes a \<Rightarrow> prv_subscribe_to_service_changes a s
      | Re_enable_bms_subscription a r \<Rightarrow>
          on_context (\<lambda>c. (prv_re_enable_bms_subscription c, [])) a r s)"

definition run_finally :: "task_queue \<Rightarrow> dld_upnp \<Rightarrow> dld_upnp option" where
  "run_finally x s =
     (case q_finally x of
        Prv_device_chain_end \<Rightarrow> prv_device_chain_end (q_cancelled x) (q_user_data x) s
      | Prv_device_context_switch_end \<Rightarrow>
          prv_device_context_switch_end (q_cancelled x) (q_user_data x) s)"

fun upnp_step :: "glib \<Rightarrow> upnp_event \<Rightarrow> dld_upnp \<Rightarrow> dld_upnp option" where
  "upnp_step gl (Ev_context_available ip) s = Some (prv_on_context_available ip s)"
| "upnp_step gl (Ev_available info ip) s = prv_device_available_cb gl info ip s"
| "upnp_step gl (Ev_unavailable info ip) s = prv_device_unavailable_cb info ip s"
| "upnp_step gl (Ev_run_task q pub) s =
     do {
       x \<leftarrow> queues s q;
       (case q_tasks x of
          [] \<Rightarrow> None
        | t # ts \<Rightarrow> run_service_task pub q t (upd_queue q (\<lambda>x. x\<lparr>q_tasks := ts\<rparr>) s))
     }"
| "upnp_step gl (Ev_queue_end q) s =
     do {
       x \<leftarrow> queues s q;
       s1 \<leftarrow> run_finally x s;
       Some (s1\<lparr>queues := (queues s1)(q := None)\<rparr>)
     }"
| "upnp_step gl (Ev_timer tid) s =
     do {
       cb \<leftarrow> map_of (sources s) tid;
       run_timer cb (s\<lparr>sources := filter (\<lambda>(j, _). j \<noteq> tid) (sources s)\<rparr>)
     }"
| "upnp_step gl (Ev_subscription_lost a r) s =
     on_context (prv_bms_subscription_lost_cb (next_source s)) a r s"
| "upnp_step gl (Ev_device_status a str) s =
     on_device (\<lambda>d. Some (prv_bm_device_status_cb gl str d)) a s"
| "upnp_step gl (Ev_test_ids a str) s = on_device (prv_bm_test_ids_cb gl str) a s"
| "upnp_step gl (Ev_active_test_ids a str) s = on_device (prv_bm_active_test_ids_cb gl str) a s"
| "upnp_step gl (Ev_get_icon msg_new t) s = map_option fst (dld_upnp_get_icon gl msg_new s t)"
| "upnp_step gl (Ev_icon_session status a t) s =
     on_device (\<lambda>d. map_option (\<lambda>(d', _). (d', [])) (prv_get_icon_session_cb gl status d t)) a s"
| "upnp_step gl Ev_rescan s = Some (dld_upnp_rescan s)"
| "upnp_step gl Ev_unsubscribe s = dld_upnp_unsubscribe s"

text \<open>
  When an event is possible. A device only sends events and only loses a subscription while it is
  subscribed; a timer that was started fires, the task processor runs the tasks of a queue and ends a
  queue that has none left. A method call comes with its path and asynchronous part, and a download
  belongs to a device that exists, since the loss of a device cancels it.
\<close>

definition subscribed_device :: "dld_upnp \<Rightarrow> addr \<Rightarrow> bool" where
  "subscribed_device s a \<longleftrightarrow>
     (case devices s a of None \<Rightarrow> False | Some d \<Rightarrow> \<exists>c \<in> set (dev_contexts d). bms_subscribed c)"

definition readable_ids :: "glib \<Rightarrow> string \<Rightarrow> bool" where
  "readable_ids gl str \<longleftrightarrow> those (map atou (comma_pieces gl str)) \<noteq> None"

definition subscribed_context :: "dld_upnp \<Rightarrow> addr \<Rightarrow> addr \<Rightarrow> bool" where
  "subscribed_context s a r \<longleftrightarrow>
     (case devices s a of
        None \<Rightarrow> False
      | Some d \<Rightarrow> \<exists>c \<in> set (dev_contexts d). ctx_ref c = r \<and> bms_subscribed c)"

definition icon_typed :: "glib \<Rightarrow> dld_device \<Rightarrow> bool" where
  "icon_typed gl d \<longleftrightarrow> g_variant_new_string gl (icon_mime_type d) \<noteq> None"

fun ev_possible :: "glib \<Rightarrow> upnp_event \<Rightarrow> dld_upnp \<Rightarrow> bool" where
  "ev_possible gl (Ev_context_available ip) s \<longleftrightarrow> True"
| "ev_possible gl (Ev_available info ip) s \<longleftrightarrow> True"
| "ev_possible gl (Ev_unavailable info ip) s \<longleftrightarrow> True"
| "ev_possible gl (Ev_run_task q pub) s \<longleftrightarrow>
     (case queues s q of None \<Rightarrow> False | Some x \<Rightarrow> q_tasks x \<noteq> [])"
| "ev_possible gl (Ev_queue_end q) s \<longleftrightarrow>
     (case queues s q of None \<Rightarrow> False | Some x \<Rightarrow> q_tasks x = [])"
| "ev_possible gl (Ev_timer tid) s \<longleftrightarrow>
     (case map_of (sources s) tid of None \<Rightarrow> False | Some cb \<Rightarrow> True)"
| "ev_possible gl (Ev_subscription_lost a r) s \<longleftrightarrow> subscribed_context s a r"
| "ev_possible gl (Ev_device_status a str) s \<longleftrightarrow> subscribed_device s a"
| "ev_possible gl (Ev_test_ids a str) s \<longleftrightarrow> subscribed_device s a"
| "ev_possible gl (Ev_active_test_ids a str) s \<longleftrightarrow> subscribed_device s a"
| "ev_possible gl (Ev_get_icon msg_new t) s \<longleftrightarrow>
     task_path t \<noteq> None \<and> task_async t \<noteq> None"
| "ev_possible gl (Ev_icon_session status a t) s \<longleftrightarrow>
     (case devices s a of None \<Rightarrow> False | Some d \<Rightarrow> True)"
| "ev_possible gl Ev_rescan s \<longleftrightarrow> True"
| "ev_possible gl Ev_unsubscribe s \<longleftrightarrow> True"

text \<open>
  The events whose handling has no defined behaviour: the timer that subscribes again finds a device
  without a context; a device sends a test identifier that \<open>atoi\<close> cannot represent; an icon has to be
  sent whose description names no MIME type.
\<close>

definition wanted_device :: "dld_task \<Rightarrow> dld_upnp \<Rightarrow> dld_device option" where
  "wanted_device t s =
     (case (task_path t, known_devices s) of
        (Some path, Some ds) \<Rightarrow> dld_device_from_path path ds
      | _ \<Rightarrow> None)"

definition no_context :: "addr \<Rightarrow> dld_upnp \<Rightarrow> bool" where
  "no_context a s \<longleftrightarrow> (case devices s a of None \<Rightarrow> False | Some d \<Rightarrow> dev_contexts d = [])"

definition no_mime_type :: "glib \<Rightarrow> dld_device option \<Rightarrow> bool" where
  "no_mime_type gl dev \<longleftrightarrow> (case dev of None \<Rightarrow> False | Some d \<Rightarrow> \<not> icon_typed gl d)"

fun ev_undefined :: "glib \<Rightarrow> upnp_event \<Rightarrow> dld_upnp \<Rightarrow> bool" where
  "ev_undefined gl (Ev_timer tid) s \<longleftrightarrow>
     (case map_of (sources s) tid of
        Some (Subscribe_to_service_changes a) \<Rightarrow> no_context a s
      | _ \<Rightarrow> False)"
| "ev_undefined gl (Ev_test_ids a str) s \<longleftrightarrow> \<not> readable_ids gl str"
| "ev_undefined gl (Ev_active_test_ids a str) s \<longleftrightarrow> \<not> readable_ids gl str"
| "ev_undefined gl (Ev_get_icon msg_new t) s \<longleftrightarrow>
     (case wanted_device t s of None \<Rightarrow> False | Some d \<Rightarrow> icon_size d \<noteq> 0 \<and> \<not> icon_typed gl d)"
| "ev_undefined gl (Ev_icon_session (Soup_successful body) a t) s \<longleftrightarrow> no_mime_type gl (devices s a)"
| "ev_undefined gl _ s \<longleftrightarrow> False"

declare upnp_step.simps [simp del] ev_possible.simps [simp del] ev_undefined.simps [simp del]

inductive upnp_reach :: "glib \<Rightarrow> dld_upnp \<Rightarrow> bool" for gl where
  reach_new: "upnp_reach gl dld_upnp_new"
| reach_step: "upnp_reach gl s \<Longrightarrow> ev_possible gl e s \<Longrightarrow> upnp_step gl e s = Some s' \<Longrightarrow> upnp_reach gl s'"

inductive_cases upnp_reachE: "upnp_reach gl s"

subsection \<open>The invariant under operations on one device\<close>

lemma inv_on_device:
  assumes inv: "upnp_inv s" and d: "devices s a = Some d" and f: "f d = Some (d', eff)"
    and ok: "dev_ok (next_ref s) a d'" and path: "dev_path d' = dev_path d"
    and ne: "dev_contexts d' = [] \<Longrightarrow> dev_contexts d = []"
    and quiet: "list_all quiet eff"
    and timers: "held a d \<inter> set (sources s) - held a d' \<subseteq> {(i, cb). i \<in> set (removed_ids eff)}"
  shows "\<exists>s'. on_device f a s = Some s' \<and> upnp_inv s'"
  using inv_device_update [OF inv d ok path _ quiet timers] ne by (simp add: on_device_def d f)

context device_op
begin

lemma op_on_device:
  assumes inv: "upnp_inv s" and d: "devices s a = Some d" and ne: "dev_contexts d \<noteq> []"
    and q: "\<And>d' eff. f d = Some (d', eff) \<Longrightarrow> op_quiet a d d' eff"
  shows "\<exists>s'. on_device f a s = Some s' \<and> upnp_inv s'"
proof -
  obtain d' eff where f: "f d = Some (d', eff)" using op_defined [OF ne] by auto
  from op_upnp_inv [OF f inv d q [OF f]] show ?thesis by (simp add: on_device_def d f)
qed

end

lemma inv_queue_update:
  assumes inv: "upnp_inv_except X s" and q: "queues s q = Some x"
    and x': "q_user_data x' = q_user_data x" "q_finally x' = q_finally x"
      "q_cancelled x \<Longrightarrow> q_cancelled x'" "q_cancelled x' \<Longrightarrow> q_tasks x' = []"
      "set (q_tasks x') \<subseteq> set (q_tasks x)"
  shows "upnp_inv_except X (s\<lparr>queues := (queues s)(q \<mapsto> x')\<rparr>)" (is "upnp_inv_except X ?s")
proof -
  note inv' = inv [unfolded upnp_inv_except_def]
  have "reg_of ?s"
    unfolding reg_of_def by (simp del: fun_upd_apply, rule reg_queue_update [OF inv_reg [OF inv] q x'])
  moreover have "doomed ?s b" if "doomed s b" for b
  proof -
    from that obtain w y pr where "queues s w = Some y" "q_cancelled y"
      "q_finally y = Prv_device_chain_end" "privs s (q_user_data y) = Some pr" "ct_device pr = b"
      by (auto simp: doomed_def)
    then show ?thesis unfolding doomed_def using q x'(1-3) by (intro exI [of _ w]) auto
  qed
  then have "devices_ok X ?s" using inv' by (auto simp: devices_ok_def)
  moreover have "sources_ok ?s" "paths_ok ?s" using inv' by (simp_all add: sources_ok_def paths_ok_def)
  ultimately show ?thesis using inv' by (simp add: upnp_inv_except_def known_paths_def)
qed

lemma inv_drop_source:
  assumes "upnp_inv s"
  shows "upnp_inv (s\<lparr>sources := filter P (sources s)\<rparr>)"
proof -
  have "sources_ok (s\<lparr>sources := filter P (sources s)\<rparr>)"
    using assms by (auto simp: upnp_inv_except_def sources_ok_def distinct_map inj_on_def)
  then show ?thesis
    using assms by (simp add: upnp_inv_except_def reg_of_def devices_ok_def doomed_def paths_ok_def known_paths_def)
qed

subsection \<open>The callbacks on a device\<close>

interpretation subscribe_step: device_op prv_subscribe
proof
  fix d d' eff
  assume s: "prv_subscribe d = Some (d', eff)"
  let ?d = "d\<lparr>construct_step := construct_step d + 1\<rparr>"
  have sub: "prv_device_subscribe_context ?d = Some (d', eff)" using s by (simp add: prv_subscribe_def)
  from resubscribing.op_same [OF this] show "same_device d d'" by (simp add: same_device_def)
  assume "context_inv d"
  then have "context_inv ?d"
    by (simp add: context_inv_def get_context_preferred)
  then show "context_inv d'" by (rule resubscribing.op_inv [OF sub])
next
  fix d :: dld_device
  assume "dev_contexts d \<noteq> []"
  then show "prv_subscribe d \<noteq> None"
    using resubscribing.op_defined [of "d\<lparr>construct_step := construct_step d + 1\<rparr>"]
    by (simp add: prv_subscribe_def)
qed

lemma quiet_subscribe_step:
  assumes "prv_subscribe d = Some (d', eff)"
  shows "op_quiet a d d' eff"
  using quiet_subscribe_context(1) [of "d\<lparr>construct_step := construct_step d + 1\<rparr>" d' eff a] assms
  by (simp add: prv_subscribe_def op_quiet_def held_def)

text \<open>Operations that change properties or publish interfaces leave contexts and timers alone.\<close>

lemma inv_other_fields:
  assumes inv: "upnp_inv s" and d: "devices s a = Some d"
    and same: "dev_contexts d' = dev_contexts d" "dev_ref d' = dev_ref d" "dev_path d' = dev_path d"
      "dev_timeout_id d' = dev_timeout_id d" "length (dev_ids d') = length (dev_ids d)"
    and quiet: "list_all quiet eff"
  shows "upnp_inv (emit eff (set_device a d' s))"
proof (rule inv_device_update [OF inv d])
  show "dev_ok (next_ref s) a d'"
    using inv_device [OF inv d] same
    by (simp add: dev_ok_def context_inv_def get_context_preferred)
qed (use same quiet in \<open>auto simp: held_def\<close>)

lemma declare_loop_effects: "list_all quiet (snd (snd (declare_loop pub path js ids)))"
  by (induction js arbitrary: ids) (auto simp: quiet_def Let_def split: prod.splits, metis snd_conv)

lemma declare_loop_length: "length (fst (declare_loop pub path js ids)) = length ids"
  by (induction js arbitrary: ids) (auto simp: Let_def split: prod.splits, metis fst_conv length_list_update)

lemma declare_effects:
  assumes "prv_declare pub d = (d', failed, eff)"
  shows "list_all quiet eff" and "dev_contexts d' = dev_contexts d" and "dev_ref d' = dev_ref d"
    and "dev_path d' = dev_path d" and "dev_timeout_id d' = dev_timeout_id d"
    and "length (dev_ids d') = length (dev_ids d)"
  using assms declare_loop_effects [of pub "dev_path d" "[0..<DLD_INTERFACE_INFO_MAX]" "dev_ids d"]
    declare_loop_length [of pub "dev_path d" "[0..<DLD_INTERFACE_INFO_MAX]" "dev_ids d"]
  by (auto simp: prv_declare_def split: prod.splits)

subsection \<open>The task processor runs a construction\<close>

text \<open>A queue with tasks left belongs to the construction of a device that has a context.\<close>

lemma task_device:
  assumes inv: "upnp_inv s" and q: "queues s q = Some x" and t: "t \<in> set (q_tasks x)"
  shows "\<exists>a d. t \<in> device_tasks a \<and> devices s a = Some d \<and> dev_contexts d \<noteq> []"
proof -
  note r = inv_reg [OF inv]
  obtain pr where pr: "privs s (q_user_data x) = Some pr" "ct_queue_id pr = q"
    and nc: "\<not> q_cancelled x" and fin: "q_finally x = Prv_device_chain_end"
    and c: "map_of (device_uc_map s) (ct_udn pr) = Some (q_user_data x)"
    and ts: "set (q_tasks x) \<subseteq> device_tasks (ct_device pr)"
    using reg_queue [OF r q] t by (cases "q_finally x") (auto simp: queue_ok_def)
  obtain d where d: "devices s (ct_device pr) = Some d"
    using reg_uc [OF r c] pr by auto
  have "dev_contexts d \<noteq> []"
  proof
    assume "dev_contexts d = []"
    then have "doomed s (ct_device pr)" using inv d by (auto simp: upnp_inv_except_def devices_ok_def)
    then obtain w y pry where y: "queues s w = Some y" "q_cancelled y"
      "q_finally y = Prv_device_chain_end" "privs s (q_user_data y) = Some pry" "ct_device pry = ct_device pr"
      by (auto simp: doomed_def)
    have cy: "map_of (device_uc_map s) (ct_udn pry) = Some (q_user_data y)"
      using reg_queue [OF r y(1)] y(3,4) by (auto simp: queue_ok_def)
    then have "q_user_data y = q_user_data x"
      using reg_uc_inj [OF r cy y(4) c pr(1) y(5)] c by simp
    then have "w = q" using reg_priv_queue_unique [OF r pr(1) y(1)] pr(2) by simp
    then show False using y(1,2) q nc by simp
  qed
  with d ts t show ?thesis by blast
qed

lemma cancel_rest_inv:
  assumes inv: "upnp_inv s"
  shows "upnp_inv (upd_queue q cancel_rest s)"
proof (cases "queues s q")
  case None
  then have "upd_queue q cancel_rest s = s" by (simp add: upd_queue_def fun_upd_idem)
  with inv show ?thesis by simp
next
  case (Some x)
  then show ?thesis
    using inv_queue_update [OF inv Some, of "cancel_rest x"] by (simp add: upd_queue_def cancel_rest_def)
qed

lemma run_task_inv:
  assumes inv: "upnp_inv s" and q: "queues s q = Some x" and t: "q_tasks x = t # ts"
  shows "\<exists>s'. upnp_step gl (Ev_run_task q pub) s = Some s' \<and> upnp_inv s'"
proof -
  obtain a d where a: "t \<in> device_tasks a" and d: "devices s a = Some d" and ne: "dev_contexts d \<noteq> []"
    using task_device [OF inv q, of t] t by auto
  define s0 where "s0 = upd_queue q (\<lambda>x. x\<lparr>q_tasks := ts\<rparr>) s"
  have "q_cancelled x \<longrightarrow> q_tasks x = []"
    using reg_queue [OF inv_reg [OF inv] q] by (auto simp: queue_ok_def)
  then have "upnp_inv (s\<lparr>queues := (queues s)(q \<mapsto> x\<lparr>q_tasks := ts\<rparr>)\<rparr>)"
    by (intro inv_queue_update [OF inv q]) (auto simp: t)
  then have inv0: "upnp_inv s0" by (simp add: s0_def upd_queue_def q)
  have d0: "devices s0 a = Some d" by (simp add: s0_def upd_queue_def d)
  consider "t = Prv_subscribe a" | "t = Prv_declare a" using a by (auto simp: device_tasks_def)
  then have "\<exists>s'. run_service_task pub q t s0 = Some s' \<and> upnp_inv s'"
  proof cases
    case 1
    with subscribe_step.op_on_device [OF inv0 d0 ne quiet_subscribe_step] show ?thesis
      by (simp add: run_service_task_def)
  next
    case 2
    obtain d1 failed eff where dec: "prv_declare pub d = (d1, failed, eff)" by (metis surj_pair)
    have "upnp_inv (emit eff (set_device a d1 s0))"
      by (rule inv_other_fields [OF inv0 d0]) (use declare_effects [OF dec] in simp_all)
    then show ?thesis
      using 2 cancel_rest_inv by (auto simp: run_service_task_def d0 dec Let_def)
  qed
  then show ?thesis by (simp add: upnp_step.simps q t s0_def [symmetric])
qed

subsection \<open>The end of a construction\<close>

lemma doomed_other:
  assumes r: "reg U C (privs s) (queues s) D n" and q: "queues s q = Some x"
    and b: "doomed s b"
    and other: "\<And>pr. q_cancelled x \<Longrightarrow> q_finally x = Prv_device_chain_end \<Longrightarrow>
                  privs s (q_user_data x) = Some pr \<Longrightarrow> ct_device pr \<noteq> b"
    and s': "privs s' = (privs s)(q_user_data x := None)" "queues s' = (queues s)(q := None)"
  shows "doomed s' b"
proof -
  from b obtain w y pry where y: "queues s w = Some y" "q_cancelled y"
    "q_finally y = Prv_device_chain_end" "privs s (q_user_data y) = Some pry" "ct_device pry = b"
    by (auto simp: doomed_def)
  have "w \<noteq> q" using y q other by auto
  then have "q_user_data y \<noteq> q_user_data x"
    using reg_priv_queue_unique [OF r y(4) q] reg_priv_queue_unique [OF r y(4) y(1)] by auto
  with y \<open>w \<noteq> q\<close> show ?thesis unfolding doomed_def s' by (intro exI [of _ w]) auto
qed

lemma devices_ok_other:
  assumes "devices_ok {} s" and "devices s' = devices s" and "next_ref s' = next_ref s"
    and "\<And>b. doomed s b \<Longrightarrow> doomed s' b"
  shows "devices_ok {} s'"
  using assms by (auto simp: devices_ok_def)

lemma chain_end_published:
  assumes inv: "upnp_inv s" and q: "queues s q = Some x" "q_finally x = Prv_device_chain_end"
    and nc: "\<not> q_cancelled x"
  shows "\<exists>s1. prv_device_chain_end False (q_user_data x) s = Some s1 \<and>
     upnp_inv (s1\<lparr>queues := (queues s1)(q := None)\<rparr>)"
proof -
  note r = inv_reg [OF inv] and inv' = inv [unfolded upnp_inv_except_def]
  let ?p = "q_user_data x"
  obtain pr where pr: "privs s ?p = Some pr" and c: "map_of (device_uc_map s) (ct_udn pr) = Some ?p"
    using reg_queue [OF r q(1)] q(2) by (auto simp: queue_ok_def)
  let ?u = "ct_udn pr" and ?a = "ct_device pr"
  obtain d where d: "devices s ?a = Some d" using reg_uc [OF r c] pr by auto
  have U: "map_of (device_udn_map s) ?u = None"
    using reg_udn [OF r, of ?u] c by (cases "map_of (device_udn_map s) ?u") auto
  define s1 where "s1 = s\<lparr>device_udn_map := AList.update ?u ?a (device_udn_map s),
      device_uc_map := AList.delete ?u (device_uc_map s), privs := (privs s)(?p := None),
      calls := calls s @ prv_found_diagnostics_device (dev_path d)\<rparr>"
  define s' where "s' = s1\<lparr>queues := (queues s1)(q := None)\<rparr>"
  have run: "prv_device_chain_end False ?p s = Some s1"
    by (simp add: prv_device_chain_end_def pr d udn_map_insert_def U prv_found_diagnostics_device_def
        env_step_def uc_map_remove_def prv_device_new_free_def s1_def)
  have "reg_of s'"
    using reg_publish [OF r q pr] by (simp add: reg_of_def s'_def s1_def delete_conv' fun_upd_def)
  moreover have "devices_ok {} s'"
    by (rule devices_ok_other [of s])
      (use inv' nc in \<open>auto simp: s'_def s1_def intro!: doomed_other [OF r q(1)]\<close>)
  moreover have "sources_ok s'" using inv' by (simp add: sources_ok_def s'_def s1_def)
  moreover have "paths_ok s'"
    by (rule paths_ok_keep [of s]) (use inv' in \<open>auto simp: s'_def s1_def\<close>)
  moreover have "announced (calls s') = known_paths s'"
  proof -
    have upd: "AList.update k v t = t @ [(k, v)]" if "map_of t k = None" for k :: string and v :: addr and t
      using that by (induction t) auto
    have "known_paths s' = add_mset (dev_path d) (known_paths s)"
      by (simp add: known_paths_def s'_def s1_def upd [OF U] d)
    then show ?thesis
      using inv' by (simp add: s'_def s1_def announced_append prv_found_diagnostics_device_def announce_def)
  qed
  ultimately have "upnp_inv s'"
    using inv' by (simp add: upnp_inv_except_def s'_def s1_def distinct_delete distinct_update)
  with run show ?thesis by (simp add: s'_def)
qed

lemma chain_end_cancelled:
  assumes inv: "upnp_inv s" and q: "queues s q = Some x" "q_finally x = Prv_device_chain_end"
  shows "\<exists>s1. prv_device_chain_end True (q_user_data x) s = Some s1 \<and>
     upnp_inv (s1\<lparr>queues := (queues s1)(q := None)\<rparr>)"
proof -
  note r = inv_reg [OF inv] and inv' = inv [unfolded upnp_inv_except_def]
  let ?p = "q_user_data x"
  obtain pr where pr: "privs s ?p = Some pr" and c: "map_of (device_uc_map s) (ct_udn pr) = Some ?p"
    using reg_queue [OF r q(1)] q(2) by (auto simp: queue_ok_def)
  let ?u = "ct_udn pr" and ?a = "ct_device pr"
  obtain d where d: "devices s ?a = Some d" using reg_uc [OF r c] pr by auto
  define s1 where "s1 = s\<lparr>device_uc_map := AList.delete ?u (device_uc_map s), privs := (privs s)(?p := None),
      devices := (devices s)(?a := None),
      sources := filter (\<lambda>(i, _). i \<notin> set (removed_ids (dld_device_delete d))) (sources s),
      calls := calls s @ dld_device_delete d\<rparr>"
  define s' where "s' = s1\<lparr>queues := (queues s1)(q := None)\<rparr>"
  have run: "prv_device_chain_end True ?p s = Some s1"
    by (simp add: prv_device_chain_end_def pr d uc_map_remove_def prv_device_new_free_def
        free_device_def emit_quiet [OF quiet_device_delete] s1_def)
  have "dom (devices s') = dom (devices s) - {?a}" by (auto simp: s'_def s1_def)
  then have "reg_of s'"
    using reg_abandon [OF r q pr] by (simp add: reg_of_def s'_def s1_def delete_conv' fun_upd_def)
  moreover have "doomed s' b" if "b \<noteq> ?a" "doomed s b" for b
    by (rule doomed_other [OF r q(1) that(2)]) (use that(1) pr in \<open>auto simp: s'_def s1_def\<close>)
  then have "devices_ok {} s'"
    by (intro devices_ok_free [of ?a s])
      (use inv_except_mono [OF inv, of "{?a}"] in \<open>auto simp: upnp_inv_except_def s'_def s1_def\<close>)
  moreover have "sources_ok s'"
    by (rule sources_ok_free [OF _ d]) (use inv' in \<open>simp_all add: s'_def s1_def\<close>)
  moreover have "paths_ok s'"
    by (rule paths_ok_keep [of s]) (use inv' in \<open>auto simp: s'_def s1_def split: if_splits\<close>)
  moreover have "announced (calls s') = known_paths s'"
  proof -
    have "known_paths s' = known_paths s"
    proof (rule known_paths_cong)
      fix b assume "b \<in> snd ` set (device_udn_map s)"
      then obtain v where "map_of (device_udn_map s) v = Some b" using inv' by force
      then have "b \<noteq> ?a" using reg_udn_uc [OF r c pr, of v] by auto
      then show "dev_path (the (devices s' b)) = dev_path (the (devices s b))"
        by (simp add: s'_def s1_def)
    qed (simp add: s'_def s1_def)
    then show ?thesis
      using inv' by (simp add: s'_def s1_def announced_append quiet_announced [OF quiet_device_delete])
  qed
  ultimately have "upnp_inv s'"
    using inv' by (simp add: upnp_inv_except_def s'_def s1_def distinct_delete)
  with run show ?thesis by (simp add: s'_def)
qed

lemma switch_end_inv:
  assumes inv: "upnp_inv s" and q: "queues s q = Some x" "q_finally x = Prv_device_context_switch_end"
  shows "\<exists>s1. prv_device_context_switch_end c (q_user_data x) s = Some s1 \<and>
     upnp_inv (s1\<lparr>queues := (queues s1)(q := None)\<rparr>)"
proof -
  note r = inv_reg [OF inv] and inv' = inv [unfolded upnp_inv_except_def]
  let ?p = "q_user_data x"
  obtain pr where pr: "privs s ?p = Some pr"
    using reg_queue [OF r q(1)] by (auto simp: queue_ok_def)
  define s' where "s' = s\<lparr>privs := (privs s)(?p := None), queues := (queues s)(q := None)\<rparr>"
  have "reg_of s'" using reg_switch_end [OF r q] by (simp add: reg_of_def s'_def)
  moreover have "devices_ok {} s'"
    by (rule devices_ok_other [of s])
      (use inv' q(2) in \<open>auto simp: s'_def intro!: doomed_other [OF r q(1)]\<close>)
  moreover have "sources_ok s'" "paths_ok s'" using inv' by (simp_all add: sources_ok_def paths_ok_def s'_def)
  ultimately have "upnp_inv s'" using inv' by (simp add: upnp_inv_except_def s'_def known_paths_def)
  then show ?thesis
    by (simp add: prv_device_context_switch_end_def pr prv_device_new_free_def s'_def)
qed

lemma queue_end_inv:
  assumes inv: "upnp_inv s" and q: "queues s q = Some x"
  shows "\<exists>s'. upnp_step gl (Ev_queue_end q) s = Some s' \<and> upnp_inv s'"
proof (cases "q_finally x")
  case Prv_device_chain_end
  then show ?thesis
    using chain_end_published [OF inv q] chain_end_cancelled [OF inv q]
    by (cases "q_cancelled x") (auto simp: upnp_step.simps q run_finally_def)
next
  case Prv_device_context_switch_end
  then show ?thesis
    using switch_end_inv [OF inv q, of "q_cancelled x"] by (auto simp: upnp_step.simps q run_finally_def)
qed

subsection \<open>Timers and lost subscriptions\<close>

text \<open>A timer belongs to the device, or to the context, that its callback works on.\<close>

lemma source_owner:
  assumes inv: "upnp_inv s" and i: "map_of (sources s) i = Some cb"
  shows "case cb of
      Subscribe_to_service_changes a \<Rightarrow> \<exists>d. devices s a = Some d \<and> dev_timeout_id d = i
    | Re_enable_bms_subscription a r \<Rightarrow>
        \<exists>d c. devices s a = Some d \<and> c \<in> set (dev_contexts d) \<and> ctx_ref c = r \<and> bms_timeout_id c = i"
proof -
  have "(i, cb) \<in> set (sources s)" using i by (rule map_of_SomeD)
  then obtain a d where a: "devices s a = Some d" "(i, cb) \<in> held a d"
    using inv unfolding upnp_inv_except_def sources_ok_def by blast
  then show ?thesis by (auto simp: held_iff split: timer_cb.splits)
qed

lemma subscribe_timer_inv:
  assumes inv: "upnp_inv s" and i: "map_of (sources s) i = Some (Subscribe_to_service_changes a)"
    and nc: "\<not> no_context a s"
  shows "\<exists>s'. upnp_step gl (Ev_timer i) s = Some s' \<and> upnp_inv s'"
proof -
  obtain d where d: "devices s a = Some d" and t: "dev_timeout_id d = i"
    using source_owner [OF inv i] by auto
  define s0 where "s0 = s\<lparr>sources := filter (\<lambda>(j, _). j \<noteq> i) (sources s)\<rparr>"
  have inv0: "upnp_inv s0" unfolding s0_def by (rule inv_drop_source [OF inv])
  have d0: "devices s0 a = Some d" using d by (simp add: s0_def)
  let ?d = "d\<lparr>dev_timeout_id := 0\<rparr>"
  have ne: "dev_contexts ?d \<noteq> []" using nc d by (simp add: no_context_def)
  obtain d1 eff where sub: "dld_device_subscribe_to_service_changes ?d = Some (d1, eff)"
    using subscribing.op_defined [OF ne] by auto
  have ok: "dev_ok (next_ref s0) a ?d"
    using inv_device [OF inv0 d0] by (simp add: dev_ok_def context_inv_def get_context_preferred)
  note q = quiet_subscribe_to_service_changes(1) [OF sub, of a]
  have "held a d \<inter> set (sources s0) \<subseteq> held a ?d"
    by (auto simp: held_def s0_def t)
  then have "\<exists>s'. on_device (\<lambda>d. dld_device_subscribe_to_service_changes (d\<lparr>dev_timeout_id := 0\<rparr>)) a s0 = Some s' \<and> upnp_inv s'"
    by (intro inv_on_device [OF inv0 d0, of _ d1 eff])
      (use q subscribing.op_dev_ok [OF sub ok] subscribing.op_keeps [OF sub] subscribing.op_nonempty [OF sub] sub
       in \<open>auto simp: op_quiet_def\<close>)
  then show ?thesis
    by (simp add: upnp_step.simps i run_timer_def prv_subscribe_to_service_changes_def on_device_def s0_def [symmetric])
qed

lemma held_upd_context:
  assumes k: "k < length (dev_contexts d)" and m: "(j, cb) \<in> held a d"
  shows "(j, cb) \<in> held a (fst (upd_context k f d)) \<or>
     j = bms_timeout_id (dev_contexts d ! k) \<and> j \<noteq> 0 \<and>
     cb = Re_enable_bms_subscription a (ctx_ref (dev_contexts d ! k))"
proof -
  have d': "dev_contexts (fst (upd_context k f d)) = (dev_contexts d)[k := fst (f (dev_contexts d ! k))]"
    "dev_timeout_id (fst (upd_context k f d)) = dev_timeout_id d"
    by (simp_all add: upd_context_def split: prod.splits)
  have keep: "c \<in> set ((dev_contexts d)[k := x])" if "c \<in> set (dev_contexts d)" "c \<noteq> dev_contexts d ! k" for c x
    using that k by (metis in_set_conv_nth length_list_update nth_list_update_neq)
  show ?thesis
    using m keep unfolding held_iff d' by blast
qed

text \<open>The context an address leads to.\<close>

lemma context_at:
  assumes ok: "dev_ok n a d" and c: "c \<in> set (dev_contexts d)"
  obtains k where "find_index (\<lambda>x. ctx_ref x = ctx_ref c) (dev_contexts d) = Some k"
    and "k < length (dev_contexts d)" and "dev_contexts d ! k = c"
proof (cases "find_index (\<lambda>x. ctx_ref x = ctx_ref c) (dev_contexts d)")
  case None
  then show thesis using c by (auto simp: find_index_None)
next
  case (Some k)
  then have k: "k < length (dev_contexts d)" "ctx_ref (dev_contexts d ! k) = ctx_ref c"
    by (auto dest: find_index_SomeD)
  have "distinct (map ctx_ref (dev_contexts d))" using ok by (simp add: dev_ok_def context_inv_def)
  then have "dev_contexts d ! k = c" using k c by (auto simp: distinct_map inj_on_def)
  with that Some k(1) show thesis by blast
qed

lemma re_enable_timer_inv:
  assumes inv: "upnp_inv s" and i: "map_of (sources s) i = Some (Re_enable_bms_subscription a r)"
  shows "\<exists>s'. upnp_step gl (Ev_timer i) s = Some s' \<and> upnp_inv s'"
proof -
  obtain d c where d: "devices s a = Some d" and c: "c \<in> set (dev_contexts d)" "ctx_ref c = r" "bms_timeout_id c = i"
    using source_owner [OF inv i] by auto
  define s0 where "s0 = s\<lparr>sources := filter (\<lambda>(j, _). j \<noteq> i) (sources s)\<rparr>"
  have inv0: "upnp_inv s0" unfolding s0_def by (rule inv_drop_source [OF inv])
  have d0: "devices s0 a = Some d" using d by (simp add: s0_def)
  note ok = inv_device [OF inv0 d0]
  obtain k where k: "find_index (\<lambda>x. ctx_ref x = r) (dev_contexts d) = Some k"
    and kl: "k < length (dev_contexts d)" "dev_contexts d ! k = c"
    using context_at [OF ok c(1)] c(2) by metis
  let ?f = "\<lambda>c. (prv_re_enable_bms_subscription c, [])"
  let ?d' = "fst (upd_context k ?f d)"
  have at: "at_context k ?f d = Some (?d', [])"
    using kl by (simp add: at_context_def upd_context_def)
  have "held a d \<inter> set (sources s0) - held a ?d' \<subseteq> {}"
    using held_upd_context [OF kl(1), of _ _ a ?f] kl(2) c(3) by (auto simp: s0_def)
  then have "\<exists>s'. on_device (at_context k ?f) a s0 = Some s' \<and> upnp_inv s'"
    by (intro inv_on_device [of s0 a d _ ?d' "[]"])
      (use inv0 d0 at re_enabling.op_dev_ok [OF at ok] re_enabling.op_keeps [OF at] re_enabling.op_nonempty [OF at]
       in auto)
  then show ?thesis
    by (simp add: upnp_step.simps i run_timer_def on_context_def s0_def [symmetric] d0 k)
qed

lemma lost_inv:
  assumes inv: "upnp_inv s" and d: "devices s a = Some d" and c: "c \<in> set (dev_contexts d)"
  shows "\<exists>s'. upnp_step gl (Ev_subscription_lost a (ctx_ref c)) s = Some s' \<and> upnp_inv s'"
proof -
  note ok = inv_device [OF inv d]
  have pos: "0 < next_source s" using inv by (simp add: upnp_inv_except_def sources_ok_def)
  obtain k where k: "find_index (\<lambda>x. ctx_ref x = ctx_ref c) (dev_contexts d) = Some k"
    and kl: "k < length (dev_contexts d)" "dev_contexts d ! k = c"
    using context_at [OF ok c] by metis
  let ?f = "prv_bms_subscription_lost_cb (next_source s)"
  let ?d' = "fst (upd_context k ?f d)" and ?eff = "snd (upd_context k ?f d)"
  have at: "at_context k ?f d = Some (?d', ?eff)"
    using kl by (simp add: at_context_def)
  have cd: "ctx_device c = a" using ok c by (auto simp: dev_ok_def context_inv_def)
  have mem: "fst (?f c) \<in> set (dev_contexts ?d')"
    using kl by (simp add: upd_context_def set_update_memI split: prod.splits)
  note frame = losing.op_dev_ok [OF at ok] losing.op_keeps [OF at] losing.op_nonempty [OF at]
  note keep = held_upd_context [OF kl(1), of _ _ a ?f, unfolded kl(2)]
  have "upnp_inv (emit ?eff (set_device a ?d' s))"
  proof (cases "bms_timeout_id c = 0")
    case True
    then have eff: "?eff = [Set_subscribed (bms_proxy c) True] @
        [Timeout_add (next_source s) 10 (Re_enable_bms_subscription a (ctx_ref c))]"
      by (simp add: upd_context_def kl(2) prv_bms_subscription_lost_cb_def cd)
    have "held a d \<subseteq> held a ?d'" using keep True by auto
    moreover have "(next_source s, Re_enable_bms_subscription a (ctx_ref c)) \<in> held a ?d'"
    proof -
      have "fst (?f c) = c\<lparr>bms_timeout_id := next_source s\<rparr>"
        using True by (simp add: prv_bms_subscription_lost_cb_def)
      then show ?thesis
        unfolding held_iff using pos by (intro conjI disjI2 bexI [OF _ mem]) simp_all
    qed
    ultimately show ?thesis
      unfolding eff by (intro inv_timer_update [OF inv d]) (use frame in \<open>auto simp: quiet_def\<close>)
  next
    case False
    then have eff: "?eff = Source_remove (bms_timeout_id c) # remove_notifies c"
      by (simp add: upd_context_def kl(2) prv_bms_subscription_lost_cb_def)
    show ?thesis
      by (rule inv_device_update [OF inv d]) (use frame keep in \<open>auto simp: eff quiet_def remove_notifies_def\<close>)
  qed
  then show ?thesis
    by (simp add: upnp_step.simps on_context_def d k on_device_def at case_prod_unfold)
qed

subsection \<open>Known devices\<close>

lemma known_device_context:
  assumes inv: "upnp_inv s" and u: "map_of (device_udn_map s) u = Some a"
  shows "\<exists>d. devices s a = Some d \<and> dev_ref d = a \<and> dev_contexts d \<noteq> []"
proof -
  note r = inv_reg [OF inv]
  obtain d where d: "devices s a = Some d" using reg_udn [OF r u] by auto
  have "dev_contexts d \<noteq> []"
  proof
    assume "dev_contexts d = []"
    then have "doomed s a" using inv d by (auto simp: upnp_inv_except_def devices_ok_def)
    then obtain q x pr where x: "queues s q = Some x" "q_finally x = Prv_device_chain_end"
      "privs s (q_user_data x) = Some pr" "ct_device pr = a" by (auto simp: doomed_def)
    then have "map_of (device_uc_map s) (ct_udn pr) = Some (q_user_data x)"
      using reg_queue [OF r x(1)] by (auto simp: queue_ok_def)
    from reg_udn_uc [OF r this x(3), of u] show False using u x(4) by simp
  qed
  with d inv_device [OF inv d] show ?thesis by (simp add: dev_ok_def)
qed

text \<open>The known devices are live, sit at the address they name, and have a context with a service.\<close>

definition usable :: "dld_upnp \<Rightarrow> dld_device \<Rightarrow> bool" where
  "usable s d \<longleftrightarrow> devices s (dev_ref d) = Some d \<and>
     (\<exists>i. dld_device_get_context d = Some i \<and> i < length (dev_contexts d) \<and>
        bms_proxy (dev_contexts d ! i) \<noteq> None)"

lemma known_device_usable:
  assumes inv: "upnp_inv s" and u: "map_of (device_udn_map s) u = Some a"
  shows "\<exists>d. devices s a = Some d \<and> dev_ref d = a \<and> usable s d"
proof -
  obtain d where d: "devices s a = Some d" "dev_ref d = a" "dev_contexts d \<noteq> []"
    using known_device_context [OF inv u] by blast
  then obtain i where i: "dld_device_get_context d = Some i"
    by (cases "dld_device_get_context d") auto
  from i have "i < length (dev_contexts d)" by (rule get_context_less)
  with inv_device [OF inv d(1)] d i show ?thesis by (auto simp: usable_def dev_ok_def)
qed

lemma known_devices_usable:
  assumes inv: "upnp_inv s"
  obtains ds where "known_devices s = Some ds" and "\<forall>d \<in> set ds. usable s d"
    and "set ds = {d. \<exists>u a. map_of (device_udn_map s) u = Some a \<and> devices s a = Some d}"
proof -
  have key: "map_of (device_udn_map s) u = Some a" if "(u, a) \<in> set (device_udn_map s)" for u a
    using inv that by (simp add: upnp_inv_except_def)
  let ?ds = "map (\<lambda>(u, a). the (devices s a)) (device_udn_map s)"
  have "known_devices s = Some ?ds"
    unfolding known_devices_def those_map_Some
    using known_device_usable [OF inv key] by (fastforce simp: list_all2_map2 intro!: list.rel_refl_strong)
  moreover have "\<forall>d \<in> set ?ds. usable s d"
    using known_device_usable [OF inv key] by fastforce
  moreover have "set ?ds = {d. \<exists>u a. map_of (device_udn_map s) u = Some a \<and> devices s a = Some d}"
  proof -
    have "(\<exists>u a. (u, a) \<in> set (device_udn_map s) \<and> d = the (devices s a)) \<longleftrightarrow>
        (\<exists>u a. map_of (device_udn_map s) u = Some a \<and> devices s a = Some d)" for d
      using known_device_usable [OF inv] key by (metis map_of_SomeD option.sel)
    then show ?thesis by (auto simp: image_def split: prod.splits) blast+
  qed
  ultimately show thesis by (rule that)
qed

subsection \<open>Events of a device, and the end of the service\<close>

lemma change_and_signal_inv:
  assumes inv: "upnp_inv s" and d: "devices s a = Some d" and f: "f d = Some (change_and_signal key v d)"
  shows "\<exists>s'. on_device f a s = Some s' \<and> upnp_inv s'"
proof -
  have "list_all quiet (snd (change_and_signal key v d))"
    using quiet_change_and_signal [of a d key v] by (simp add: op_quiet_def)
  then have "upnp_inv (emit (snd (change_and_signal key v d)) (set_device a (fst (change_and_signal key v d)) s))"
    by (intro inv_other_fields [OF inv d])
      (simp_all add: change_and_signal_def prv_change_props_def)
  then show ?thesis by (simp add: on_device_def d f case_prod_unfold)
qed

lemma test_ids_inv:
  assumes inv: "upnp_inv s" and d: "devices s a = Some d" and str: "readable_ids gl str"
  shows "\<exists>s'. on_device (prv_bm_test_ids_prop_change gl key str) a s = Some s' \<and> upnp_inv s'"
proof -
  obtain ids where "those (map atou (comma_pieces gl str)) = Some ids"
    using str by (auto simp: readable_ids_def)
  then show ?thesis
    by (intro change_and_signal_inv [OF inv d]) (simp add: prv_bm_test_ids_prop_change_def)
qed

lemma unsubscribe_devices_inv:
  "upnp_inv s \<Longrightarrow> set as \<subseteq> dom (devices s) \<Longrightarrow> \<exists>s'. unsubscribe_devices as s = Some s' \<and> upnp_inv s'"
proof (induction as arbitrary: s)
  case (Cons a as)
  then obtain d where d: "devices s a = Some d" by auto
  obtain d1 eff where u: "dld_device_unsubscribe d = (d1, eff)" by (metis surj_pair)
  have q: "op_quiet a d d1 eff" using quiet_unsubscribe [of a d] u by simp
  have "upnp_inv (emit eff (set_device a d1 s))"
    by (rule unsubscribing.op_upnp_inv [OF _ Cons.prems(1) d q]) (simp add: u)
  moreover have "set as \<subseteq> dom (devices (emit eff (set_device a d1 s)))"
    using Cons.prems(2) q by (auto simp: emit_quiet op_quiet_def set_device_def)
  ultimately show ?case using Cons.IH by (simp add: d u)
qed simp

lemma unsubscribe_inv:
  assumes inv: "upnp_inv s"
  shows "\<exists>s'. dld_upnp_unsubscribe s = Some s' \<and> upnp_inv s'"
  unfolding dld_upnp_unsubscribe_def
proof (rule unsubscribe_devices_inv [OF inv])
  show "set (map snd (device_udn_map s)) \<subseteq> dom (devices s)"
  proof
    fix a assume "a \<in> set (map snd (device_udn_map s))"
    then obtain u where "map_of (device_udn_map s) u = Some a"
      using inv by (force simp: upnp_inv_except_def)
    then show "a \<in> dom (devices s)" using reg_udn [OF inv_reg [OF inv]] by blast
  qed
qed

lemma rescan_inv: "upnp_inv s \<Longrightarrow> upnp_inv (dld_upnp_rescan s)"
  by (simp add: dld_upnp_rescan_def env_step_def upnp_inv_except_def reg_of_def devices_ok_def doomed_def
      sources_ok_def paths_ok_def known_paths_def announced_append announce_def)

lemma context_available_inv: "upnp_inv s \<Longrightarrow> upnp_inv (prv_on_context_available ip s)"
  by (simp add: prv_on_context_available_def env_step_def upnp_inv_except_def reg_of_def devices_ok_def doomed_def
      sources_ok_def paths_ok_def known_paths_def announced_append announce_def)

subsection \<open>The icon of a device\<close>

lemma get_icon_frame:
  assumes "dld_device_get_icon gl msg_new d t = Some (d', t', eff)"
  shows "dev_contexts d' = dev_contexts d" "dev_ref d' = dev_ref d" "dev_path d' = dev_path d"
    "dev_timeout_id d' = dev_timeout_id d" "length (dev_ids d') = length (dev_ids d)"
  using assms by (auto simp: dld_device_get_icon_def Let_def split: if_splits option.splits prod.splits)

lemma icon_session_frame:
  assumes "prv_get_icon_session_cb gl status d t = Some (d', t', eff)"
  shows "dev_contexts d' = dev_contexts d" "dev_ref d' = dev_ref d" "dev_path d' = dev_path d"
    "dev_timeout_id d' = dev_timeout_id d" "length (dev_ids d') = length (dev_ids d)"
  using assms by (auto simp: prv_get_icon_session_cb_def Let_def split: soup_status.splits)

lemma get_icon_defined:
  assumes "usable s d" and "task_async t \<noteq> None" and "icon_size d \<noteq> 0 \<longrightarrow> icon_typed gl d"
  shows "\<exists>d' t' eff. dld_device_get_icon gl msg_new d t = Some (d', t', eff)"
  using assms
  by (auto simp: usable_def icon_typed_def dld_device_get_icon_def prv_build_icon_result_def Let_def
      split: option.splits prod.splits)

text \<open>The lookup of a path finds a known device, or none has the path.\<close>

lemma checked_device:
  assumes inv: "upnp_inv s" and path: "task_path t = Some path" and a: "task_async t = Some cb"
  obtains d u where "prv_get_and_check_device s t = Some (Some d, t, [])" and "usable s d" and "dev_path d = path"
    and "map_of (device_udn_map s) u = Some (dev_ref d)"
  | "prv_get_and_check_device s t = Some (None,
        set_error DLEYNA_ERROR_OBJECT_NOT_FOUND ''Cannot locate a device for the specified object''
          (t\<lparr>task_async := Some (cb\<lparr>async_cb := True\<rparr>)\<rparr>), [Idle_add])"
    and "\<forall>u a d. map_of (device_udn_map s) u = Some a \<longrightarrow> devices s a = Some d \<longrightarrow> dev_path d \<noteq> path"
proof -
  obtain ds where ds: "known_devices s = Some ds" "\<forall>d \<in> set ds. usable s d"
    "set ds = {d. \<exists>u a. map_of (device_udn_map s) u = Some a \<and> devices s a = Some d}"
    by (rule known_devices_usable [OF inv])
  show thesis
  proof (cases "dld_device_from_path path ds")
    case None
    then have "path \<notin> dev_path ` set ds" by (simp add: device_from_path_None)
    then show thesis
      using None a ds(3) by (intro that(2)) (auto simp: prv_get_and_check_device_def path a ds(1))
  next
    case (Some d)
    then have d: "d \<in> set ds" "dev_path d = path" using device_from_path_Some by blast+
    then obtain u b where u: "map_of (device_udn_map s) u = Some b" "devices s b = Some d" using ds(3) by auto
    have "dev_ref d = b" using inv_device [OF inv u(2)] by (simp add: dev_ok_def)
    with u d ds(2) Some show thesis
      by (intro that(1) [of d u]) (auto simp: prv_get_and_check_device_def path a ds(1))
  qed
qed

lemma checked_wanted:
  assumes "task_path t = Some path" and "prv_get_and_check_device s t = Some (Some d, t', eff)"
  shows "wanted_device t s = Some d"
  using assms by (auto simp: prv_get_and_check_device_def wanted_device_def split: option.splits bind_splits)

lemma get_icon_inv:
  assumes inv: "upnp_inv s" and e: "ev_possible gl (Ev_get_icon msg_new t) s"
    and ok: "\<not> ev_undefined gl (Ev_get_icon msg_new t) s"
  shows "\<exists>s'. upnp_step gl (Ev_get_icon msg_new t) s = Some s' \<and> upnp_inv s'"
proof -
  obtain path cb where path: "task_path t = Some path" and a: "task_async t = Some cb"
    using e by (auto simp: ev_possible.simps)
  from inv path a show ?thesis
  proof (cases rule: checked_device)
    case (1 d u)
    have d: "devices s (dev_ref d) = Some d" using 1(2) by (simp add: usable_def)
    have "icon_size d \<noteq> 0 \<longrightarrow> icon_typed gl d"
      using ok checked_wanted [OF path 1(1)] by (auto simp: ev_undefined.simps)
    with get_icon_defined [OF 1(2)] a obtain d' t' eff where
      g: "dld_device_get_icon gl msg_new d t = Some (d', t', eff)" by blast
    have "upnp_inv (emit [] (set_device (dev_ref d) d' s))"
      by (rule inv_other_fields [OF inv d]) (use get_icon_frame [OF g] in simp_all)
    then show ?thesis
      by (simp add: upnp_step.simps dld_upnp_get_icon_def on_checked_device_def 1(1) g)
  next
    case 2
    then show ?thesis
      using inv by (simp add: upnp_step.simps dld_upnp_get_icon_def on_checked_device_def)
  qed
qed

lemma icon_session_inv:
  assumes inv: "upnp_inv s" and e: "ev_possible gl (Ev_icon_session status a t) s"
    and ok: "\<not> ev_undefined gl (Ev_icon_session status a t) s"
  shows "\<exists>s'. upnp_step gl (Ev_icon_session status a t) s = Some s' \<and> upnp_inv s'"
proof -
  obtain d where d: "devices s a = Some d" and typed: "\<And>b. status = Soup_successful b \<Longrightarrow> icon_typed gl d"
    using e ok by (cases status) (auto simp: ev_possible.simps ev_undefined.simps no_mime_type_def split: option.splits)
  obtain d' t' eff where cb: "prv_get_icon_session_cb gl status d t = Some (d', t', eff)"
    using typed
    by (cases status) (auto simp: prv_get_icon_session_cb_def prv_build_icon_result_def icon_typed_def Let_def)
  have "upnp_inv (emit [] (set_device a d' s))"
    by (rule inv_other_fields [OF inv d]) (use icon_session_frame [OF cb] in simp_all)
  then show ?thesis by (simp add: upnp_step.simps on_device_def d cb)
qed

subsection \<open>Reachable states\<close>

lemma subscribed_device_live: "subscribed_device s a \<Longrightarrow> \<exists>d. devices s a = Some d"
  by (auto simp: subscribed_device_def split: option.splits)

lemma step_inv:
  assumes inv: "upnp_inv s" and e: "ev_possible gl e s" and ok: "\<not> ev_undefined gl e s"
  shows "\<exists>s'. upnp_step gl e s = Some s' \<and> upnp_inv s'"
proof (cases e)
  case (Ev_available info ip)
  then show ?thesis using available_inv [OF inv] by (simp add: upnp_step.simps)
next
  case (Ev_unavailable info ip)
  then show ?thesis using unavailable_inv [OF inv] by (simp add: upnp_step.simps)
next
  case (Ev_run_task q pub)
  then show ?thesis
    using e run_task_inv [OF inv] by (auto simp: ev_possible.simps neq_Nil_conv split: option.splits)
next
  case (Ev_queue_end q)
  then show ?thesis using e queue_end_inv [OF inv] by (auto simp: ev_possible.simps split: option.splits)
next
  case (Ev_timer tid)
  then obtain cb where cb: "map_of (sources s) tid = Some cb"
    and nc: "case cb of Subscribe_to_service_changes a \<Rightarrow> \<not> no_context a s
      | Re_enable_bms_subscription a r \<Rightarrow> True"
    using e ok by (auto simp: ev_possible.simps ev_undefined.simps split: option.splits timer_cb.splits)
  show ?thesis
    using cb nc subscribe_timer_inv [OF inv] re_enable_timer_inv [OF inv]
    by (cases cb) (simp_all add: Ev_timer)
next
  case (Ev_subscription_lost a r)
  then show ?thesis
    using e lost_inv [OF inv] by (auto simp: ev_possible.simps subscribed_context_def split: option.splits)
next
  case (Ev_device_status a str)
  then obtain d where d: "devices s a = Some d"
    using e by (auto simp: ev_possible.simps dest: subscribed_device_live)
  show ?thesis
    using change_and_signal_inv [OF inv d, of "\<lambda>d. Some (prv_bm_device_status_cb gl str d)"]
    by (simp add: Ev_device_status upnp_step.simps prv_bm_device_status_cb_def)
next
  case (Ev_test_ids a str)
  then obtain d where d: "devices s a = Some d" and "readable_ids gl str"
    using e ok by (auto simp: ev_possible.simps ev_undefined.simps dest: subscribed_device_live)
  then show ?thesis
    using test_ids_inv [OF inv d]
    by (simp add: Ev_test_ids upnp_step.simps prv_bm_test_ids_cb_def [abs_def])
next
  case (Ev_active_test_ids a str)
  then obtain d where d: "devices s a = Some d" and "readable_ids gl str"
    using e ok by (auto simp: ev_possible.simps ev_undefined.simps dest: subscribed_device_live)
  then show ?thesis
    using test_ids_inv [OF inv d]
    by (simp add: Ev_active_test_ids upnp_step.simps prv_bm_active_test_ids_cb_def [abs_def])
next
  case (Ev_get_icon msg_new t)
  then show ?thesis using e ok get_icon_inv [OF inv] by simp
next
  case (Ev_icon_session status a t)
  then show ?thesis using e ok icon_session_inv [OF inv] by simp
next
  case (Ev_context_available ip)
  then show ?thesis using context_available_inv [OF inv] by (simp add: upnp_step.simps)
next
  case Ev_rescan
  then show ?thesis using rescan_inv [OF inv] by (simp add: upnp_step.simps)
next
  case Ev_unsubscribe
  then show ?thesis using unsubscribe_inv [OF inv] by (simp add: upnp_step.simps)
qed

text \<open>The cases of \<open>ev_undefined\<close> really have no defined behaviour.\<close>

lemma undefined_step:
  assumes "upnp_inv s" and "ev_possible gl e s" and "ev_undefined gl e s"
  shows "upnp_step gl e s = None"
proof (cases e)
  case (Ev_timer tid)
  with assms(3) obtain a d where "map_of (sources s) tid = Some (Subscribe_to_service_changes a)"
    and "devices s a = Some d" "dev_contexts d = []"
    by (auto simp: ev_undefined.simps no_context_def split: option.splits timer_cb.splits)
  then show ?thesis
    by (simp add: Ev_timer upnp_step.simps run_timer_def prv_subscribe_to_service_changes_def
        dld_device_subscribe_to_service_changes_def get_context_preferred preferred_def on_device_def)
next
  case (Ev_get_icon msg_new t)
  then obtain path cb where t: "task_path t = Some path" "task_async t = Some cb"
    using assms(2) by (auto simp: ev_possible.simps)
  obtain d where d: "wanted_device t s = Some d" "icon_size d \<noteq> 0" "\<not> icon_typed gl d"
    using assms(3) Ev_get_icon by (auto simp: ev_undefined.simps split: option.splits)
  then have "prv_get_and_check_device s t = Some (Some d, t, [])"
    using t by (auto simp: wanted_device_def prv_get_and_check_device_def split: option.splits)
  then show ?thesis
    using d by (simp add: Ev_get_icon upnp_step.simps dld_upnp_get_icon_def on_checked_device_def
        dld_device_get_icon_def prv_build_icon_result_def icon_typed_def)
next
  case (Ev_icon_session status a t)
  then show ?thesis
    using assms(3)
    by (cases status) (auto simp: ev_undefined.simps no_mime_type_def upnp_step.simps on_device_def
        prv_get_icon_session_cb_def prv_build_icon_result_def icon_typed_def Let_def split: option.splits)
qed (use assms(3) in \<open>auto simp: ev_undefined.simps upnp_step.simps on_device_def readable_ids_def
    prv_bm_test_ids_cb_def prv_bm_active_test_ids_cb_def prv_bm_test_ids_prop_change_def split: option.splits\<close>)

lemma step_defined_iff:
  "upnp_inv s \<Longrightarrow> ev_possible gl e s \<Longrightarrow> upnp_step gl e s = None \<longleftrightarrow> ev_undefined gl e s"
  using step_inv undefined_step by fastforce

text \<open>
  A device without a context is one whose construction was cancelled and whose queue waits for its
  end: the timer finds such a device only then.
\<close>

lemma no_context_cancelled:
  assumes "upnp_inv s" and "no_context a s"
  shows "\<exists>q x pr. queues s q = Some x \<and> q_cancelled x \<and> privs s (q_user_data x) = Some pr \<and> ct_device pr = a"
proof -
  have "doomed s a"
    using assms by (auto simp: no_context_def upnp_inv_except_def devices_ok_def split: option.splits)
  then show ?thesis by (auto simp: doomed_def)
qed

lemma reach_inv: "upnp_reach gl s \<Longrightarrow> upnp_inv s"
proof (induction rule: upnp_reach.induct)
  case (reach_step s e s')
  then show ?case using step_inv [of s gl e] step_defined_iff [of s gl e] by fastforce
qed (rule upnp_inv_new)

end
