(* ===== verification/Upnp_Props.thy ===== *)
theory Upnp_Props
  imports Upnp_Run
begin

section \<open>Properties of the registry of devices\<close>

text \<open>
  What the reachable states and the handlers of \<open>upnp.c\<close> promise: no undefined behaviour, consistent
  tables without leaks, signals that agree with the list of devices, the devices and contexts that
  are known after one appeared or disappeared, and the course of a construction.
\<close>

subsection \<open>Sample runs\<close>

fun run_events :: "glib \<Rightarrow> upnp_event list \<Rightarrow> dld_upnp \<Rightarrow> dld_upnp option" where
  "run_events gl [] s = Some s"
| "run_events gl (e # es) s =
     (if ev_possible gl e s then do { s1 \<leftarrow> upnp_step gl e s; run_events gl es s1 } else None)"

lemma run_events_reach: "run_events gl es s = Some s' \<Longrightarrow> upnp_reach gl s \<Longrightarrow> upnp_reach gl s'"
  by (induction es arbitrary: s) (auto split: if_splits bind_splits intro: reach_step)

text \<open>A device without sub-devices and one whose only service is in a sub-device.\<close>

definition sample_root :: device_info where
  "sample_root = DeviceInfo (sample_descr\<lparr>de_udn := Some ''uuid:root''\<rparr>) None
     [DeviceInfo (sample_descr\<lparr>de_udn := Some ''uuid:1''\<rparr>) (Some 7) []]"

definition published :: "nat \<Rightarrow> guint" where
  "published i = of_nat (Suc i)"

definition sample_run :: "upnp_event list" where
  "sample_run =
     [Ev_available sample_root (Some ''192.168.1.2''), Ev_run_task 2 published,
      Ev_run_task 2 published, Ev_queue_end 2]"

definition sample_state :: dld_upnp where
  "sample_state = the (run_events glib_ref sample_run dld_upnp_new)"

lemma sample_state_run: "run_events glib_ref sample_run dld_upnp_new = Some sample_state"
proof -
  have "run_events glib_ref sample_run dld_upnp_new \<noteq> None" by code_simp
  then show ?thesis by (simp add: sample_state_def)
qed

lemma sample_state_reach: "upnp_reach glib_ref sample_state"
  by (rule run_events_reach [OF sample_state_run reach_new])

subsection \<open>Safety\<close>

text \<open>C6: Whatever happens to the registry, in any order and any number of times, is handled without
  reading a freed device, context or construction record and without any other undefined behaviour,
  and leads to a state the registry can be in; with exactly three exceptions, each of which is
  undefined: the timer that subscribes again fires for a device that has no context, a device sends a
  list of test identifiers of which \<open>atoi\<close> cannot represent one, and the icon to be sent has no MIME
  type. A device is only without a context while its construction has been cancelled and the queue of
  the construction waits for its end.\<close>

theorem registry_safe:
  assumes "upnp_reach gl s" and "ev_possible gl e s"
  shows "(if ev_undefined gl e s then upnp_step gl e s = None
          else \<exists>s'. upnp_step gl e s = Some s' \<and> upnp_reach gl s') \<and>
     (\<forall>a. no_context a s \<longrightarrow>
        (\<exists>q x pr. queues s q = Some x \<and> q_cancelled x \<and> privs s (q_user_data x) = Some pr \<and> ct_device pr = a))"
  using step_defined_iff [OF reach_inv [OF assms(1)] assms(2)] reach_step [OF assms]
    no_context_cancelled [OF reach_inv [OF assms(1)]] by auto

theorem registry_safe_witness:
  "\<exists>s'. upnp_step glib_ref (Ev_unavailable sample_root (Some ''192.168.1.2'')) sample_state = Some s' \<and>
     upnp_reach glib_ref s'"
  using registry_safe [OF sample_state_reach, of "Ev_unavailable sample_root (Some ''192.168.1.2'')"]
  by (simp add: ev_possible.simps ev_undefined.simps)

text \<open>
  The exception of the timer does happen: a device under construction on two interfaces loses the one
  that it is subscribed through, which starts the timer, and then the other one, which cancels the
  construction but leaves the timer running. If the timer fires before the task processor ends the
  queue, element 0 of an empty array is read.
\<close>

definition timer_run :: "upnp_event list" where
  "timer_run =
     [Ev_available sample_root (Some ''192.168.1.2''), Ev_run_task 2 published,
      Ev_available sample_root (Some ''127.0.0.1''),
      Ev_unavailable sample_root (Some ''127.0.0.1''), Ev_unavailable sample_root (Some ''192.168.1.2'')]"

lemma timer_without_context:
  "\<exists>s. upnp_reach glib_ref s \<and> ev_possible glib_ref (Ev_timer 1) s \<and> upnp_step glib_ref (Ev_timer 1) s = None"
proof -
  have "case run_events glib_ref timer_run dld_upnp_new of
      None \<Rightarrow> False
    | Some s \<Rightarrow> ev_possible glib_ref (Ev_timer 1) s \<and> Option.is_none (upnp_step glib_ref (Ev_timer 1) s)"
    by code_simp
  then obtain s where "run_events glib_ref timer_run dld_upnp_new = Some s"
    and "ev_possible glib_ref (Ev_timer 1) s" "upnp_step glib_ref (Ev_timer 1) s = None"
    by (auto simp: Option.is_none_def split: option.splits)
  with run_events_reach [OF _ reach_new] show ?thesis by blast
qed

text \<open>Every live device is registered once: under its UDN, or under construction.\<close>

lemma device_registered_once:
  assumes inv: "upnp_inv s" and d: "devices s a = Some d"
  shows "(\<exists>!u. map_of (device_udn_map s) u = Some a) \<noteq>
     (\<exists>!u. \<exists>p pr. map_of (device_uc_map s) u = Some p \<and> privs s p = Some pr \<and> ct_device pr = a)"
proof -
  note r = inv_reg [OF inv]
  have "a \<in> dom (devices s)" using d by auto
  from r this show ?thesis
  proof (cases rule: reg_device)
    case (1 u)
    then have "\<exists>!u. map_of (device_udn_map s) u = Some a"
      using reg_udn_inj [OF r] by blast
    moreover have "\<not> (\<exists>u p pr. map_of (device_uc_map s) u = Some p \<and> privs s p = Some pr \<and> ct_device pr = a)"
      using 1 reg_udn_uc [OF r] by blast
    ultimately show ?thesis by blast
  next
    case (2 u p pr)
    then have "\<exists>!u. \<exists>p pr. map_of (device_uc_map s) u = Some p \<and> privs s p = Some pr \<and> ct_device pr = a"
      using reg_uc_inj [OF r] by blast
    moreover have "\<not> (\<exists>u. map_of (device_udn_map s) u = Some a)"
      using 2 reg_udn_uc [OF r] by blast
    ultimately show ?thesis by blast
  qed
qed

text \<open>C12: The tables are consistent and nothing leaks. A UDN is in one table only; a known device
  exists and has a context; every device in memory is registered exactly once, either known under
  one UDN or under construction under one UDN; every construction record belongs to exactly one
  queue, and every queue has its record; every timer that runs belongs to a device or a context
  that exists and that remembers the timer; a device has at most one subscribed context, the one it
  is talked to through.\<close>

theorem registry_consistent:
  assumes "upnp_reach gl s"
  shows "(\<forall>u a. map_of (device_udn_map s) u = Some a \<longrightarrow>
            map_of (device_uc_map s) u = None \<and> (\<exists>d. devices s a = Some d \<and> dev_contexts d \<noteq> [])) \<and>
     (\<forall>a d. devices s a = Some d \<longrightarrow>
        (\<exists>!u. map_of (device_udn_map s) u = Some a) \<noteq>
        (\<exists>!u. \<exists>p pr. map_of (device_uc_map s) u = Some p \<and> privs s p = Some pr \<and> ct_device pr = a)) \<and>
     (\<forall>p pr. privs s p = Some pr \<longrightarrow> (\<exists>!q. \<exists>x. queues s q = Some x \<and> q_user_data x = p)) \<and>
     (\<forall>q x. queues s q = Some x \<longrightarrow> privs s (q_user_data x) \<noteq> None) \<and>
     (\<forall>i cb. map_of (sources s) i = Some cb \<longrightarrow>
        (case cb of
           Subscribe_to_service_changes a \<Rightarrow> \<exists>d. devices s a = Some d \<and> dev_timeout_id d = i
         | Re_enable_bms_subscription a r \<Rightarrow> \<exists>d c. devices s a = Some d \<and>
             c \<in> set (dev_contexts d) \<and> ctx_ref c = r \<and> bms_timeout_id c = i)) \<and>
     (\<forall>a d i. devices s a = Some d \<longrightarrow> i < length (dev_contexts d) \<longrightarrow>
        bms_subscribed (dev_contexts d ! i) \<longrightarrow> dld_device_get_context d = Some i)"
proof -
  note inv = reach_inv [OF assms]
  note r = inv_reg [OF inv]
  have "\<exists>!q. \<exists>x. queues s q = Some x \<and> q_user_data x = p" if "privs s p = Some pr" for p pr
    using reg_priv [OF r that] reg_priv_queue_unique [OF r that] by blast
  moreover have "privs s (q_user_data x) \<noteq> None" if "queues s q = Some x" for q x
    using reg_queue [OF r that] by (auto simp: queue_ok_def)
  moreover have "dld_device_get_context d = Some i"
    if "devices s a = Some d" "i < length (dev_contexts d)" "bms_subscribed (dev_contexts d ! i)" for a d i
    using inv_device [OF inv that(1)] that(2,3) by (simp add: dev_ok_def context_inv_def)
  ultimately show ?thesis
    using reg_udn [OF r] known_device_context [OF inv] device_registered_once [OF inv] source_owner [OF inv]
    by blast
qed

theorem registry_consistent_witness:
  "map_of (device_uc_map sample_state) ''uuid:1'' = None"
proof -
  have "map_of (device_udn_map sample_state) ''uuid:1'' = Some 3" by code_simp
  with registry_consistent [OF sample_state_reach] show ?thesis by blast
qed

subsection \<open>What the clients are told\<close>

lemma device_ids_announced:
  assumes "upnp_reach gl s"
  shows "\<exists>paths. dld_upnp_get_device_ids s = Some (GArray ''o'' (map GObjPath paths)) \<and>
     mset paths = announced (calls s) \<and> (next_ref s < 2 ^ 32 \<longrightarrow> distinct paths)"
proof -
  note inv = reach_inv [OF assms] and r = inv_reg [OF reach_inv [OF assms]]
  note inv' = inv [unfolded upnp_inv_except_def]
  let ?as = "map snd (device_udn_map s)"
  let ?paths = "map (\<lambda>a. dev_path (the (devices s a))) ?as"
  have key: "map_of (device_udn_map s) u = Some a" if "(u, a) \<in> set (device_udn_map s)" for u a
    using inv' that by simp
  have live: "\<exists>d. devices s a = Some d" if "(u, a) \<in> set (device_udn_map s)" for u a
    using known_device_context [OF inv key [OF that]] by blast
  have "known_devices s = Some (map (\<lambda>a. the (devices s a)) ?as)"
    unfolding known_devices_def those_map_Some
    using live by (fastforce simp: list_all2_map2 comp_def intro!: list.rel_refl_strong)
  then have ids: "dld_upnp_get_device_ids s = Some (GArray ''o'' (map GObjPath ?paths))"
    by (simp add: dld_upnp_get_device_ids_def comp_def)
  have m: "mset ?paths = announced (calls s)" using inv' by (simp add: known_paths_def multiset.map_comp)
  have "distinct ?paths" if lt: "next_ref s < 2 ^ 32"
  proof -
    have inj: "inj_on (\<lambda>a. dev_path (the (devices s a))) (set ?as)"
    proof (rule inj_onI)
      fix a b assume ab: "a \<in> set ?as" "b \<in> set ?as"
        and eq: "dev_path (the (devices s a)) = dev_path (the (devices s b))"
      from ab live obtain d e where de: "devices s a = Some d" "devices s b = Some e" by auto blast
      with eq inv' lt show "a = b" unfolding paths_ok_def by auto
    qed
    have "inj_on snd (set (device_udn_map s))"
      using key reg_udn_inj [OF r] by (fastforce intro: inj_onI)
    moreover have "distinct (device_udn_map s)" using inv' by (simp add: distinct_map)
    ultimately have "distinct ?as" by (simp add: distinct_map)
    with inj show ?thesis by (simp add: distinct_map comp_inj_on)
  qed
  with ids m show ?thesis by blast
qed

text \<open>C13: The list that GetDevices returns is the list of the paths that the clients know from the
  signals: the paths for which FoundDevice was sent and LostDevice was not, each as often as
  that; and as long as fewer than 2^32 structures were allocated no path is in it twice.\<close>

theorem clients_know_devices:
  assumes "upnp_reach gl s"
  shows "\<exists>paths. dld_upnp_get_device_ids s = Some (GArray ''o'' (map GObjPath paths)) \<and>
     mset paths = announced (calls s) \<and> (next_ref s < 2 ^ 32 \<longrightarrow> distinct paths)"
  using assms by (rule device_ids_announced)

theorem clients_know_devices_witness:
  "\<exists>paths. dld_upnp_get_device_ids sample_state = Some (GArray ''o'' (map GObjPath paths)) \<and>
     mset paths = announced (calls sample_state) \<and> distinct paths"
proof -
  have "next_ref sample_state = 5" by code_simp
  with clients_know_devices [OF sample_state_reach] show ?thesis by auto
qed

end
