(* ===== verification/Upnp_Spec.thy ===== *)
theory Upnp_Spec
  imports Upnp_Props
begin

section \<open>The registry refines a set of devices and addresses\<close>

text \<open>
  The abstract state of the registry is the set of pairs of a UDN and an address of the network
  interface through which that device can be reached. A device that appears adds pairs, a device
  that disappears removes pairs, and nothing else changes the set, with one exception: contexts
  that were added to a device after its construction had been cancelled are lost with it.
\<close>

subsection \<open>The abstraction\<close>

definition addr_of :: "dld_upnp \<Rightarrow> string \<Rightarrow> addr option" where
  "addr_of s u =
     (case lookup_device u s of
        Some (Some (a, x)) \<Rightarrow> Some a
      | _ \<Rightarrow> None)"

definition ips :: "dld_upnp \<Rightarrow> addr \<Rightarrow> string set" where
  "ips s a = (case devices s a of None \<Rightarrow> {} | Some d \<Rightarrow> ctx_ip_address ` set (dev_contexts d))"

definition presence :: "dld_upnp \<Rightarrow> (string \<times> string) set" where
  "presence s = {(u, ip). \<exists>a. addr_of s u = Some a \<and> ip \<in> ips s a}"

text \<open>The UDNs that a device that appears or disappears stands for.\<close>

definition bm_udns :: "device_info \<Rightarrow> string set" where
  "bm_udns info = {u. \<exists>child \<in> set (bm_sub_devices info). di_udn child = Some u}"

definition appearing :: "device_info \<Rightarrow> string set" where
  "appearing info =
     bm_udns info \<union> (if di_bms info \<noteq> None then {u. di_udn info = Some u} else {})"

definition disappearing :: "device_info \<Rightarrow> string set" where
  "disappearing info = bm_udns info \<union> {u. di_udn info = Some u}"

definition presence_step :: "upnp_event \<Rightarrow> (string \<times> string) set \<Rightarrow> (string \<times> string) set" where
  "presence_step e P =
     (case e of
        Ev_available info (Some ip) \<Rightarrow>
          (if di_udn info = None then P else P \<union> appearing info \<times> {ip})
      | Ev_unavailable info (Some ip) \<Rightarrow>
          (if di_udn info = None then P else P - disappearing info \<times> {ip})
      | _ \<Rightarrow> P)"

lemma addr_of_eq:
  "addr_of s u =
     (case map_of (device_udn_map s) u of
        Some a \<Rightarrow> Some a
      | None \<Rightarrow> (case map_of (device_uc_map s) u of
                   None \<Rightarrow> None
                 | Some p \<Rightarrow> map_option ct_device (privs s p)))"
  by (auto simp: addr_of_def lookup_device_def split: option.splits)

lemma addr_of_lookup: "lookup_device u s = Some (Some (a, x)) \<Longrightarrow> addr_of s u = Some a"
  by (simp add: addr_of_def)

lemma addr_inj:
  assumes inv: "upnp_inv_except X s" and "addr_of s u = Some a" and "addr_of s v = Some a"
  shows "u = v"
  using assms(2,3) reg_udn_inj [OF inv_reg [OF inv], of u a v] reg_uc_inj [OF inv_reg [OF inv]]
    reg_udn_uc [OF inv_reg [OF inv]]
  by (auto simp: addr_of_eq split: option.splits)

lemma addr_live:
  assumes inv: "upnp_inv_except X s" and "addr_of s u = Some a"
  shows "\<exists>d. devices s a = Some d"
  using assms(2) reg_udn [OF inv_reg [OF inv]] reg_uc [OF inv_reg [OF inv]]
  by (fastforce simp: addr_of_eq split: option.splits)

lemma presence_same:
  assumes "\<And>u. addr_of s' u = addr_of s u" and "\<And>u a. addr_of s u = Some a \<Longrightarrow> ips s' a = ips s a"
  shows "presence s' = presence s"
  using assms by (auto simp: presence_def)

text \<open>The set changes at one UDN only.\<close>

lemma presence_change:
  assumes other: "\<And>v. v \<noteq> u \<Longrightarrow> addr_of s' v = addr_of s v"
    and same: "\<And>v a. v \<noteq> u \<Longrightarrow> addr_of s v = Some a \<Longrightarrow> ips s' a = ips s a"
  shows "presence s' = {(v, ip) \<in> presence s. v \<noteq> u} \<union>
           {u} \<times> (case addr_of s' u of None \<Rightarrow> {} | Some a \<Rightarrow> ips s' a)"
proof -
  have other_u: "(v, ip) \<in> presence s' \<longleftrightarrow> (v, ip) \<in> presence s" if "v \<noteq> u" for v ip
    using other [OF that] same [OF that] by (auto simp: presence_def)
  have at_u: "(u, ip) \<in> presence s' \<longleftrightarrow>
      ip \<in> (case addr_of s' u of None \<Rightarrow> {} | Some a \<Rightarrow> ips s' a)" for ip
    by (simp add: presence_def split: option.splits)
  show ?thesis
  proof (intro set_eqI)
    fix x :: "string \<times> string"
    obtain v ip where x: "x = (v, ip)" by (cases x)
    show "x \<in> presence s' \<longleftrightarrow> x \<in> {(v, ip) \<in> presence s. v \<noteq> u} \<union>
        {u} \<times> (case addr_of s' u of None \<Rightarrow> {} | Some a \<Rightarrow> ips s' a)"
      using other_u [of v ip] at_u [of ip] by (cases "v = u") (simp_all add: x)
  qed
qed

text \<open>An operation on one device, by its contexts' addresses.\<close>

lemma env_step_fields:
  "device_udn_map (env_step e s) = device_udn_map s" "device_uc_map (env_step e s) = device_uc_map s"
  "privs (env_step e s) = privs s" "devices (env_step e s) = devices s" "next_ref (env_step e s) = next_ref s"
  by (cases e; simp add: env_step_def upd_queue_def)+

lemma emit_fields [simp]:
  "device_udn_map (emit eff s) = device_udn_map s" "device_uc_map (emit eff s) = device_uc_map s"
  "privs (emit eff s) = privs s" "devices (emit eff s) = devices s" "next_ref (emit eff s) = next_ref s"
  by (induction eff arbitrary: s) (simp_all add: env_step_fields)

lemma addr_of_cong:
  "device_udn_map s' = device_udn_map s \<Longrightarrow> device_uc_map s' = device_uc_map s \<Longrightarrow> privs s' = privs s \<Longrightarrow>
     addr_of s' u = addr_of s u"
  by (auto simp: addr_of_eq split: option.splits)

lemma presence_device:
  assumes "device_udn_map s' = device_udn_map s" "device_uc_map s' = device_uc_map s" "privs s' = privs s"
    and "devices s a = Some d" and "devices s' = (devices s)(a \<mapsto> d')"
    and "map ctx_ip_address (dev_contexts d') = map ctx_ip_address (dev_contexts d)"
  shows "presence s' = presence s"
proof (rule presence_same)
  have "ctx_ip_address ` set (dev_contexts d') = ctx_ip_address ` set (dev_contexts d)"
    using assms(6) by (metis set_map)
  then show "ips s' b = ips s b" for b
    using assms(4,5) by (simp add: ips_def)
qed (rule addr_of_cong [OF assms(1-3)])

subsection \<open>Adding a device\<close>

lemma presence_add_new:
  assumes inv: "upnp_inv s" and lk: "lookup_device udn s = Some None"
    and run: "prv_add_device gl info bms ip udn s = Some s'"
  shows "presence s' = presence s \<union> {(udn, ip)}"
proof -
  define p q a where "p = next_ref s" and "q = Suc p" and "a = Suc q"
  note pqa = this
  from add_new_device [OF lk pqa, of gl info bms ip] obtain d where
    new: "dld_device_new gl a (Suc a) info bms ip (upnp_counter s) q =
      Some (d, [Device_proxy_ref, Add_service_task q (Prv_subscribe a),
                Add_service_task q (Prv_declare a), Queue_start q])"
    and add: "prv_add_device gl info bms ip udn s = Some (s\<lparr>
      device_uc_map := AList.update udn p (device_uc_map s),
      upnp_counter := upnp_counter s + 1,
      devices := (devices s)(a \<mapsto> d),
      privs := (privs s)(p \<mapsto> \<lparr>ct_udn = udn, ct_ip_address = ip, ct_device = a, ct_queue_id = q\<rparr>),
      queues := (queues s)(q \<mapsto>
        \<lparr>q_tasks = [Prv_subscribe a, Prv_declare a],
         q_finally = Prv_device_chain_end, q_user_data = p, q_cancelled = False\<rparr>),
      next_ref := Suc (Suc a),
      calls := calls s @ [Add_queue q, Set_finally q Prv_device_chain_end, Set_user_data q p,
        Device_proxy_ref, Add_service_task q (Prv_subscribe a), Add_service_task q (Prv_declare a),
        Queue_start q]\<rparr>)"
    by blast
  note s' = trans [OF run [symmetric] add, THEN option.inject [THEN iffD1]]
  note r = inv_reg [OF inv]
  have none: "devices s a = None" "privs s p = None"
    using reg_bound(1) [OF r, of a] reg_bound(2) [OF r, of p] pqa
    by (cases "devices s a"; cases "privs s p"; auto simp: domIff)+
  have U: "map_of (device_udn_map s) udn = None" and A: "addr_of s udn = None"
    using lk by (auto simp: addr_of_def lookup_device_def split: option.splits)
  have ctx: "ctx_ip_address ` set (dev_contexts d) = {ip}"
    using new by (rule device_newE) (simp add: prv_context_new_def)
  have "presence s' = {(v, i) \<in> presence s. v \<noteq> udn} \<union>
      {udn} \<times> (case addr_of s' udn of None \<Rightarrow> {} | Some a \<Rightarrow> ips s' a)"
  proof (rule presence_change)
    fix v assume v: "v \<noteq> udn"
    have "map_of (device_uc_map s) v \<noteq> Some p" using reg_uc [OF r, of v p] none by auto
    then show "addr_of s' v = addr_of s v"
      using v by (auto simp: addr_of_eq s' split: option.splits)
    fix b assume "addr_of s v = Some b"
    then have "b \<noteq> a" using addr_live [OF inv] none by fastforce
    then show "ips s' b = ips s b" by (simp add: ips_def s')
  qed
  moreover have "addr_of s' udn = Some a" "ips s' a = {ip}"
    using U ctx by (simp_all add: addr_of_eq ips_def s')
  moreover have "{(v, i) \<in> presence s. v \<noteq> udn} = presence s"
    using A by (auto simp: presence_def)
  ultimately show ?thesis by auto
qed

lemma presence_add_known:
  assumes inv: "upnp_inv s" and A: "addr_of s udn = Some a" and d: "devices s a = Some d"
    and app: "dld_device_append_new_context ref ip info bms d = Some (d', eff)"
    and s': "s' = emit eff (set_device a d' (s\<lparr>next_ref := n\<rparr>))"
  shows "presence s' = presence s \<union> {(udn, ip)}"
proof -
  have "presence s' = {(v, i) \<in> presence s. v \<noteq> udn} \<union>
      {udn} \<times> (case addr_of s' udn of None \<Rightarrow> {} | Some a \<Rightarrow> ips s' a)"
  proof (rule presence_change)
    fix v assume v: "v \<noteq> udn"
    show "addr_of s' v = addr_of s v"
      by (rule addr_of_cong) (simp_all add: s' set_device_def)
    fix b assume "addr_of s v = Some b"
    then have "b \<noteq> a" using addr_inj [OF inv _ A] v by auto
    then show "ips s' b = ips s b" by (simp add: ips_def s' set_device_def)
  qed
  moreover have "addr_of s' udn = Some a"
    unfolding A [symmetric] by (rule addr_of_cong) (simp_all add: s' set_device_def)
  moreover have "ctx_ip_address ` set (dev_contexts d') = insert ip (ctx_ip_address ` set (dev_contexts d))"
    using arg_cong [OF append_new_context_keeps(4) [OF app], of set] by auto
  then have "ips s' a = insert ip (ips s a)"
    by (simp add: ips_def s' set_device_def d)
  ultimately show ?thesis using A by (auto simp: presence_def)
qed

lemma presence_add:
  assumes inv: "upnp_inv s" and run: "prv_add_device gl info bms ip udn s = Some s'"
  shows "presence s' = presence s \<union> {(udn, ip)}"
proof -
  have known: "presence s' = presence s \<union> {(udn, ip)}"
    if lk: "lookup_device udn s = Some (Some (a, x))" and d: "devices s a = Some d" for a x d
  proof (cases "find_index (\<lambda>c. ctx_ip_address c = ip) (dev_contexts d)")
    case None
    obtain d' eff where app: "dld_device_append_new_context (next_ref s) ip info bms d = Some (d', eff)"
      using append_new_context_defined by blast
    show ?thesis
      by (rule presence_add_known [OF inv addr_of_lookup [OF lk] d app, of _ "Suc (next_ref s)"])
        (use run in \<open>simp add: prv_add_device_def lk d None app\<close>)
  next
    case (Some i)
    then have "ip \<in> ips s a" using d find_index_SomeD [OF Some] by (auto simp: ips_def)
    then have "(udn, ip) \<in> presence s" using addr_of_lookup [OF lk] by (auto simp: presence_def)
    moreover have "s' = s" using run by (simp add: prv_add_device_def lk d Some)
    ultimately show ?thesis by blast
  qed
  from inv show ?thesis
  proof (cases rule: lookup_device_cases [of "{}" s udn])
    case 1
    from presence_add_new [OF inv 1(1) run] show ?thesis .
  qed (use known in blast)+
qed

subsection \<open>Removing a device\<close>

lemma presence_remove_context:
  assumes inv: "upnp_inv s" and A: "addr_of s udn = Some a" and d: "devices s a = Some d"
    and Some: "find_index (\<lambda>c. ctx_ip_address c = ip) (dev_contexts d) = Some i"
    and s1: "s1 = emit eff (set_device a (remove_context i d) s)"
  shows "presence s1 = presence s - {(udn, ip)}" and "addr_of s1 v = addr_of s v"
proof -
  show addr: "addr_of s1 v = addr_of s v" for v
    by (rule addr_of_cong) (simp_all add: s1 set_device_def)
  have i: "i < length (dev_contexts d)" "ctx_ip_address (dev_contexts d ! i) = ip"
    using find_index_SomeD [OF Some] by auto
  have "distinct (map ctx_ip_address (dev_contexts d))"
    using inv_device [OF inv d] by (simp add: dev_ok_def context_inv_def)
  from set_remove_index_distinct [OF this, of i] i
  have "ctx_ip_address ` set (dev_contexts (remove_context i d)) = ctx_ip_address ` set (dev_contexts d) - {ip}"
    by (simp add: remove_context_def remove_index_map [symmetric])
  then have ipa: "ips s1 a = ips s a - {ip}" by (simp add: ips_def s1 set_device_def d)
  have "presence s1 = {(v, i) \<in> presence s. v \<noteq> udn} \<union>
      {udn} \<times> (case addr_of s1 udn of None \<Rightarrow> {} | Some a \<Rightarrow> ips s1 a)"
  proof (rule presence_change)
    fix v b assume "v \<noteq> udn" "addr_of s v = Some b"
    then have "b \<noteq> a" using addr_inj [OF inv _ A] by auto
    then show "ips s1 b = ips s b" by (simp add: ips_def s1 set_device_def)
  qed (rule addr)
  with A ipa show "presence s1 = presence s - {(udn, ip)}" by (auto simp: addr presence_def)
qed

lemma presence_timer:
  assumes "devices s a = Some d"
  shows "presence (emit eff (set_device a (d\<lparr>dev_timeout_id := t\<rparr>) s)) = presence s"
  by (rule presence_device [OF _ _ _ assms, where d' = "d\<lparr>dev_timeout_id := t\<rparr>"]) (simp_all add: set_device_def)

lemma presence_emit [simp]: "presence (emit eff s) = presence s"
  by (rule presence_same [OF addr_of_cong]) (simp_all add: ips_def)

text \<open>A device without contexts leaves the tables.\<close>

lemma presence_forget:
  assumes inv: "upnp_inv_except X s" and A: "addr_of s udn = Some a" and no: "ips s a = {}"
    and other: "\<And>v. v \<noteq> udn \<Longrightarrow> addr_of s' v = addr_of s v" and "addr_of s' udn = None"
    and dev: "\<And>b. b \<noteq> a \<Longrightarrow> devices s' b = devices s b"
  shows "presence s' = presence s"
proof -
  have "presence s' = {(v, i) \<in> presence s. v \<noteq> udn} \<union>
      {udn} \<times> (case addr_of s' udn of None \<Rightarrow> {} | Some a \<Rightarrow> ips s' a)"
  proof (rule presence_change [OF other])
    fix v b assume "v \<noteq> udn" "addr_of s v = Some b"
    then have "b \<noteq> a" using addr_inj [OF inv _ A] by auto
    then show "ips s' b = ips s b" by (simp add: ips_def dev)
  qed
  with A no \<open>addr_of s' udn = None\<close> show ?thesis by (auto simp: presence_def)
qed

lemma presence_remove_known:
  assumes inv: "upnp_inv s" and lk: "lookup_device udn s = Some (Some (a, None))"
    and u: "map_of (device_udn_map s) udn = Some a" and d: "devices s a = Some d"
    and Some: "find_index (\<lambda>c. ctx_ip_address c = ip) (dev_contexts d) = Some i"
    and run: "prv_remove_device ip udn s = Some s'"
  shows "presence s' = presence s - {(udn, ip)}"
proof -
  let ?c = "dev_contexts d ! i" and ?d1 = "remove_context i d"
  define s1 where "s1 = emit (prv_dld_context_delete ?c) (set_device a ?d1 s)"
  note ctx = presence_remove_context [OF inv addr_of_lookup [OF lk] d Some s1_def]
  have i: "i < length (dev_contexts d)" using Some by (auto dest: find_index_SomeD)
  note s1 = context_removed [OF inv d i s1_def]
  note defs = prv_remove_device_def lk d Some s1_def [symmetric] Let_def
  show ?thesis
  proof (cases "dev_contexts ?d1 = []")
    case True
    then have "free_device a ((emit (prv_lost_diagnostics_device (dev_path ?d1)) s1)
        \<lparr>device_udn_map := AList.delete udn (device_udn_map s)\<rparr>) = Some s'"
      using run True by (simp add: defs udn_map_remove_def u s1(3))
    then have s': "device_udn_map s' = AList.delete udn (device_udn_map s)"
      "device_uc_map s' = device_uc_map s" "privs s' = privs s" "devices s' = (devices s1)(a := None)"
      using s1 by (auto simp: free_device_def split: option.splits)
    have "presence s' = presence s1"
    proof (rule presence_forget [OF s1(1)])
      show "addr_of s1 udn = Some a" using ctx(2) addr_of_lookup [OF lk] by simp
      show "ips s1 a = {}" using True by (simp add: ips_def s1)
      show "addr_of s' udn = None"
        using reg_udn [OF inv_reg [OF inv] u] by (simp add: addr_of_eq s' delete_conv')
      show "addr_of s' v = addr_of s1 v" if "v \<noteq> udn" for v
        using that by (auto simp: addr_of_eq s' s1 delete_conv' split: option.splits)
      show "devices s' b = devices s1 b" if "b \<noteq> a" for b using that by (simp add: s')
    qed
    then show ?thesis by (simp add: ctx(1))
  next
    case False
    with run presence_timer [OF s1(2)] ctx(1) show ?thesis
      by (auto simp: defs split: if_splits simp del: emit.simps)
  qed
qed

lemma presence_moved:
  assumes inv: "upnp_inv s" and c: "map_of (device_uc_map s) udn = Some p" and p: "privs s p = Some pr"
    and s2: "s2 = emit eff (uc_map_remove (ct_udn pr) s)"
    and s3: "prv_create_device_queue s2 = (p1, q1, s3)"
  shows "presence (emit eff3 (prv_update_device_context p1 udn (ct_device pr) ip q1 s3)) = presence s"
    (is "presence ?s' = _")
proof (rule presence_same)
  note r = inv_reg [OF inv]
  have u: "ct_udn pr = udn" using reg_uc [OF r c] p by auto
  have p1: "p1 = next_ref s" and S3: "device_udn_map s3 = device_udn_map s"
    "device_uc_map s3 = AList.delete udn (device_uc_map s)" "devices s3 = devices s"
    "privs s3 = (privs s)(p1 \<mapsto> ct_zero)"
    using s3 by (auto simp: prv_create_device_queue_def Let_def s2 uc_map_remove_def u simp del: emit.simps)
  have new: "privs s p1 = None"
    using reg_bound(2) [OF r, of p1] by (cases "privs s p1") (auto simp: p1)
  show "addr_of ?s' v = addr_of s v" for v
  proof (cases "v = udn")
    case True
    have "map_of (device_udn_map s) udn = None"
      using reg_udn [OF r, of udn] c by (cases "map_of (device_udn_map s) udn") auto
    with True c p show ?thesis by (simp add: addr_of_eq prv_update_device_context_def S3)
  next
    case False
    moreover have "map_of (device_uc_map s) v \<noteq> Some p1" using reg_uc [OF r, of v p1] new by auto
    ultimately show ?thesis
      by (auto simp: addr_of_eq prv_update_device_context_def S3 delete_conv' split: option.splits)
  qed
  show "ips ?s' a = ips s a" for a by (simp add: ips_def prv_update_device_context_def S3)
qed

lemma presence_remove_constructing:
  assumes inv: "upnp_inv s" and lk: "lookup_device udn s = Some (Some (ct_device pr, Some p))"
    and c: "map_of (device_uc_map s) udn = Some p" and pr: "privs s p = Some pr"
    and d: "devices s (ct_device pr) = Some d"
    and Some: "find_index (\<lambda>c. ctx_ip_address c = ip) (dev_contexts d) = Some i"
    and run: "prv_remove_device ip udn s = Some s'"
  shows "presence s' = presence s - {(udn, ip)}"
proof -
  let ?c = "dev_contexts d ! i" and ?d1 = "remove_context i d" and ?a = "ct_device pr"
  define s1 where "s1 = emit (prv_dld_context_delete ?c) (set_device ?a ?d1 s)"
  note ctx = presence_remove_context [OF inv addr_of_lookup [OF lk] d Some s1_def]
  have i: "i < length (dev_contexts d)" using Some by (auto dest: find_index_SomeD)
  note s1 = context_removed [OF inv d i s1_def]
  have p1: "map_of (device_uc_map s1) udn = Some p" "privs s1 p = Some pr" using c pr s1(4,5) by simp_all
  note defs = prv_remove_device_def lk d Some s1_def [symmetric] p1(2) Let_def
  have "presence s' = presence s1"
  proof (cases "dev_contexts ?d1 \<noteq> [] \<and> ctx_ip_address ?c = ct_ip_address pr")
    case True
    then obtain j where j: "dld_device_get_context ?d1 = Some j"
      by (cases "dld_device_get_context ?d1") auto
    obtain p2 q2 s3 where s3: "prv_create_device_queue
        (emit [Set_finally (ct_queue_id pr) Prv_device_context_switch_end,
           Cancel_queue (ct_queue_id pr)] (uc_map_remove (ct_udn pr) s1)) = (p2, q2, s3)"
      by (metis surj_pair)
    from presence_moved [OF inv_except_drop [OF s1(1,2)] p1 refl s3] run True j s3 show ?thesis
      by (auto simp: defs simp del: emit.simps)
  next
    case False
    with run presence_timer [OF s1(2)] show ?thesis
      by (auto simp: defs split: if_splits simp del: emit.simps)
  qed
  then show ?thesis by (simp add: ctx(1))
qed

lemma presence_remove:
  assumes inv: "upnp_inv s" and run: "prv_remove_device ip udn s = Some s'"
  shows "presence s' = presence s - {(udn, ip)}"
proof -
  have absent: "presence s' = presence s - {(udn, ip)}"
    if lk: "lookup_device udn s = Some (Some (a, x))" and d: "devices s a = Some d"
      and no: "find_index (\<lambda>c. ctx_ip_address c = ip) (dev_contexts d) = None" for a x d
  proof -
    have "ip \<notin> ips s a" using no d by (auto simp: ips_def find_index_None)
    then have "(udn, ip) \<notin> presence s" using addr_of_lookup [OF lk] by (simp add: presence_def)
    then show ?thesis using run by (simp add: prv_remove_device_def lk d no)
  qed
  from inv show ?thesis
  proof (cases rule: lookup_device_cases [of "{}" s udn])
    case 1
    then have "addr_of s udn = None" by (simp add: addr_of_def)
    then show ?thesis using run 1 by (simp add: prv_remove_device_def presence_def)
  next
    case (2 a d)
    then show ?thesis
      using absent presence_remove_known [OF inv 2 _ run]
      by (cases "find_index (\<lambda>c. ctx_ip_address c = ip) (dev_contexts d)") blast+
  next
    case (3 p pr d)
    then show ?thesis
      using absent presence_remove_constructing [OF inv 3(1,3,4,6) _ run]
      by (cases "find_index (\<lambda>c. ctx_ip_address c = ip) (dev_contexts d)") blast+
  qed
qed

subsection \<open>Devices with sub-devices\<close>

text \<open>
  The contract of an operation on one sub-device that changes the set at its UDN by \<open>g\<close>.
\<close>

locale presence_op = registry_op act
  for act :: "device_info \<Rightarrow> proxy option \<Rightarrow> dld_upnp \<Rightarrow> dld_upnp option" +
  fixes g :: "string set \<Rightarrow> (string \<times> string) set \<Rightarrow> (string \<times> string) set"
  assumes act_presence: "upnp_inv s \<Longrightarrow> bms \<noteq> None \<Longrightarrow> act info bms s = Some s' \<Longrightarrow>
      presence s' = g {u. di_udn info = Some u} (presence s)"
    and g_union: "g U (g V P) = g (U \<union> V) P" and g_empty: "g {} P = P"
begin

lemma visit_presence:
  "upnp_inv s \<Longrightarrow> \<forall>info \<in> set infos. di_bms info \<noteq> None \<Longrightarrow> visit act infos s = Some s' \<Longrightarrow>
     presence s' = g {u. \<exists>info \<in> set infos. di_udn info = Some u} (presence s)"
proof (induction infos arbitrary: s)
  case Nil
  then show ?case by (simp add: g_empty)
next
  case (Cons info infos)
  from act_inv [OF Cons.prems(1), of "di_bms info" info] Cons.prems(2) obtain s1 where
    s1: "act info (di_bms info) s = Some s1" "upnp_inv s1" by auto
  have "presence s1 = g {u. di_udn info = Some u} (presence s)"
    using act_presence [OF Cons.prems(1) _ s1(1)] Cons.prems(2) by simp
  moreover have "presence s' = g {u. \<exists>info \<in> set infos. di_udn info = Some u} (presence s1)"
    using Cons s1 by simp
  moreover have "{u. \<exists>i \<in> set (info # infos). di_udn i = Some u} =
      {u. \<exists>info \<in> set infos. di_udn info = Some u} \<union> {u. di_udn info = Some u}" by auto
  ultimately show ?case by (simp add: g_union)
qed

lemma walk_presence:
  "upnp_inv s \<Longrightarrow> walk_sub_devices act info s = Some (si, s') \<Longrightarrow>
     presence s' = g (bm_udns info) (presence s)"
  using visit_presence [of s "bm_sub_devices info" s'] by (auto simp: walk_visits bm_udns_def bm_sub_devices_def)

end

interpretation adding: presence_op "prv_add_sub_device gl ip" "\<lambda>U P. P \<union> U \<times> {ip}" for gl ip
  by unfold_locales
    (auto simp: prv_add_sub_device_def presence_add split: option.splits)

interpretation removing: presence_op "prv_remove_sub_device ip" "\<lambda>U P. P - U \<times> {ip}" for ip
  by unfold_locales
    (auto simp: prv_remove_sub_device_def presence_remove split: option.splits)

lemma presence_available:
  assumes inv: "upnp_inv s" and run: "prv_device_available_cb gl info ip s = Some s'"
  shows "presence s' = presence_step (Ev_available info ip) (presence s)"
proof (cases "di_udn info = None \<or> ip = None")
  case True
  with run show ?thesis
    by (auto simp: prv_device_available_cb_def presence_step_def split: option.splits)
next
  case False
  then obtain udn i where u: "di_udn info = Some udn" "ip = Some i" by auto
  from run obtain s1 si where
    s1: "(if di_bms info \<noteq> None then prv_add_device gl info (di_bms info) i udn s else Some s) = Some s1"
    and walk: "walk_sub_devices (prv_add_sub_device gl i) info s1 = Some (si, s')"
    by (auto simp: prv_device_available_cb_def u prv_add_bm_service_sub_devices_def split: bind_splits if_splits)
  have "upnp_inv s1"
    using s1 add_device_inv [OF inv, of "di_bms info" gl info i udn] inv by (auto split: if_splits)
  from adding.walk_presence [OF this walk] have "presence s' = presence s1 \<union> bm_udns info \<times> {i}" .
  moreover have "presence s1 = presence s \<union> (if di_bms info \<noteq> None then {(udn, i)} else {})"
    using s1 presence_add [OF inv] by (auto split: if_splits)
  ultimately show ?thesis by (auto simp: presence_step_def u appearing_def)
qed

lemma presence_unavailable:
  assumes inv: "upnp_inv s" and run: "prv_device_unavailable_cb info ip s = Some s'"
  shows "presence s' = presence_step (Ev_unavailable info ip) (presence s)"
proof (cases "di_udn info = None \<or> ip = None")
  case True
  with run show ?thesis
    by (auto simp: prv_device_unavailable_cb_def presence_step_def split: option.splits)
next
  case False
  then obtain udn i where u: "di_udn info = Some udn" "ip = Some i" by auto
  from run obtain s1 si where
    walk: "walk_sub_devices (prv_remove_sub_device i) info s = Some (si, s1)"
    and rm: "prv_remove_device i udn s1 = Some s'"
    by (auto simp: prv_device_unavailable_cb_def u prv_remove_bm_service_sub_devices_def split: bind_splits)
  have "upnp_inv s1" using removing.walk_inv [OF inv, of i info] walk by auto
  from presence_remove [OF this rm] removing.walk_presence [OF inv walk]
  show ?thesis by (auto simp: presence_step_def u disappearing_def)
qed

subsection \<open>The other events\<close>

lemma on_device_presence:
  assumes "on_device f a s = Some s'"
    and "\<And>d d' eff. f d = Some (d', eff) \<Longrightarrow>
      map ctx_ip_address (dev_contexts d') = map ctx_ip_address (dev_contexts d)"
  shows "presence s' = presence s"
proof -
  from assms(1) obtain d d' eff where d: "devices s a = Some d" "f d = Some (d', eff)"
    and s': "s' = emit eff (set_device a d' s)"
    by (auto simp: on_device_def split: bind_splits)
  show ?thesis
    unfolding s' presence_emit
    by (rule presence_device [OF _ _ _ d(1), where d' = d']) (use assms(2) [OF d(2)] in \<open>simp_all add: set_device_def\<close>)
qed

lemma on_context_presence:
  assumes run: "on_context f a r s = Some s'" and op: "\<And>i. device_op (at_context i f)"
  shows "presence s' = presence s"
proof -
  from run obtain i where "on_device (at_context i f) a s = Some s'"
    by (auto simp: on_context_def split: bind_splits)
  then show ?thesis
    by (rule on_device_presence) (rule device_op.op_keeps(4) [OF op])
qed

lemma presence_fields [simp]:
  "presence (s\<lparr>sources := src\<rparr>) = presence s" "presence (s\<lparr>queues := Q\<rparr>) = presence s"
  by (rule presence_same [OF addr_of_cong], simp_all add: ips_def)+

lemma presence_upd_queue [simp]: "presence (upd_queue q f s) = presence s"
  by (simp add: upd_queue_def)

lemma presence_run_task:
  assumes "run_service_task pub q t s = Some s'"
  shows "presence s' = presence s"
proof (cases t)
  case (Prv_subscribe a)
  then show ?thesis
    using assms on_device_presence [of prv_subscribe a s s'] subscribe_step.op_keeps(4)
    by (simp add: run_service_task_def)
next
  case (Prv_declare a)
  then obtain d d1 failed eff where d: "devices s a = Some d" and dec: "prv_declare pub d = (d1, failed, eff)"
    and s': "s' = (if failed then upd_queue q cancel_rest (emit eff (set_device a d1 s))
                   else emit eff (set_device a d1 s))"
    using assms by (auto simp: run_service_task_def Let_def split: bind_splits prod.splits)
  have "presence (set_device a d1 s) = presence s"
    by (rule presence_device [OF _ _ _ d, where d' = d1]) (simp_all add: set_device_def declare_effects [OF dec])
  then show ?thesis by (simp add: s')
qed

lemma presence_timer_event:
  assumes "run_timer cb s = Some s'"
  shows "presence s' = presence s"
proof (cases cb)
  case (Subscribe_to_service_changes a)
  have "on_device (\<lambda>d. dld_device_subscribe_to_service_changes (d\<lparr>dev_timeout_id := 0\<rparr>)) a s = Some s'"
    using assms Subscribe_to_service_changes
    by (simp add: run_timer_def prv_subscribe_to_service_changes_def on_device_def)
  then show ?thesis by (rule on_device_presence) (drule subscribing.op_keeps(4), simp)
next
  case (Re_enable_bms_subscription a r)
  then show ?thesis
    using assms on_context_presence [OF _ re_enabling.device_op_axioms] by (simp add: run_timer_def)
qed

text \<open>The UDN of the cancelled construction that an event ends, if it does.\<close>

definition dropped :: "upnp_event \<Rightarrow> dld_upnp \<Rightarrow> string set" where
  "dropped e s =
     (case e of
        Ev_queue_end q \<Rightarrow>
          (case queues s q of
             None \<Rightarrow> {}
           | Some x \<Rightarrow>
               if q_cancelled x \<and> q_finally x = Prv_device_chain_end
               then (case privs s (q_user_data x) of None \<Rightarrow> {} | Some pr \<Rightarrow> {ct_udn pr}) else {})
      | _ \<Rightarrow> {})"

subsection \<open>The end of a construction\<close>

lemma presence_switch_end:
  assumes inv: "upnp_inv s" and q: "queues s q = Some x" "q_finally x = Prv_device_context_switch_end"
    and run: "prv_device_context_switch_end c (q_user_data x) s = Some s1"
  shows "presence s1 = presence s"
proof -
  note r = inv_reg [OF inv]
  have s1: "s1 = prv_device_new_free (q_user_data x) s"
    using run by (simp add: prv_device_context_switch_end_def split: if_splits)
  obtain pr where "privs s (q_user_data x) = Some pr"
    and "map_of (device_uc_map s) (ct_udn pr) \<noteq> Some (q_user_data x)"
    using reg_queue [OF r q(1)] q(2) by (auto simp: queue_ok_def)
  then have "map_of (device_uc_map s) v \<noteq> Some (q_user_data x)" for v
    using reg_uc [OF r, of v "q_user_data x"] by auto
  then show ?thesis
    by (intro presence_same) (auto simp: s1 prv_device_new_free_def addr_of_eq ips_def split: option.splits)
qed

lemma chain_end_other:
  assumes inv: "upnp_inv s" and c: "map_of (device_uc_map s) u = Some p" and v: "v \<noteq> u"
  shows "map_of (device_uc_map s) v \<noteq> Some p"
  using reg_uc [OF inv_reg [OF inv] c] reg_uc [OF inv_reg [OF inv], of v p] v by auto

lemma presence_published:
  assumes inv: "upnp_inv s" and q: "queues s q = Some x" "q_finally x = Prv_device_chain_end"
    and run: "prv_device_chain_end False (q_user_data x) s = Some s1"
  shows "presence s1 = presence s"
proof -
  note r = inv_reg [OF inv]
  let ?p = "q_user_data x"
  obtain pr where pr: "privs s ?p = Some pr" and c: "map_of (device_uc_map s) (ct_udn pr) = Some ?p"
    using reg_queue [OF r q(1)] q(2) by (auto simp: queue_ok_def)
  let ?u = "ct_udn pr"
  have U: "map_of (device_udn_map s) ?u = None"
    using reg_udn [OF r, of ?u] c by (cases "map_of (device_udn_map s) ?u") auto
  obtain d where d: "devices s (ct_device pr) = Some d" using reg_uc [OF r c] pr by auto
  from run have s1: "s1 = prv_device_new_free ?p (uc_map_remove ?u
      (emit (prv_found_diagnostics_device (dev_path d))
        (s\<lparr>device_udn_map := AList.update ?u (ct_device pr) (device_udn_map s)\<rparr>)))"
    by (simp add: prv_device_chain_end_def pr d udn_map_insert_def U Let_def del: emit.simps)
  show ?thesis
  proof (rule presence_same)
    fix v
    show "addr_of s1 v = addr_of s v"
      using chain_end_other [OF inv c, of v] U c pr
      by (cases "v = ?u") (auto simp: addr_of_eq s1 prv_device_new_free_def uc_map_remove_def split: option.splits)
  qed (simp add: ips_def s1 prv_device_new_free_def uc_map_remove_def)
qed

lemma presence_abandoned:
  assumes inv: "upnp_inv s" and q: "queues s q = Some x" "q_finally x = Prv_device_chain_end"
    and pr: "privs s (q_user_data x) = Some pr"
    and run: "prv_device_chain_end True (q_user_data x) s = Some s1"
  shows "presence s1 = presence s - {ct_udn pr} \<times> UNIV"
proof -
  note r = inv_reg [OF inv]
  let ?p = "q_user_data x" and ?u = "ct_udn pr" and ?a = "ct_device pr"
  have c: "map_of (device_uc_map s) ?u = Some ?p"
    using reg_queue [OF r q(1)] q(2) pr by (auto simp: queue_ok_def)
  have U: "map_of (device_udn_map s) ?u = None"
    using reg_udn [OF r, of ?u] c by (cases "map_of (device_udn_map s) ?u") auto
  from run obtain d where s1: "s1 = emit (dld_device_delete d)
      (prv_device_new_free ?p (uc_map_remove ?u s)\<lparr>devices := (devices s)(?a := None)\<rparr>)"
    by (auto simp: prv_device_chain_end_def pr free_device_def prv_device_new_free_def uc_map_remove_def Let_def
        simp del: emit.simps split: option.splits)
  have A: "addr_of s ?u = Some ?a" using c U pr by (simp add: addr_of_eq)
  have "presence s1 = {(v, i) \<in> presence s. v \<noteq> ?u} \<union>
      {?u} \<times> (case addr_of s1 ?u of None \<Rightarrow> {} | Some a \<Rightarrow> ips s1 a)"
  proof (rule presence_change)
    fix v assume v: "v \<noteq> ?u"
    show "addr_of s1 v = addr_of s v"
      using chain_end_other [OF inv c v] v
      by (auto simp: addr_of_eq s1 prv_device_new_free_def uc_map_remove_def split: option.splits)
    fix b assume "addr_of s v = Some b"
    then have "b \<noteq> ?a" using addr_inj [OF inv _ A] v by auto
    then show "ips s1 b = ips s b" by (simp add: ips_def s1)
  qed
  moreover have "addr_of s1 ?u = None"
    using U by (simp add: addr_of_eq s1 prv_device_new_free_def uc_map_remove_def)
  ultimately show ?thesis by auto
qed

lemma presence_queue_end:
  assumes inv: "upnp_inv s" and run: "upnp_step gl (Ev_queue_end q) s = Some s'"
  shows "presence s' = presence s - dropped (Ev_queue_end q) s \<times> UNIV"
proof -
  note r = inv_reg [OF inv]
  from run obtain x s1 where q: "queues s q = Some x" and fin: "run_finally x s = Some s1"
    and s': "presence s' = presence s1"
    by (auto simp: upnp_step.simps split: bind_splits)
  show ?thesis
  proof (cases "q_finally x")
    case Prv_device_chain_end
    obtain pr where pr: "privs s (q_user_data x) = Some pr"
      using reg_queue [OF r q] by (auto simp: queue_ok_def)
    show ?thesis
      using fin presence_published [OF inv q Prv_device_chain_end]
        presence_abandoned [OF inv q Prv_device_chain_end pr]
      by (cases "q_cancelled x")
        (auto simp: s' run_finally_def Prv_device_chain_end dropped_def q pr)
  next
    case Prv_device_context_switch_end
    with fin presence_switch_end [OF inv q] show ?thesis
      by (simp add: s' run_finally_def dropped_def q)
  qed
qed

subsection \<open>The refinement\<close>

lemma signal_presence:
  assumes "on_device f a s = Some s'" and "\<And>d x. f d = Some x \<Longrightarrow> \<exists>key v. change_and_signal key v d = x"
  shows "presence s' = presence s"
  using assms(1)
proof (rule on_device_presence)
  fix d d' eff assume "f d = Some (d', eff)"
  with assms(2) obtain key v where "change_and_signal key v d = (d', eff)" by metis
  then show "map ctx_ip_address (dev_contexts d') = map ctx_ip_address (dev_contexts d)"
    by (auto simp: change_and_signal_def prv_change_props_def)
qed

lemma unsubscribe_presence:
  "unsubscribe_devices as s = Some s' \<Longrightarrow> presence s' = presence s"
proof (induction as arbitrary: s)
  case (Cons a as)
  from Cons.prems obtain d where d: "devices s a = Some d" by (auto split: bind_splits)
  obtain d1 eff where u: "dld_device_unsubscribe d = (d1, eff)" by (metis surj_pair)
  have "presence s' = presence (emit eff (set_device a d1 s))"
    using Cons.prems by (intro Cons.IH) (simp add: d u)
  also have "\<dots> = presence s"
    unfolding presence_emit
    by (rule presence_device [OF _ _ _ d, where d' = d1])
      (use unsubscribing.op_keeps(4) [of d d1 eff] u in \<open>simp_all add: set_device_def\<close>)
  finally show ?case .
qed simp

lemma get_icon_presence:
  assumes inv: "upnp_inv s" and run: "map_option fst (dld_upnp_get_icon gl msg_new s t) = Some s'"
  shows "presence s' = presence s"
proof -
  obtain path cb where t: "task_path t = Some path" "task_async t = Some cb"
    using run by (auto simp: dld_upnp_get_icon_def on_checked_device_def prv_get_and_check_device_def split: bind_splits)
  from inv t show ?thesis
  proof (cases rule: checked_device)
    case (1 d u)
    then obtain d' t' eff where g: "dld_device_get_icon gl msg_new d t = Some (d', t', eff)"
      and s': "s' = set_device (dev_ref d) d' s"
      using run by (auto simp: dld_upnp_get_icon_def on_checked_device_def split: bind_splits)
    show ?thesis
      by (rule presence_device [of s' s "dev_ref d" d d'])
        (use 1(2) get_icon_frame(1) [OF g] in \<open>simp_all add: s' set_device_def usable_def\<close>)
  next
    case 2
    with run show ?thesis by (simp add: dld_upnp_get_icon_def on_checked_device_def)
  qed
qed

lemma refine_step:
  assumes inv: "upnp_inv s" and run: "upnp_step gl e s = Some s'"
  shows "presence s' = presence_step e (presence s) - dropped e s \<times> UNIV"
proof (cases e)
  case (Ev_available info ip)
  with run presence_available [OF inv, of gl info ip s'] show ?thesis
    by (simp add: upnp_step.simps dropped_def)
next
  case (Ev_unavailable info ip)
  with run presence_unavailable [OF inv, of info ip s'] show ?thesis
    by (simp add: upnp_step.simps dropped_def)
next
  case (Ev_run_task q pub)
  with run obtain t ts where "run_service_task pub q t (upd_queue q (\<lambda>x. x\<lparr>q_tasks := ts\<rparr>) s) = Some s'"
    by (auto simp: upnp_step.simps split: bind_splits list.splits)
  from presence_run_task [OF this] show ?thesis
    by (simp add: Ev_run_task presence_step_def dropped_def)
next
  case (Ev_queue_end q)
  with run presence_queue_end [OF inv, of gl q s'] show ?thesis by (simp add: presence_step_def)
next
  case (Ev_timer tid)
  with run obtain cb where "run_timer cb (s\<lparr>sources := filter (\<lambda>(j, _). j \<noteq> tid) (sources s)\<rparr>) = Some s'"
    by (auto simp: upnp_step.simps split: bind_splits)
  from presence_timer_event [OF this] show ?thesis
    by (simp add: Ev_timer presence_step_def dropped_def)
next
  case (Ev_subscription_lost a r)
  with run on_context_presence [OF _ losing.device_op_axioms] show ?thesis
    by (simp add: upnp_step.simps presence_step_def dropped_def)
next
  case (Ev_device_status a str)
  then have "presence s' = presence s"
    using run by (intro signal_presence [of "\<lambda>d. Some (prv_bm_device_status_cb gl str d)" a s s'])
      (auto simp: upnp_step.simps prv_bm_device_status_cb_def)
  then show ?thesis by (simp add: Ev_device_status presence_step_def dropped_def)
next
  case (Ev_test_ids a str)
  then have "presence s' = presence s"
    using run by (intro signal_presence [of "prv_bm_test_ids_cb gl str" a s s'])
      (auto simp: upnp_step.simps prv_bm_test_ids_cb_def prv_bm_test_ids_prop_change_def split: option.splits)
  then show ?thesis by (simp add: Ev_test_ids presence_step_def dropped_def)
next
  case (Ev_active_test_ids a str)
  then have "presence s' = presence s"
    using run by (intro signal_presence [of "prv_bm_active_test_ids_cb gl str" a s s'])
      (auto simp: upnp_step.simps prv_bm_active_test_ids_cb_def prv_bm_test_ids_prop_change_def split: option.splits)
  then show ?thesis by (simp add: Ev_active_test_ids presence_step_def dropped_def)
next
  case (Ev_get_icon msg_new t)
  with run have "map_option fst (dld_upnp_get_icon gl msg_new s t) = Some s'" by (simp add: upnp_step.simps)
  from get_icon_presence [OF inv this] show ?thesis
    by (simp add: Ev_get_icon presence_step_def dropped_def)
next
  case (Ev_icon_session status a t)
  with run have "presence s' = presence s"
    by (intro on_device_presence [of _ a s s']) (auto simp: upnp_step.simps dest: icon_session_frame)
  then show ?thesis by (simp add: Ev_icon_session presence_step_def dropped_def)
next
  case (Ev_context_available ip)
  with run show ?thesis by (auto simp: upnp_step.simps prv_on_context_available_def presence_step_def dropped_def
      simp del: emit.simps)
next
  case Ev_rescan
  with run show ?thesis by (auto simp: upnp_step.simps dld_upnp_rescan_def presence_step_def dropped_def
      simp del: emit.simps)
next
  case Ev_unsubscribe
  with run unsubscribe_presence show ?thesis
    by (auto simp: upnp_step.simps dld_upnp_unsubscribe_def presence_step_def dropped_def)
qed

text \<open>C7: The registry implements a set of pairs of a UDN and an interface address. A device that
  appears adds the pairs of the management devices below it, the root device only if it has the
  service itself; a device that disappears removes the pairs of the root device and of the management
  devices below it; no other event changes the set, except the end of a construction that was
  cancelled, because the device could not be published or lost its last context: it forgets the
  device.\<close>

theorem registry_refines:
  assumes "upnp_reach gl s" and "upnp_step gl e s = Some s'"
  shows "presence s' = presence_step e (presence s) - dropped e s \<times> UNIV"
  by (rule refine_step [OF reach_inv [OF assms(1)] assms(2)])

theorem registry_refines_witness:
  "(''uuid:1'', ''192.168.1.2'') \<notin>
     presence (the (upnp_step glib_ref (Ev_unavailable sample_root (Some ''192.168.1.2'')) sample_state))"
    (is "_ \<notin> presence (the (upnp_step _ ?e _))")
proof -
  have e: "ev_possible glib_ref ?e sample_state" by (simp add: ev_possible.simps)
  obtain s' where s': "upnp_step glib_ref ?e sample_state = Some s'"
    using step_inv [OF reach_inv [OF sample_state_reach] e] by (auto simp: ev_undefined.simps)
  have "''uuid:1'' \<in> disappearing sample_root"
    by (simp add: disappearing_def bm_udns_def bm_sub_devices_def sample_root_def di_udn_def)
  moreover have "di_udn sample_root \<noteq> None" by (simp add: sample_root_def di_udn_def)
  ultimately show ?thesis
    unfolding s' option.sel registry_refines [OF sample_state_reach s'] by (auto simp: presence_step_def)
qed

end
