(* ===== verification/Upnp_Life.thy ===== *)
theory Upnp_Life
  imports Upnp_Spec
begin

section \<open>The life of a device in the registry\<close>

text \<open>
  The walk over the sub-devices as a loop over a list, handlers that run twice, the course and the
  end of a construction, and the end of a known device.
\<close>

subsection \<open>The walk over the sub-devices\<close>

text \<open>C23: The recursive walk over the sub-devices, for devices that appear and for devices that
  disappear, performs its operation once for every sub-device at any depth that has the service, in
  document order, each before its own sub-devices, and always returns NULL: the call that the code
  makes for the result of the recursion is never reached.\<close>

theorem sub_devices_visited_once:
  "prv_add_bm_service_sub_devices gl info ip s =
     map_option (\<lambda>s'. (None, s')) (visit (prv_add_sub_device gl ip) (bm_sub_devices info) s) \<and>
   prv_remove_bm_service_sub_devices info ip s =
     map_option (\<lambda>s'. (None, s')) (visit (prv_remove_sub_device ip) (bm_sub_devices info) s)"
  by (simp add: prv_add_bm_service_sub_devices_def prv_remove_bm_service_sub_devices_def walk_visits)

subsection \<open>Announcements that are repeated\<close>

lemma add_present:
  assumes inv: "upnp_inv s" and p: "(udn, ip) \<in> presence s"
  shows "prv_add_device gl info bms ip udn s = Some s"
proof -
  from p obtain a where A: "addr_of s udn = Some a" and ip: "ip \<in> ips s a"
    by (auto simp: presence_def)
  then obtain d x where d: "devices s a = Some d" and lk: "lookup_device udn s = Some (Some (a, x))"
    by (auto simp: addr_of_def ips_def split: option.splits)
  obtain i where "find_index (\<lambda>c. ctx_ip_address c = ip) (dev_contexts d) = Some i"
    using ip d by (cases "find_index (\<lambda>c. ctx_ip_address c = ip) (dev_contexts d)")
      (auto simp: ips_def find_index_None)
  then show ?thesis by (simp add: prv_add_device_def lk d)
qed

lemma remove_absent:
  assumes inv: "upnp_inv s" and p: "(udn, ip) \<notin> presence s"
  shows "prv_remove_device ip udn s = Some s"
proof -
  obtain found where lk: "lookup_device udn s = Some found"
    using reg_uc [OF inv_reg [OF inv], of udn] by (fastforce simp: lookup_device_def split: option.splits)
  show ?thesis
  proof (cases found)
    case (Some ax)
    then obtain a x where ax: "lookup_device udn s = Some (Some (a, x))" using lk by (cases ax) auto
    then have A: "addr_of s udn = Some a" by (rule addr_of_lookup)
    then obtain d where d: "devices s a = Some d" using addr_live [OF inv] by blast
    have "find_index (\<lambda>c. ctx_ip_address c = ip) (dev_contexts d) = None"
      using p A d by (auto simp: presence_def ips_def find_index_None)
    then show ?thesis by (simp add: prv_remove_device_def ax d)
  qed (simp add: prv_remove_device_def lk)
qed

lemma visit_idle:
  "\<forall>info \<in> set infos. act info (di_bms info) s = Some s \<Longrightarrow> visit act infos s = Some s"
  by (induction infos) simp_all

text \<open>C22: A device that is announced again on an interface on which it is known, or whose departure
  is announced again, changes nothing: both handlers are idempotent, in every state the service can
  be in.\<close>

theorem announcements_idempotent:
  assumes "upnp_reach gl s" and "upnp_step gl e s = Some s'"
    and "e = Ev_available info ip \<or> e = Ev_unavailable info ip"
  shows "upnp_step gl e s' = Some s'"
proof -
  have inv: "upnp_inv s" and run: "upnp_step gl e s = Some s'"
    using reach_inv [OF assms(1)] assms(2) by simp_all
  have "ev_possible gl e s" using assms(3) by (auto simp: ev_possible.simps)
  then have inv': "upnp_inv s'" by (rule reach_inv [OF reach_step [OF assms(1) _ assms(2)]])
  have "dropped e s = {}" using assms(3) by (auto simp: dropped_def)
  then have P: "presence s' = presence_step e (presence s)"
    using refine_step [OF inv run] by simp
  show ?thesis
  proof (cases "di_udn info = None \<or> ip = None")
    case True
    with assms(3) show ?thesis
      by (auto simp: upnp_step.simps prv_device_available_cb_def prv_device_unavailable_cb_def split: option.splits)
  next
    case False
    then obtain udn i where u: "di_udn info = Some udn" "ip = Some i" by auto
    from assms(3) show ?thesis
    proof
      assume e: "e = Ev_available info ip"
      have known: "appearing info \<times> {i} \<subseteq> presence s'" by (simp add: P e presence_step_def u)
      have "prv_add_sub_device gl i c (di_bms c) s' = Some s'" if c: "c \<in> set (bm_sub_devices info)" for c
      proof (cases "di_udn c")
        case (Some v)
        then have "(v, i) \<in> presence s'" using c known by (auto simp: appearing_def bm_udns_def)
        from add_present [OF inv' this] show ?thesis by (simp add: prv_add_sub_device_def Some)
      qed (simp add: prv_add_sub_device_def)
      moreover have "prv_add_device gl info (di_bms info) i udn s' = Some s'" if "di_bms info \<noteq> None"
        by (rule add_present [OF inv']) (use known that in \<open>auto simp: appearing_def u\<close>)
      ultimately show ?thesis
        using visit_idle [of "bm_sub_devices info" "prv_add_sub_device gl i" s']
        by (simp add: e upnp_step.simps prv_device_available_cb_def u prv_add_bm_service_sub_devices_def walk_visits)
    next
      assume e: "e = Ev_unavailable info ip"
      have gone: "disappearing info \<times> {i} \<inter> presence s' = {}" by (auto simp: P e presence_step_def u)
      have "prv_remove_sub_device i c (di_bms c) s' = Some s'" if c: "c \<in> set (bm_sub_devices info)" for c
      proof (cases "di_udn c")
        case (Some v)
        then have "(v, i) \<notin> presence s'" using c gone by (auto simp: disappearing_def bm_udns_def)
        from remove_absent [OF inv' this] show ?thesis by (simp add: prv_remove_sub_device_def Some)
      qed (simp add: prv_remove_sub_device_def)
      moreover have "prv_remove_device i udn s' = Some s'"
        by (rule remove_absent [OF inv']) (use gone in \<open>auto simp: disappearing_def u\<close>)
      ultimately show ?thesis
        using visit_idle [of "bm_sub_devices info" "prv_remove_sub_device i" s']
        by (simp add: e upnp_step.simps prv_device_unavailable_cb_def u prv_remove_bm_service_sub_devices_def walk_visits)
    qed
  qed
qed

theorem announcements_idempotent_witness:
  "upnp_step glib_ref (Ev_available sample_root (Some ''192.168.1.2''))
     (the (upnp_step glib_ref (Ev_available sample_root (Some ''192.168.1.2'')) sample_state)) =
   upnp_step glib_ref (Ev_available sample_root (Some ''192.168.1.2'')) sample_state"
    (is "upnp_step _ ?e _ = _")
proof -
  obtain s' where s': "upnp_step glib_ref ?e sample_state = Some s'"
    using step_inv [OF reach_inv [OF sample_state_reach], of glib_ref ?e]
    by (auto simp: ev_possible.simps ev_undefined.simps)
  from announcements_idempotent [OF sample_state_reach s'] show ?thesis by (simp add: s')
qed

subsection \<open>The course of a construction\<close>

text \<open>
  The task processor works a queue off: it runs its tasks in order and then ends the queue.
\<close>

definition queue_event :: "(nat \<Rightarrow> guint) \<Rightarrow> addr \<Rightarrow> task_queue \<Rightarrow> upnp_event" where
  "queue_event pub q x = (if q_tasks x = [] then Ev_queue_end q else Ev_run_task q pub)"

fun drain :: "glib \<Rightarrow> (nat \<Rightarrow> guint) \<Rightarrow> nat \<Rightarrow> addr \<Rightarrow> dld_upnp \<Rightarrow> dld_upnp option" where
  "drain gl pub 0 q s = (if queues s q = None then Some s else None)"
| "drain gl pub (Suc n) q s =
     (case queues s q of
        None \<Rightarrow> Some s
      | Some x \<Rightarrow> do { s1 \<leftarrow> upnp_step gl (queue_event pub q x) s; drain gl pub n q s1 })"

lemma queue_event_possible: "queues s q = Some x \<Longrightarrow> ev_possible gl (queue_event pub q x) s"
  by (simp add: ev_possible.simps queue_event_def)

lemma declare_failed:
  assumes "prv_declare pub d = (d', failed, eff)" and "length (dev_ids d) = DLD_INTERFACE_INFO_MAX"
  shows "failed \<longleftrightarrow> pub 0 = 0 \<or> pub 1 = 0"
  using assms declare_eq [of d pub] by (simp add: DLD_INTERFACE_INFO_MAX_def)

text \<open>A task leaves the tables alone; the queue loses the task, or all of them if it failed.\<close>

lemma run_task_frame:
  assumes inv: "upnp_inv s" and q: "queues s q = Some x" and t: "q_tasks x = t # ts"
    and run: "upnp_step gl (Ev_run_task q pub) s = Some s'"
  shows "device_udn_map s' = device_udn_map s" "device_uc_map s' = device_uc_map s" "privs s' = privs s"
    and "queues s' q = Some (x\<lparr>q_tasks := ts\<rparr>) \<or>
         queues s' q = Some (cancel_rest x) \<and> (pub 0 = 0 \<or> pub 1 = 0)"
proof -
  obtain a d where a: "t \<in> device_tasks a" and d: "devices s a = Some d"
    using task_device [OF inv q, of t] t by auto
  define s0 where "s0 = upd_queue q (\<lambda>x. x\<lparr>q_tasks := ts\<rparr>) s"
  have s0: "device_udn_map s0 = device_udn_map s" "device_uc_map s0 = device_uc_map s" "privs s0 = privs s"
    "queues s0 q = Some (x\<lparr>q_tasks := ts\<rparr>)" "devices s0 a = Some d"
    using q d by (simp_all add: s0_def upd_queue_def)
  have step: "run_service_task pub q t s0 = Some s'"
    using run by (simp add: upnp_step.simps q t s0_def)
  consider "t = Prv_subscribe a" | "t = Prv_declare a" using a by (auto simp: device_tasks_def)
  then have "device_udn_map s' = device_udn_map s0 \<and> device_uc_map s' = device_uc_map s0 \<and> privs s' = privs s0 \<and>
     (queues s' q = queues s0 q \<or>
      queues s' q = map_option cancel_rest (queues s0 q) \<and> (pub 0 = 0 \<or> pub 1 = 0))"
  proof cases
    case 1
    then obtain d1 eff where sub: "prv_subscribe d = Some (d1, eff)" and s': "s' = emit eff (set_device a d1 s0)"
      using step s0(5) by (auto simp: run_service_task_def on_device_def split: bind_splits)
    have "list_all quiet eff" using quiet_subscribe_step [OF sub, of a] by (simp add: op_quiet_def)
    then show ?thesis by (simp add: s' emit_quiet set_device_def)
  next
    case 2
    obtain d1 failed eff where dec: "prv_declare pub d = (d1, failed, eff)" by (metis surj_pair)
    have s': "s' = (if failed then upd_queue q cancel_rest (emit eff (set_device a d1 s0))
                   else emit eff (set_device a d1 s0))"
      using step s0(5) 2 by (simp add: run_service_task_def dec Let_def)
    have "failed \<longleftrightarrow> pub 0 = 0 \<or> pub 1 = 0"
      using declare_failed [OF dec] inv_device [OF inv d] by (simp add: dev_ok_def)
    then show ?thesis
      using declare_effects(1) [OF dec] by (simp add: s' emit_quiet set_device_def upd_queue_def)
  qed
  then show "device_udn_map s' = device_udn_map s" "device_uc_map s' = device_uc_map s" "privs s' = privs s"
    "queues s' q = Some (x\<lparr>q_tasks := ts\<rparr>) \<or>
         queues s' q = Some (cancel_rest x) \<and> (pub 0 = 0 \<or> pub 1 = 0)"
    unfolding s0 by (auto simp: cancel_rest_def)
qed

text \<open>The end of a construction puts the device in the table of known devices, or deletes it.\<close>

lemma queue_end_frame:
  assumes inv: "upnp_inv s" and q: "queues s q = Some x" "q_finally x = Prv_device_chain_end"
    and pr: "privs s (q_user_data x) = Some pr"
    and run: "upnp_step gl (Ev_queue_end q) s = Some s'"
  shows "queues s' q = None" and "map_of (device_uc_map s') (ct_udn pr) = None"
    and "if q_cancelled x
         then map_of (device_udn_map s') (ct_udn pr) = None \<and> devices s' (ct_device pr) = None
         else map_of (device_udn_map s') (ct_udn pr) = Some (ct_device pr)"
proof -
  note r = inv_reg [OF inv]
  have c: "map_of (device_uc_map s) (ct_udn pr) = Some (q_user_data x)"
    using reg_queue [OF r q(1)] q(2) pr by (auto simp: queue_ok_def)
  have U: "map_of (device_udn_map s) (ct_udn pr) = None"
    using reg_udn [OF r, of "ct_udn pr"] c by (cases "map_of (device_udn_map s) (ct_udn pr)") auto
  obtain d where d: "devices s (ct_device pr) = Some d" using reg_uc [OF r c] pr by auto
  note defs = upnp_step.simps q run_finally_def prv_device_chain_end_def pr d udn_map_insert_def U free_device_def
    prv_device_new_free_def uc_map_remove_def Let_def
  show "queues s' q = None" using run by (auto simp: upnp_step.simps q split: bind_splits)
  show "map_of (device_uc_map s') (ct_udn pr) = None"
    using run by (auto simp: defs simp del: emit.simps split: if_splits)
  show "if q_cancelled x
        then map_of (device_udn_map s') (ct_udn pr) = None \<and> devices s' (ct_device pr) = None
        else map_of (device_udn_map s') (ct_udn pr) = Some (ct_device pr)"
    using run U by (auto simp: defs simp del: emit.simps split: if_splits)
qed

lemma drain_construction:
  assumes "upnp_reach gl s" and "queues s q = Some x" and "q_finally x = Prv_device_chain_end"
    and "privs s (q_user_data x) = Some pr"
  shows "\<exists>s'. drain gl pub (Suc (length (q_tasks x))) q s = Some s' \<and> upnp_reach gl s' \<and> queues s' q = None \<and>
     map_of (device_uc_map s') (ct_udn pr) = None \<and>
     (map_of (device_udn_map s') (ct_udn pr) = Some (ct_device pr) \<or>
      map_of (device_udn_map s') (ct_udn pr) = None \<and> devices s' (ct_device pr) = None) \<and>
     (\<not> q_cancelled x \<and> pub 0 \<noteq> 0 \<and> pub 1 \<noteq> 0 \<longrightarrow>
        map_of (device_udn_map s') (ct_udn pr) = Some (ct_device pr)) \<and>
     (q_cancelled x \<longrightarrow> devices s' (ct_device pr) = None)"
  using assms
proof (induction "length (q_tasks x)" arbitrary: s x)
  case 0
  note inv = reach_inv [OF 0(2)]
  have e: "queue_event pub q x = Ev_queue_end q" using 0(1) by (simp add: queue_event_def)
  obtain s' where run: "upnp_step gl (Ev_queue_end q) s = Some s'"
    using queue_end_inv [OF inv 0(3)] by blast
  have "upnp_reach gl s'"
    using reach_step [OF 0(2) queue_event_possible [OF 0(3), of gl pub], of s'] run e by simp
  with queue_end_frame [OF inv 0(3-5) run] show ?case
    using 0(1) by (cases "q_cancelled x") (simp_all add: 0(3) e run)
next
  case (Suc n)
  note inv = reach_inv [OF Suc(3)]
  obtain t ts where t: "q_tasks x = t # ts" using Suc(2) by (cases "q_tasks x") auto
  have e: "queue_event pub q x = Ev_run_task q pub" by (simp add: queue_event_def t)
  obtain s1 where run: "upnp_step gl (Ev_run_task q pub) s = Some s1"
    using run_task_inv [OF inv Suc(4) t] by blast
  have r1: "upnp_reach gl s1"
    using reach_step [OF Suc(3) queue_event_possible [OF Suc(4), of gl pub], of s1] run e by simp
  have nc: "\<not> q_cancelled x"
    using reg_queue [OF inv_reg [OF inv] Suc(4)] t by (auto simp: queue_ok_def)
  note fr = run_task_frame [OF inv Suc(4) t run]
  from fr(4) show ?case
  proof
    assume q1: "queues s1 q = Some (x\<lparr>q_tasks := ts\<rparr>)"
    have "n = length (q_tasks (x\<lparr>q_tasks := ts\<rparr>))" using Suc(2) t by simp
    from Suc(1) [OF this r1 q1] Suc(5,6) show ?thesis
      by (simp add: Suc(4) e run fr(3) t)
  next
    assume "queues s1 q = Some (cancel_rest x) \<and> (pub 0 = 0 \<or> pub 1 = 0)"
    then have q1: "queues s1 q = Some (cancel_rest x)" and fail: "pub 0 = 0 \<or> pub 1 = 0" by auto
    have e1: "queue_event pub q (cancel_rest x) = Ev_queue_end q"
      by (simp add: queue_event_def cancel_rest_def)
    obtain s2 where run2: "upnp_step gl (Ev_queue_end q) s1 = Some s2"
      using queue_end_inv [OF reach_inv [OF r1] q1] by blast
    have r2: "upnp_reach gl s2"
      using reach_step [OF r1 queue_event_possible [OF q1, of gl pub], of s2] run2 e1 by simp
    have "q_finally (cancel_rest x) = Prv_device_chain_end" "q_user_data (cancel_rest x) = q_user_data x"
      "q_cancelled (cancel_rest x)" using Suc(5) by (simp_all add: cancel_rest_def)
    with queue_end_frame [OF reach_inv [OF r1] q1 _ _ run2] Suc(6)
    have gone: "queues s2 q = None" "map_of (device_uc_map s2) (ct_udn pr) = None"
      "map_of (device_udn_map s2) (ct_udn pr) = None" "devices s2 (ct_device pr) = None"
      by (simp_all add: fr(3))
    have "drain gl pub n q s2 = Some s2" by (cases n) (simp_all add: gone)
    then show ?thesis
      using gone r2 fail nc by (simp add: Suc(4) e run Suc(2) [symmetric] q1 e1 run2)
  qed
qed

text \<open>C20: Every construction ends. The task processor works the queue of a device under
  construction off in a bounded number of steps, as many as it has tasks and one more; then the
  queue is gone and the device is not under construction any more. It is known under its UDN if the
  queue was not cancelled and both interfaces could be published; otherwise it is known or it has
  been deleted, never in between, and it is deleted if the queue was cancelled.\<close>

theorem construction_ends:
  assumes "upnp_reach gl s" and "map_of (device_uc_map s) u = Some p" and "privs s p = Some pr"
  shows "\<exists>x s'. queues s (ct_queue_id pr) = Some x \<and>
     drain gl pub (Suc (length (q_tasks x))) (ct_queue_id pr) s = Some s' \<and> upnp_reach gl s' \<and>
     queues s' (ct_queue_id pr) = None \<and> map_of (device_uc_map s') u = None \<and>
     (map_of (device_udn_map s') u = Some (ct_device pr) \<or>
      map_of (device_udn_map s') u = None \<and> devices s' (ct_device pr) = None) \<and>
     (\<not> q_cancelled x \<and> pub 0 \<noteq> 0 \<and> pub 1 \<noteq> 0 \<longrightarrow>
        map_of (device_udn_map s') u = Some (ct_device pr)) \<and>
     (q_cancelled x \<longrightarrow> devices s' (ct_device pr) = None)"
proof -
  obtain x where x: "queues s (ct_queue_id pr) = Some x" "q_user_data x = p" "q_finally x = Prv_device_chain_end"
    and u: "ct_udn pr = u"
    using reg_uc_queue [OF inv_reg [OF reach_inv [OF assms(1)]] assms(2,3)] by blast
  show ?thesis
    using drain_construction [OF assms(1) x(1,3), of pr pub] assms(3) x(1,2) u by blast
qed

definition sample_building :: dld_upnp where
  "sample_building = the (run_events glib_ref [Ev_available sample_root (Some ''192.168.1.2'')] dld_upnp_new)"

lemma sample_building_reach: "upnp_reach glib_ref sample_building"
proof -
  have "run_events glib_ref [Ev_available sample_root (Some ''192.168.1.2'')] dld_upnp_new \<noteq> None" by code_simp
  then have "run_events glib_ref [Ev_available sample_root (Some ''192.168.1.2'')] dld_upnp_new =
      Some sample_building" by (simp add: sample_building_def)
  then show ?thesis by (rule run_events_reach [OF _ reach_new])
qed

theorem construction_ends_witness:
  "\<exists>s'. drain glib_ref published 3 2 sample_building = Some s' \<and>
     map_of (device_udn_map s') ''uuid:1'' = Some 3"
proof -
  define pr where "pr = \<lparr>ct_udn = ''uuid:1'', ct_ip_address = ''192.168.1.2'', ct_device = 3, ct_queue_id = 2\<rparr>"
  have c: "map_of (device_uc_map sample_building) ''uuid:1'' = Some 1" by code_simp
  have p: "privs sample_building 1 = Some pr" unfolding pr_def by code_simp
  have q: "map_option (\<lambda>x. (length (q_tasks x), q_cancelled x)) (queues sample_building 2) = Some (2, False)"
    by code_simp
  have prs: "ct_queue_id pr = 2" "ct_device pr = 3" by (simp_all add: pr_def)
  have "published 0 \<noteq> 0" "published 1 \<noteq> 0" by (simp_all add: published_def)
  with construction_ends [OF sample_building_reach c p, of published, unfolded prs] obtain x s' where
    "queues sample_building 2 = Some x"
    and "drain glib_ref published (Suc (length (q_tasks x))) 2 sample_building = Some s'"
    and "\<not> q_cancelled x \<longrightarrow> map_of (device_udn_map s') ''uuid:1'' = Some 3"
    by blast
  with q show ?thesis by (simp add: numeral_3_eq_3 del: drain.simps)
qed

subsection \<open>The end of a known device\<close>

lemma emit_calls: "calls (emit eff s) = calls s @ eff"
proof (induction eff arbitrary: s)
  case (Cons e eff)
  have "calls (env_step e s) = calls s" by (cases e) (simp_all add: env_step_def upd_queue_def)
  then show ?case by (simp add: Cons.IH)
qed simp

text \<open>C21: A known device that loses its only context is announced as lost, the method calls that
  wait for it are dropped, its timers are removed, its interfaces are unpublished, and it is freed
  and forgotten.\<close>

theorem last_context_lost:
  assumes "upnp_reach gl s" and "map_of (device_udn_map s) u = Some a" and "devices s a = Some d"
    and "map ctx_ip_address (dev_contexts d) = [ip]"
  shows "\<exists>s'. prv_remove_device ip u s = Some s' \<and>
     device_udn_map s' = AList.delete u (device_udn_map s) \<and> devices s' = (devices s)(a := None) \<and>
     calls s' = calls s @ prv_dld_context_delete (dev_contexts d ! 0) @
       [Notify DLEYNA_DIAGNOSTICS_OBJECT DLEYNA_DIAGNOSTICS_INTERFACE_MANAGER DLD_INTERFACE_LOST_DEVICE
          (GTuple [GObjPath (dev_path d)]),
        Remove_queues_for_sink (dev_path d)] @ dld_device_delete (remove_context 0 d) \<and>
     (\<forall>i cb. (i, cb) \<in> set (sources s') \<longrightarrow> (i, cb) \<notin> held a d)"
proof -
  note inv = reach_inv [OF assms(1)]
  obtain c where c: "dev_contexts d = [c]" "ctx_ip_address c = ip"
    using assms(4) by (cases "dev_contexts d") auto
  have U: "map_of (device_udn_map s) u = Some a" by (rule assms(2))
  have lk: "lookup_device u s = Some (Some (a, None))" by (simp add: lookup_device_def U)
  have i: "find_index (\<lambda>c. ctx_ip_address c = ip) (dev_contexts d) = Some 0" by (simp add: c)
  let ?d1 = "remove_context 0 d"
  have d1: "dev_contexts ?d1 = []" "dev_path ?d1 = dev_path d" by (simp_all add: remove_context_def remove_index_def c)
  have "\<exists>s'. prv_remove_device ip u s = Some s' \<and> upnp_inv s'" by (rule remove_device_inv [OF inv])
  then obtain s' where run: "prv_remove_device ip u s = Some s'" and inv': "upnp_inv s'" by blast
  have s': "s' = (emit (dld_device_delete ?d1) ((emit (prv_lost_diagnostics_device (dev_path d))
       (emit (prv_dld_context_delete c) (set_device a ?d1 s)))
         \<lparr>device_udn_map := AList.delete u (device_udn_map s), devices := (devices s)(a := None)\<rparr>))"
    using run by (simp add: prv_remove_device_def lk assms(3) i c d1 Let_def udn_map_remove_def U free_device_def
        set_device_def del: emit.simps)
  have "(i, cb) \<notin> held a d" if "(i, cb) \<in> set (sources s')" for i cb
  proof -
    have "map_of (sources s') i = Some cb"
      using inv' that by (auto simp: upnp_inv_except_def sources_ok_def)
    from source_owner [OF inv' this] show ?thesis by (auto simp: s' held_iff split: timer_cb.splits)
  qed
  then show ?thesis
    unfolding run option.inject
    by (intro exI [of _ s'] exI conjI)
      (simp_all add: s' emit_calls set_device_def prv_lost_diagnostics_device_def c del: emit.simps)
qed

theorem last_context_lost_witness:
  "\<exists>s'. prv_remove_device ''192.168.1.2'' ''uuid:1'' sample_state = Some s' \<and>
     devices s' = (devices sample_state)(3 := None)"
proof -
  have u: "map_of (device_udn_map sample_state) ''uuid:1'' = Some 3" by code_simp
  have "map_option (\<lambda>d. map ctx_ip_address (dev_contexts d)) (devices sample_state 3) = Some [''192.168.1.2'']"
    by code_simp
  then obtain d where d: "devices sample_state 3 = Some d" "map ctx_ip_address (dev_contexts d) = [''192.168.1.2'']"
    by auto
  from last_context_lost [OF sample_state_reach u d] show ?thesis by blast
qed

subsection \<open>Two runs that lose or double a subscription\<close>

definition sample_on :: "proxy \<Rightarrow> device_info" where
  "sample_on b = DeviceInfo (sample_descr\<lparr>de_udn := Some ''uuid:1''\<rparr>) (Some b) []"

text \<open>
  The interface through which a device is constructed disappears after the subscription step: the
  construction goes on with the next step on the other interface, on which nothing subscribes, and
  no timer is started. The device is announced and never sends an event.
\<close>

definition moved_run :: "upnp_event list" where
  "moved_run =
     [Ev_available (sample_on 7) (Some ''10.0.0.1''), Ev_run_task 2 published,
      Ev_available (sample_on 8) (Some ''10.0.0.2''), Ev_unavailable (sample_on 7) (Some ''10.0.0.1''),
      Ev_queue_end 2, Ev_run_task 7 published, Ev_queue_end 7]"

lemma moved_construction_unsubscribed:
  "(case run_events glib_ref moved_run dld_upnp_new of
      None \<Rightarrow> False
    | Some s \<Rightarrow> (case devices s 3 of
        None \<Rightarrow> False
      | Some d \<Rightarrow> map_of (device_udn_map s) ''uuid:1'' = Some 3 \<and> length (dev_contexts d) = 1 \<and>
          \<not> bms_subscribed (dev_contexts d ! 0) \<and> dev_timeout_id d = 0 \<and> sources s = []))"
  by code_simp

text \<open>
  A context is added while the timer that moves a subscription is running: the device is subscribed
  at once, and again when the timer fires, so that every event is handled twice.
\<close>

definition waiting_device :: dld_device where
  "waiting_device = (sample_device [(sample_context 2 ''10.0.0.2'')\<lparr>bms_subscribed := False\<rparr>])\<lparr>dev_timeout_id := 1\<rparr>"

definition doubled_calls :: "effect list option" where
  "doubled_calls =
     do {
       (d1, eff1) \<leftarrow> dld_device_append_new_context 3 ''10.0.0.3'' sample_info (Some 9) waiting_device;
       (d2, eff2) \<leftarrow> dld_device_subscribe_to_service_changes (d1\<lparr>dev_timeout_id := 0\<rparr>);
       Some (eff1 @ eff2)
     }"

lemma timer_subscribes_twice:
  "map_option (filter (\<lambda>e. case e of
      Add_notify (Some p) _ Bm_test_ids_cb _ \<Rightarrow> p = 7
    | Remove_notify (Some p) _ Bm_test_ids_cb _ \<Rightarrow> p = 7
    | _ \<Rightarrow> False)) doubled_calls =
   Some [Add_notify (Some 7) ''TestIDs'' Bm_test_ids_cb 1, Add_notify (Some 7) ''TestIDs'' Bm_test_ids_cb 1]"
  by code_simp

end
