(* ===== verification/Upnp_Tasks.thy ===== *)
theory Upnp_Tasks
  imports Upnp_Life Async_Run
begin

section \<open>upnp.c: method calls on a device, by its path\<close>

text \<open>
  What the method calls on devices do in a state of the registry that the service can be in: a path
  that names no device is an error, every other call is started on its device and is answered once,
  and the deletion of the registry.
\<close>

subsection \<open>The contract of a handler\<close>

text \<open>
  A handler starts a task well, as \<open>Async_Run\<close> demands, and leaves the contexts and the identity of
  the device alone.
\<close>

locale device_task =
  fixes f :: device_handler
  assumes task_starts: "started_task m t a \<Longrightarrow> f d t = Some (d', t', eff) \<Longrightarrow> well_started m t' eff"
    and task_keeps: "f d t = Some (d', t', eff) \<Longrightarrow>
      dev_contexts d' = dev_contexts d \<and> dev_ref d' = dev_ref d \<and> dev_path d' = dev_path d \<and>
      dev_timeout_id d' = dev_timeout_id d \<and> length (dev_ids d') = length (dev_ids d)"
begin

text \<open>On a task whose path is not known the operation records the error.\<close>

lemma unknown_device:
  assumes inv: "upnp_inv s" and t: "task_path t = Some path" "task_async t = Some cb"
    and unknown: "\<forall>u a d. map_of (device_udn_map s) u = Some a \<longrightarrow> devices s a = Some d \<longrightarrow> dev_path d \<noteq> path"
  shows "on_checked_device f s t = Some (s,
     set_error DLEYNA_ERROR_OBJECT_NOT_FOUND ''Cannot locate a device for the specified object''
       (t\<lparr>task_async := Some (cb\<lparr>async_cb := True\<rparr>)\<rparr>), [Idle_add])"
  using inv t
proof (cases rule: checked_device)
  case (1 d u)
  then show ?thesis using unknown by (auto simp: usable_def)
qed (simp add: on_checked_device_def)

text \<open>The operation starts the task, whether the device is known or not, and keeps the invariant.\<close>

lemma operation_starts:
  assumes inv: "upnp_inv s" and st: "started_task m t cb" and path: "task_path t = Some path"
    and run: "on_checked_device f s t = Some (s', t', eff)"
  shows "well_started m t' eff" and "upnp_inv s'"
proof -
  have t: "task_path t = Some path" "task_async t = Some cb" using st path by (simp_all add: started_task_def)
  have "well_started m t' eff \<and> upnp_inv s'"
    using inv t
  proof (cases rule: checked_device)
    case (1 d u)
    then obtain d' where g: "f d t = Some (d', t', eff)" and s': "s' = set_device (dev_ref d) d' s"
      using run by (auto simp: on_checked_device_def split: bind_splits)
    have "upnp_inv (emit [] (set_device (dev_ref d) d' s))"
      by (rule inv_other_fields [OF inv, of _ d]) (use 1(2) task_keeps [OF g] in \<open>simp_all add: usable_def\<close>)
    with task_starts [OF st g] show ?thesis by (simp add: s')
  next
    case 2
    with run have "s' = s" "eff = [Idle_add]"
      "t' = set_error DLEYNA_ERROR_OBJECT_NOT_FOUND ''Cannot locate a device for the specified object''
         (t\<lparr>task_async := Some (cb\<lparr>async_cb := True\<rparr>)\<rparr>)"
      by (simp_all add: on_checked_device_def)
    with inv st show ?thesis
      by (simp add: well_started_def started_task_def handler_of_def set_error_def upd_async_def)
  qed
  then show "well_started m t' eff" "upnp_inv s'" by simp_all
qed

text \<open>The operation is defined if the handler is, on the device that the path names.\<close>

lemma operation_defined:
  assumes inv: "upnp_inv s" and t: "task_path t = Some path" "task_async t = Some cb"
    and f: "\<And>d. usable s d \<Longrightarrow> wanted_device t s = Some d \<Longrightarrow> f d t \<noteq> None"
  shows "on_checked_device f s t \<noteq> None"
  using inv t
proof (cases rule: checked_device)
  case (1 d u)
  obtain x where "f d t = Some x" using f [OF 1(2) checked_wanted [OF t(1) 1(1)]] by blast
  with 1(1) show ?thesis by (simp add: on_checked_device_def split: prod.splits)
qed (simp add: on_checked_device_def)

end

lemma keep_device_task:
  assumes "\<And>d. async_start (g d)"
  shows "device_task (keep_device g)"
proof
  fix m t a d d' t' eff assume "started_task m t a" "keep_device g d t = Some (d', t', eff)"
  then show "well_started m t' eff" using async_start.starts [OF assms] by (auto simp: keep_device_def)
qed (auto simp: keep_device_def)

interpretation prop_call: device_task "keep_device dld_device_get_prop"
  by (rule keep_device_task) (rule getting_prop.async_start_axioms)

interpretation all_props_call: device_task "keep_device dld_device_get_all_props"
  by (rule keep_device_task) (rule getting_all_props.async_start_axioms)

interpretation action_call: device_task "keep_device (device_action type)" for type
  by (rule keep_device_task) (rule acting.async_start_axioms)

interpretation icon_call: device_task "dld_device_get_icon gl msg_new" for gl msg_new
proof
  fix m t a d d' t' eff assume "started_task m t a" "dld_device_get_icon gl msg_new d t = Some (d', t', eff)"
  then show "well_started m t' eff" using getting_icon.starts [of m t a gl msg_new d t' eff] by simp
qed (simp add: get_icon_frame)

text \<open>The operations that start an action, by the type of the task.\<close>

definition upnp_action ::
  "dld_task_type \<Rightarrow> dld_upnp \<Rightarrow> dld_task \<Rightarrow> (dld_upnp \<times> dld_task \<times> effect list) option" where
  "upnp_action type s t =
     (case type of
        DLD_TASK_GET_TEST_INFO \<Rightarrow> dld_upnp_get_test_info s t
      | DLD_TASK_CANCEL_TEST \<Rightarrow> dld_upnp_cancel_test s t
      | DLD_TASK_PING \<Rightarrow> dld_upnp_ping s t
      | DLD_TASK_GET_PING_RESULT \<Rightarrow> dld_upnp_get_ping_result s t
      | DLD_TASK_NSLOOKUP \<Rightarrow> dld_upnp_nslookup s t
      | DLD_TASK_GET_NSLOOKUP_RESULT \<Rightarrow> dld_upnp_get_nslookup_result s t
      | DLD_TASK_TRACEROUTE \<Rightarrow> dld_upnp_traceroute s t
      | DLD_TASK_GET_TRACEROUTE_RESULT \<Rightarrow> dld_upnp_get_traceroute_result s t
      | _ \<Rightarrow> None)"

definition is_action :: "dld_task_type \<Rightarrow> bool" where
  "is_action type \<longleftrightarrow> type \<in> {DLD_TASK_GET_TEST_INFO, DLD_TASK_CANCEL_TEST, DLD_TASK_PING,
     DLD_TASK_GET_PING_RESULT, DLD_TASK_NSLOOKUP, DLD_TASK_GET_NSLOOKUP_RESULT, DLD_TASK_TRACEROUTE,
     DLD_TASK_GET_TRACEROUTE_RESULT}"

lemma upnp_action_eq:
  "is_action type \<Longrightarrow> upnp_action type s t = on_checked_device (keep_device (device_action type)) s t"
  by (auto simp: is_action_def upnp_action_def upnp_op_defs on_checked_device_def keep_device_def
      device_action_def cong: option.case_cong)

lemma action_new_type: "action_task_new gl type m path params = Some t \<Longrightarrow> is_action type"
  by (auto simp: action_task_new_def is_action_def split: dld_task_type.splits)

lemma action_handler_defined:
  assumes new: "action_task_new gl type m path params = Some t" and d: "usable s d"
  shows "device_action type d (new_cancellable t) \<noteq> None"
proof -
  obtain a where st: "started_task m (new_cancellable t) a" using action_task_started(1) [OF new] ..
  have "begin_action name args d (new_cancellable t) \<noteq> None" for name args
    using d begin_action_defined [OF st] by (auto simp: usable_def)
  with new show ?thesis
    by (cases type)
      (auto simp: action_task_new_def constructor_defs new_cancellable_def device_action_def
        dld_device_get_test_info_def dld_device_cancel_test_def dld_device_ping_def
        dld_device_get_ping_result_def dld_device_nslookup_def dld_device_get_nslookup_result_def
        dld_device_traceroute_def dld_device_get_traceroute_result_def prv_generic_test_action_def
        split: gvariant.splits list.splits)
qed

subsection \<open>Properties\<close>

text \<open>A test action that a client calls on any path, in any state the service can be in, is
  started without undefined behaviour and answered exactly once, whatever happens afterwards. If the
  path, stripped of white space, is that of a known device, the action is begun on the service of the
  context in use; otherwise the call is answered with the error OBJECT_NOT_FOUND. The registry does
  not change.\<close>

theorem action_call_started:
  assumes "upnp_reach gl s" and "action_task_new gl type m path params = Some t"
  shows "\<exists>t' eff. upnp_action type s (new_cancellable t) = Some (s, t', eff) \<and>
     async_reach gl m (start_run t' eff) \<and>
     ((\<exists>u d i p name args. map_of (device_udn_map s) u = Some (dev_ref d) \<and>
         devices s (dev_ref d) = Some d \<and> dev_path d = g_strstrip gl path \<and>
         dld_device_get_context d = Some i \<and> bms_proxy (dev_contexts d ! i) = Some p \<and>
         eff = [Cancellable_connect, Begin_action (Some p) name args]) \<or>
      (\<forall>u a d. map_of (device_udn_map s) u = Some a \<longrightarrow> devices s a = Some d \<longrightarrow>
         dev_path d \<noteq> g_strstrip gl path) \<and>
      eff = [Idle_add] \<and>
      map_option snd (dld_async_task_complete t') =
        Some [Return_error m (GError DLEYNA_ERROR_OBJECT_NOT_FOUND
                ''Cannot locate a device for the specified object''), Task_completed])"
proof -
  note inv = reach_inv [OF assms(1)]
  obtain a where st: "started_task m (new_cancellable t) a" using action_task_started(1) [OF assms(2)] ..
  have path: "task_path (new_cancellable t) = Some (g_strstrip gl path)"
    using action_task_started(4) [OF assms(2)] by (simp add: new_cancellable_def)
  have a: "task_async (new_cancellable t) = Some a" using st by (simp add: started_task_def)
  note op = upnp_action_eq [OF action_new_type [OF assms(2)]]
  from inv path a show ?thesis
  proof (cases rule: checked_device)
    case (1 d u)
    obtain t' eff where g: "device_action type d (new_cancellable t) = Some (t', eff)"
      using action_handler_defined [OF assms(2) 1(2)] by auto
    obtain name args where "begin_action name args d (new_cancellable t) = Some (t', eff)"
      using device_action_begins [OF g] .
    then obtain i p where b: "dld_device_get_context d = Some i" "bms_proxy (dev_contexts d ! i) = Some p"
      "eff = [Cancellable_connect, Begin_action (Some p) name args]"
      using st by (rule begin_actionE)
    have d: "devices s (dev_ref d) = Some d" using 1(2) by (simp add: usable_def)
    then have "upnp_action type s (new_cancellable t) = Some (s, t', eff)"
      by (simp add: op on_checked_device_def 1(1) keep_device_def g set_device_def fun_upd_idem)
    with acting.handler_reach [OF st g] 1(3,4) d b show ?thesis by blast
  next
    case 2
    define t' where "t' = set_error DLEYNA_ERROR_OBJECT_NOT_FOUND ''Cannot locate a device for the specified object''
      ((new_cancellable t)\<lparr>task_async := Some (a\<lparr>async_cb := True\<rparr>)\<rparr>)"
    have run: "upnp_action type s (new_cancellable t) = Some (s, t', [Idle_add])"
      using action_call.unknown_device [OF inv path a 2(2)] by (simp add: op t'_def)
    then have "async_reach gl m (start_run t' [Idle_add])"
      using action_call.operation_starts(1) [OF inv st path] by (auto simp: op intro: async_reach.start)
    moreover have "map_option snd (dld_async_task_complete t') =
        Some [Return_error m (GError DLEYNA_ERROR_OBJECT_NOT_FOUND
                ''Cannot locate a device for the specified object''), Task_completed]"
      using st by (simp add: t'_def set_error_def upd_async_def started_task_def dld_async_task_complete_def
          prv_async_task_complete_def dld_task_fail_def)
    ultimately show ?thesis using run 2(2) by blast
  qed
qed

theorem action_call_started_witness:
  "\<exists>t t' eff. sample_ping = Some t \<and>
     upnp_action DLD_TASK_PING sample_state (new_cancellable t) = Some (sample_state, t', eff) \<and>
     async_reach glib_ref 6 (start_run t' eff)"
proof -
  obtain t where t: "sample_ping = Some t" by (simp add: sample_ping_eq)
  from action_call_started [OF sample_state_reach t [unfolded sample_ping_def]] t show ?thesis by blast
qed

text \<open>C33: A method call whose path names no known device is answered with the error
  OBJECT_NOT_FOUND by every one of the eleven operations, from one idle handler, and changes neither
  the registry nor a device.\<close>

theorem unknown_path_error:
  assumes "upnp_reach gl s" and "started_task m t a" and "task_path t = Some path"
    and "\<forall>u b d. map_of (device_udn_map s) u = Some b \<longrightarrow> devices s b = Some d \<longrightarrow> dev_path d \<noteq> path"
  shows "\<exists>t' t''. dld_async_task_complete t' =
       Some (t'', [Return_error m (GError DLEYNA_ERROR_OBJECT_NOT_FOUND
                     ''Cannot locate a device for the specified object''), Task_completed]) \<and>
     (\<forall>op \<in> set [dld_upnp_get_prop, dld_upnp_get_all_props, dld_upnp_get_icon gl msg_new,
        dld_upnp_get_test_info, dld_upnp_cancel_test, dld_upnp_ping, dld_upnp_get_ping_result,
        dld_upnp_nslookup, dld_upnp_get_nslookup_result, dld_upnp_traceroute, dld_upnp_get_traceroute_result].
        op s t = Some (s, t', [Idle_add]))"
proof -
  let ?t = "set_error DLEYNA_ERROR_OBJECT_NOT_FOUND ''Cannot locate a device for the specified object''
      (t\<lparr>task_async := Some (a\<lparr>async_cb := True\<rparr>)\<rparr>)"
  note inv = reach_inv [OF assms(1)]
  have a: "task_async t = Some a" using assms(2) by (simp add: started_task_def)
  have unknown: "on_checked_device f s t = Some (s, ?t, [Idle_add])" for f
    using inv assms(3) a
  proof (cases rule: checked_device)
    case (1 d u)
    then show ?thesis using assms(4) by (auto simp: usable_def)
  qed (simp add: on_checked_device_def)
  obtain t'' where "dld_async_task_complete ?t = Some (t'', [Return_error m (GError DLEYNA_ERROR_OBJECT_NOT_FOUND
      ''Cannot locate a device for the specified object''), Task_completed])"
    using async_complete_error [of ?t "a\<lparr>async_cb := True, async_error := Some (GError
      DLEYNA_ERROR_OBJECT_NOT_FOUND ''Cannot locate a device for the specified object'')\<rparr>"] assms(2)
    by (auto simp: set_error_def upd_async_def started_task_def)
  with unknown show ?thesis unfolding upnp_op_defs by (intro exI [of _ ?t] exI [of _ t'']) simp
qed

theorem unknown_path_error_witness:
  "\<exists>t t'. sample_ping = Some t \<and>
     dld_upnp_ping sample_state (new_cancellable t) = Some (sample_state, t', [Idle_add])"
proof -
  obtain t where t: "sample_ping = Some t" by (simp add: sample_ping_eq)
  then obtain a where st: "started_task 6 (new_cancellable t) a"
    using action_task_started(1) unfolding sample_ping_def by blast
  have path: "task_path (new_cancellable t) = Some (g_strstrip glib_ref ''/p/0'')"
    using action_task_started(4) [OF t [unfolded sample_ping_def]] by (simp add: new_cancellable_def)
  have paths: "list_all (\<lambda>(u, b). map_option dev_path (devices sample_state b) \<noteq> Some (g_strstrip glib_ref ''/p/0''))
      (device_udn_map sample_state)" by code_simp
  have "\<forall>u b d. map_of (device_udn_map sample_state) u = Some b \<longrightarrow> devices sample_state b = Some d \<longrightarrow>
      dev_path d \<noteq> g_strstrip glib_ref ''/p/0''"
    using paths by (fastforce simp: list_all_iff dest: map_of_SomeD)
  from unknown_path_error [OF sample_state_reach st path this, of "\<lambda>_. True"] t show ?thesis by auto
qed

subsection \<open>The deletion of the registry\<close>

lemma free_devices_run:
  assumes "distinct as" and "set as \<subseteq> dom (devices s)"
  shows "\<exists>s'. free_devices as s = Some s' \<and> device_udn_map s' = device_udn_map s \<and>
     device_uc_map s' = device_uc_map s \<and> devices s' = (devices s) |` (- set as) \<and>
     calls s' = calls s @ concat (map (\<lambda>a. dld_device_delete (the (devices s a))) as)"
  using assms
proof (induction as arbitrary: s)
  case (Cons a as)
  then obtain d where d: "devices s a = Some d" by auto
  let ?s1 = "emit (dld_device_delete d) (s\<lparr>devices := (devices s)(a := None)\<rparr>)"
  have "set as \<subseteq> dom (devices ?s1)" using Cons.prems by auto
  have "distinct as" using Cons.prems(1) by simp
  from Cons.IH [OF this \<open>set as \<subseteq> dom (devices ?s1)\<close>] obtain s' where "free_devices as ?s1 = Some s'"
    "device_udn_map s' = device_udn_map ?s1" "device_uc_map s' = device_uc_map ?s1"
    "devices s' = (devices ?s1) |` (- set as)"
    "calls s' = calls ?s1 @ concat (map (\<lambda>a. dld_device_delete (the (devices ?s1 a))) as)"
    by blast
  moreover have "map (\<lambda>b. dld_device_delete (the (devices ?s1 b))) as = map (\<lambda>b. dld_device_delete (the (devices s b))) as"
    using Cons.prems(1) by auto
  moreover have "(devices ?s1) |` (- set as) = (devices s) |` (- set (a # as))"
    by (auto simp: restrict_map_def fun_eq_iff)
  ultimately show ?case
    by (intro exI [of _ s']) (simp only: free_devices.simps free_device_def d bind.bind_lunit option.case,
      simp add: emit_calls d)
qed (simp add: restrict_map_def)

text \<open>The addresses of the known devices are distinct and live.\<close>

lemma known_addresses:
  assumes inv: "upnp_inv s"
  shows "distinct (map snd (device_udn_map s))" and "set (map snd (device_udn_map s)) \<subseteq> dom (devices s)"
    and "(u, a) \<in> set (device_udn_map s) \<longleftrightarrow> map_of (device_udn_map s) u = Some a"
proof -
  note r = inv_reg [OF inv]
  show key: "(u, a) \<in> set (device_udn_map s) \<longleftrightarrow> map_of (device_udn_map s) u = Some a" for u a
    using inv by (simp add: upnp_inv_except_def)
  show "set (map snd (device_udn_map s)) \<subseteq> dom (devices s)"
  proof
    fix a assume "a \<in> set (map snd (device_udn_map s))"
    then obtain u where "map_of (device_udn_map s) u = Some a" using key by auto
    then show "a \<in> dom (devices s)" using reg_udn [OF r] by blast
  qed
  have "inj_on snd (set (device_udn_map s))" using key reg_udn_inj [OF r] by (fastforce intro: inj_onI)
  then show "distinct (map snd (device_udn_map s))" using inv by (simp add: distinct_map upnp_inv_except_def)
qed

lemma delete_run:
  assumes inv: "upnp_inv s"
  shows "\<exists>s'. dld_upnp_delete s = Some s' \<and> device_udn_map s' = [] \<and> device_uc_map s' = [] \<and>
     devices s' = (devices s) |` (- set (map snd (device_udn_map s))) \<and>
     calls s' = calls s @ Other_call ''g_object_unref'' #
       concat (map (\<lambda>a. dld_device_delete (the (devices s a))) (map snd (device_udn_map s)))"
  using free_devices_run [of "map snd (device_udn_map s)" "emit [Other_call ''g_object_unref''] s"]
    known_addresses(1,2) [OF inv]
  by (auto simp: dld_upnp_delete_def emit_calls simp del: emit.simps)

text \<open>C39: Deleting the registry is defined in every state that it can be in. It empties both tables and
  frees exactly the known devices: those still under construction stay allocated although no table
  refers to them any more.\<close>

theorem delete_frees_known_devices:
  assumes "upnp_reach gl s"
  shows "\<exists>s'. dld_upnp_delete s = Some s' \<and> device_udn_map s' = [] \<and> device_uc_map s' = [] \<and>
     (\<forall>a. devices s' a \<noteq> None \<longleftrightarrow>
        (\<exists>u p pr. map_of (device_uc_map s) u = Some p \<and> privs s p = Some pr \<and> ct_device pr = a))"
proof -
  note inv = reach_inv [OF assms] and r = inv_reg [OF reach_inv [OF assms]]
  note key = known_addresses(3) [OF inv]
  let ?as = "map snd (device_udn_map s)"
  obtain s' where s': "dld_upnp_delete s = Some s'" "device_udn_map s' = []" "device_uc_map s' = []"
    "devices s' = (devices s) |` (- set ?as)"
    using delete_run [OF inv] by blast
  have under: "a \<in> dom (devices s) \<and> a \<notin> set ?as \<longleftrightarrow>
      (\<exists>u p pr. map_of (device_uc_map s) u = Some p \<and> privs s p = Some pr \<and> ct_device pr = a)" for a
  proof
    assume a: "a \<in> dom (devices s) \<and> a \<notin> set ?as"
    from r a [THEN conjunct1] show "\<exists>u p pr. map_of (device_uc_map s) u = Some p \<and> privs s p = Some pr \<and> ct_device pr = a"
    proof (cases rule: reg_device)
      case (1 u)
      then show ?thesis using a key by force
    qed blast
  next
    assume "\<exists>u p pr. map_of (device_uc_map s) u = Some p \<and> privs s p = Some pr \<and> ct_device pr = a"
    then obtain u p pr where c: "map_of (device_uc_map s) u = Some p" "privs s p = Some pr" "ct_device pr = a" by blast
    have "a \<in> dom (devices s)" using reg_uc [OF r c(1)] c(2,3) by auto
    moreover have "a \<notin> set ?as" using key reg_udn_uc [OF r c(1,2)] c(3) by auto
    ultimately show "a \<in> dom (devices s) \<and> a \<notin> set ?as" ..
  qed
  have "devices s' a \<noteq> None \<longleftrightarrow> a \<in> dom (devices s) \<and> a \<notin> set ?as" for a
    by (simp add: s'(4) restrict_map_def domIff)
  note left = trans [OF this under]
  show ?thesis
    by (rule exI [of _ s']) (simp add: s'(1-3) left del: not_None_eq)
qed

theorem delete_frees_known_devices_witness:
  "\<exists>s'. dld_upnp_delete sample_state = Some s' \<and> device_udn_map s' = []"
  using delete_frees_known_devices [OF sample_state_reach] by blast

end
