(* ===== verification/Introspection.thy ===== *)
theory Introspection
  imports Upnp
begin

section \<open>server.c: what the service tells D-Bus about its interfaces\<close>

text \<open>
  The two introspection documents of \<open>server.c\<close> as data: the interfaces of the root object and of a
  device object, with the methods, signals and properties in the order of the XML text. An argument is
  a D-Bus type and a name. The connector publishes an object with its document and D-Bus only
  delivers calls of the methods in it, with arguments of the types in it.
\<close>

record intro_method =
  im_name :: string
  im_in :: "(string \<times> string) list"
  im_out :: "(string \<times> string) list"

record intro_interface =
  ii_name :: string
  ii_methods :: "intro_method list"
  ii_signals :: "(string \<times> (string \<times> string) list) list"
  ii_properties :: "(string \<times> string \<times> string) list"

subsection \<open>Names of methods\<close>

definition DLD_INTERFACE_GET_VERSION :: string where
  "DLD_INTERFACE_GET_VERSION = ''GetVersion''"

definition DLD_INTERFACE_GET_DEVICES :: string where
  "DLD_INTERFACE_GET_DEVICES = ''GetDevices''"

definition DLD_INTERFACE_RESCAN :: string where
  "DLD_INTERFACE_RESCAN = ''Rescan''"

definition DLD_INTERFACE_RELEASE :: string where
  "DLD_INTERFACE_RELEASE = ''Release''"

definition DLD_INTERFACE_GET :: string where
  "DLD_INTERFACE_GET = ''Get''"

definition DLD_INTERFACE_GET_ALL :: string where
  "DLD_INTERFACE_GET_ALL = ''GetAll''"

definition DLD_INTERFACE_SET :: string where
  "DLD_INTERFACE_SET = ''Set''"

definition DLD_INTERFACE_CANCEL :: string where
  "DLD_INTERFACE_CANCEL = ''Cancel''"

definition DLD_INTERFACE_GET_ICON :: string where
  "DLD_INTERFACE_GET_ICON = ''GetIcon''"

definition DLD_INTERFACE_GET_TEST_INFO :: string where
  "DLD_INTERFACE_GET_TEST_INFO = ''GetTestInfo''"

definition DLD_INTERFACE_CANCEL_TEST :: string where
  "DLD_INTERFACE_CANCEL_TEST = ''CancelTest''"

definition DLD_INTERFACE_PING :: string where
  "DLD_INTERFACE_PING = ''Ping''"

definition DLD_INTERFACE_GET_PING_RESULT :: string where
  "DLD_INTERFACE_GET_PING_RESULT = ''GetPingResult''"

definition DLD_INTERFACE_NSLOOKUP :: string where
  "DLD_INTERFACE_NSLOOKUP = ''NSLookup''"

definition DLD_INTERFACE_GET_NSLOOKUP_RESULT :: string where
  "DLD_INTERFACE_GET_NSLOOKUP_RESULT = ''GetNSLookupResult''"

definition DLD_INTERFACE_TRACEROUTE :: string where
  "DLD_INTERFACE_TRACEROUTE = ''Traceroute''"

definition DLD_INTERFACE_GET_TRACEROUTE_RESULT :: string where
  "DLD_INTERFACE_GET_TRACEROUTE_RESULT = ''GetTracerouteResult''"

lemmas method_name_defs =
  DLD_INTERFACE_GET_VERSION_def
  DLD_INTERFACE_GET_DEVICES_def
  DLD_INTERFACE_RESCAN_def
  DLD_INTERFACE_RELEASE_def
  DLD_INTERFACE_GET_def
  DLD_INTERFACE_GET_ALL_def
  DLD_INTERFACE_SET_def
  DLD_INTERFACE_CANCEL_def
  DLD_INTERFACE_GET_ICON_def
  DLD_INTERFACE_GET_TEST_INFO_def
  DLD_INTERFACE_CANCEL_TEST_def
  DLD_INTERFACE_PING_def
  DLD_INTERFACE_GET_PING_RESULT_def
  DLD_INTERFACE_NSLOOKUP_def
  DLD_INTERFACE_GET_NSLOOKUP_RESULT_def
  DLD_INTERFACE_TRACEROUTE_def
  DLD_INTERFACE_GET_TRACEROUTE_RESULT_def

subsection \<open>The root object\<close>

definition manager_interface :: intro_interface where
  "manager_interface =
     \<lparr>ii_name = DLEYNA_DIAGNOSTICS_INTERFACE_MANAGER,
      ii_methods =
       [\<lparr>im_name = DLD_INTERFACE_GET_VERSION,
         im_in = [],
         im_out = [(''s'', ''Version'')]\<rparr>,
        \<lparr>im_name = DLD_INTERFACE_RELEASE,
         im_in = [],
         im_out = []\<rparr>,
        \<lparr>im_name = DLD_INTERFACE_GET_DEVICES,
         im_in = [],
         im_out = [(''ao'', ''Devices'')]\<rparr>,
        \<lparr>im_name = DLD_INTERFACE_RESCAN,
         im_in = [],
         im_out = []\<rparr>],
      ii_signals =
       [(DLD_INTERFACE_FOUND_DEVICE, [(''o'', ''Path'')]),
        (DLD_INTERFACE_LOST_DEVICE, [(''o'', ''Path'')])],
      ii_properties =
       [(''as'', DLD_INTERFACE_PROP_NEVER_QUIT, ''readwrite''),
        (''as'', DLD_INTERFACE_PROP_WHITE_LIST_ENTRIES, ''readwrite''),
        (''b'', DLD_INTERFACE_PROP_WHITE_LIST_ENABLED, ''readwrite'')]\<rparr>"

definition manager_properties_interface :: intro_interface where
  "manager_properties_interface =
     \<lparr>ii_name = DLD_INTERFACE_PROPERTIES,
      ii_methods =
       [\<lparr>im_name = DLD_INTERFACE_GET,
         im_in = [(''s'', ''interface_name''), (''s'', ''property_name'')],
         im_out = [(''v'', ''value'')]\<rparr>,
        \<lparr>im_name = DLD_INTERFACE_SET,
         im_in = [(''s'', ''interface_name''), (''s'', ''property_name''), (''v'', ''value'')],
         im_out = []\<rparr>,
        \<lparr>im_name = DLD_INTERFACE_GET_ALL,
         im_in = [(''s'', ''interface_name'')],
         im_out = [(''a{sv}'', ''properties'')]\<rparr>],
      ii_signals =
       [(DLD_INTERFACE_PROPERTIES_CHANGED, [(''s'', ''interface_name''),
        (''a{sv}'', ''changed_properties''), (''as'', ''invalidated_properties'')])],
      ii_properties = []\<rparr>"

definition g_root_introspection :: "intro_interface list" where
  "g_root_introspection = [manager_interface, manager_properties_interface]"

definition g_manager_interfaces :: "string list" where
  "g_manager_interfaces = [DLEYNA_DIAGNOSTICS_INTERFACE_MANAGER, DLD_INTERFACE_PROPERTIES]"

subsection \<open>A device object\<close>

definition device_properties_interface :: intro_interface where
  "device_properties_interface =
     \<lparr>ii_name = DLD_INTERFACE_PROPERTIES,
      ii_methods =
       [\<lparr>im_name = DLD_INTERFACE_GET,
         im_in = [(''s'', ''interface_name''), (''s'', ''property_name'')],
         im_out = [(''v'', ''value'')]\<rparr>,
        \<lparr>im_name = DLD_INTERFACE_GET_ALL,
         im_in = [(''s'', ''interface_name'')],
         im_out = [(''a{sv}'', ''properties'')]\<rparr>],
      ii_signals =
       [(DLD_INTERFACE_PROPERTIES_CHANGED, [(''s'', ''interface_name''),
        (''a{sv}'', ''changed_properties''), (''as'', ''invalidated_properties'')])],
      ii_properties = []\<rparr>"

definition device_interface :: intro_interface where
  "device_interface =
     \<lparr>ii_name = DLEYNA_DIAGNOSTICS_INTERFACE_DEVICE,
      ii_methods =
       [\<lparr>im_name = DLD_INTERFACE_CANCEL,
         im_in = [],
         im_out = []\<rparr>,
        \<lparr>im_name = DLD_INTERFACE_GET_ICON,
         im_in = [(''s'', ''RequestedMimeType''), (''s'', ''Resolution'')],
         im_out = [(''ay'', ''Bytes''), (''s'', ''MimeType'')]\<rparr>,
        \<lparr>im_name = DLD_INTERFACE_GET_TEST_INFO,
         im_in = [(''u'', ''TestId'')],
         im_out = [(''s'', ''TestType''), (''s'', ''TestState'')]\<rparr>,
        \<lparr>im_name = DLD_INTERFACE_CANCEL_TEST,
         im_in = [(''u'', ''TestId'')],
         im_out = []\<rparr>,
        \<lparr>im_name = DLD_INTERFACE_PING,
         im_in = [(''s'', ''Host''), (''u'', ''RepeatCount''), (''u'', ''Interval''),
                  (''u'', ''DataBlockSize''), (''u'', ''Dscp'')],
         im_out = [(''u'', ''TestId'')]\<rparr>,
        \<lparr>im_name = DLD_INTERFACE_GET_PING_RESULT,
         im_in = [(''u'', ''TestId'')],
         im_out = [(''s'', ''TestStatus''), (''s'', ''TestInfo''), (''u'', ''SuccessCount''),
                   (''u'', ''FailureCount''), (''u'', ''AvgResponseTime''),
        (''u'', ''MinResponseTime''), (''u'', ''MaxResponseTime'')]\<rparr>,
        \<lparr>im_name = DLD_INTERFACE_NSLOOKUP,
         im_in = [(''s'', ''HostName''), (''s'', ''DNSServer''), (''u'', ''RepeatCount''),
                  (''u'', ''Interval'')],
         im_out = [(''u'', ''TestId'')]\<rparr>,
        \<lparr>im_name = DLD_INTERFACE_GET_NSLOOKUP_RESULT,
         im_in = [(''u'', ''TestId'')],
         im_out = [(''s'', ''TestStatus''), (''s'', ''TestInfo''), (''u'', ''SuccessCount''),
                   (''a(sssassu)'', ''NSLookupResult'')]\<rparr>,
        \<lparr>im_name = DLD_INTERFACE_TRACEROUTE,
         im_in = [(''s'', ''Host''), (''u'', ''TimeOut''), (''u'', ''DataBlockSize''),
                  (''u'', ''MaxHopCount''), (''u'', ''Dscp'')],
         im_out = [(''u'', ''TestId'')]\<rparr>,
        \<lparr>im_name = DLD_INTERFACE_GET_TRACEROUTE_RESULT,
         im_in = [(''u'', ''TestId'')],
         im_out = [(''s'', ''TestStatus''), (''s'', ''TestInfo''), (''u'', ''ResponseTime''),
                   (''as'', ''HopHosts'')]\<rparr>],
      ii_signals = [],
      ii_properties =
       [(''s'', DLD_INTERFACE_PROP_DEVICE_TYPE, ''read''),
        (''s'', DLD_INTERFACE_PROP_UDN, ''read''),
        (''s'', DLD_INTERFACE_PROP_FRIENDLY_NAME, ''read''),
        (''s'', DLD_INTERFACE_PROP_ICON_URL, ''read''),
        (''s'', DLD_INTERFACE_PROP_MANUFACTURER, ''read''),
        (''s'', DLD_INTERFACE_PROP_MANUFACTURER_URL, ''read''),
        (''s'', DLD_INTERFACE_PROP_MODEL_DESCRIPTION, ''read''),
        (''s'', DLD_INTERFACE_PROP_MODEL_NAME, ''read''),
        (''s'', DLD_INTERFACE_PROP_MODEL_NUMBER, ''read''),
        (''s'', DLD_INTERFACE_PROP_SERIAL_NUMBER, ''read''),
        (''s'', DLD_INTERFACE_PROP_PRESENTATION_URL, ''read''),
        (''as'', DLD_INTERFACE_PROP_STATUS_INFO, ''read''),
        (''au'', DLD_INTERFACE_PROP_TEST_IDS, ''read''),
        (''au'', DLD_INTERFACE_PROP_ACTIVE_TEST_IDS, ''read'')]\<rparr>"

definition g_diagnostics_device_introspection :: "intro_interface list" where
  "g_diagnostics_device_introspection = [device_properties_interface, device_interface]"

end
