(* ===== verification/Server.thy ===== *)
theory Server
  imports Manager Upnp_Tasks Introspection
begin

section \<open>server.c: the service\<close>

text \<open>
  The service dispatches the method calls of its clients to tasks, runs the tasks when the task
  processor says so, and counts its clients. Its state is the global \<open>g_context\<close>, extended by what
  the connector and the task processor of the core library keep for it: the clients that are
  watched, the queues of the clients' tasks, and whether the processor was told to quit. The core
  library is not part of the repository. What is assumed of it: \<open>core_step\<close> says which of its calls
  change the watched clients, the queues and the flag; the tasks of a queue are those added and not
  yet run or dropped, in no particular order, for any of them may be run next; and what the
  connector's \<open>watch_client\<close> answers is a parameter.
\<close>

subsection \<open>State\<close>

text \<open>The pointer \<open>g_context.upnp\<close>: NULL, a registry, or a registry that was freed.\<close>

datatype upnp_pointer = No_upnp | Upnp_at dld_upnp | Upnp_freed

text \<open>
  The function \<open>watch_client\<close> of the connector: whether it answers TRUE for a client, given the clients
  that are watched.
\<close>

type_synonym connector = "string \<Rightarrow> string list \<Rightarrow> bool"

record 'st dld_context =
  srv_connector :: connector
  dld_id :: "guint list"
  srv_connection :: bool
  srv_watchers :: guint
  srv_upnp :: upnp_pointer
  srv_settings :: 'st
  srv_manager :: bool
  srv_clients :: "string list"
  srv_queues :: "((string \<times> string) \<times> dld_task list) list"
  srv_quitting :: bool
  srv_calls :: "effect list"

definition DLD_MANAGER_INTERFACE_INFO_MAX :: nat where
  "DLD_MANAGER_INTERFACE_INFO_MAX = 2"

definition prv_control_point_initialize :: "connector \<Rightarrow> 'st \<Rightarrow> 'st dld_context" where
  "prv_control_point_initialize connector settings =
     \<lparr>srv_connector = connector, dld_id = replicate DLD_MANAGER_INTERFACE_INFO_MAX 0, srv_connection = False, srv_watchers = 0,
      srv_upnp = No_upnp, srv_settings = settings, srv_manager = False, srv_clients = [],
      srv_queues = [], srv_quitting = False, srv_calls = []\<rparr>"

text \<open>The effect of the calls to the connector and the task processor.\<close>

definition core_step :: "effect \<Rightarrow> 'st dld_context \<Rightarrow> 'st dld_context" where
  "core_step e s =
     (case e of
        Watch_client c \<Rightarrow> s\<lparr>srv_clients := List.insert c (srv_clients s)\<rparr>
      | Unwatch_client c \<Rightarrow> s\<lparr>srv_clients := removeAll c (srv_clients s)\<rparr>
      | Add_client_queue source sink \<Rightarrow> s\<lparr>srv_queues := srv_queues s @ [((source, sink), [])]\<rparr>
      | Remove_queues_for_source source \<Rightarrow>
          s\<lparr>srv_queues := filter (\<lambda>((src, _), _). src \<noteq> source) (srv_queues s)\<rparr>
      | Remove_queues_for_sink sink \<Rightarrow>
          s\<lparr>srv_queues := filter (\<lambda>((_, snk), _). snk \<noteq> sink) (srv_queues s)\<rparr>
      | Set_quitting \<Rightarrow> s\<lparr>srv_quitting := True\<rparr>
      | _ \<Rightarrow> s)"

fun core_emit :: "effect list \<Rightarrow> 'st dld_context \<Rightarrow> 'st dld_context" where
  "core_emit [] s = s"
| "core_emit (e # eff) s = core_emit eff ((core_step e s)\<lparr>srv_calls := srv_calls s @ [e]\<rparr>)"

subsection \<open>Clients and queues\<close>

definition prv_remove_client :: "'st settings_ops \<Rightarrow> string \<Rightarrow> 'st dld_context \<Rightarrow> 'st dld_context" where
  "prv_remove_client ops name s =
     (let s1 = core_emit [Remove_queues_for_source name] s;
          s2 = s1\<lparr>srv_watchers := srv_watchers s1 - 1\<rparr>
      in if srv_watchers s2 = 0 \<and> \<not> dleyna_settings_is_never_quit ops (srv_settings s2)
         then core_emit [Set_quitting] s2 else s2)"

text \<open>The connector stops watching a client that is lost before it calls \<open>prv_lost_client\<close>.\<close>

definition prv_lost_client :: "'st settings_ops \<Rightarrow> string \<Rightarrow> 'st dld_context \<Rightarrow> 'st dld_context" where
  "prv_lost_client ops name s = prv_remove_client ops name s"

text \<open>The call \<open>g_context.connector->watch_client (client_name)\<close>.\<close>

definition watch_client :: "string \<Rightarrow> 'st dld_context \<Rightarrow> bool \<times> 'st dld_context" where
  "watch_client name s = (srv_connector s name (srv_clients s), core_emit [Watch_client name] s)"

text \<open>
  What the core library documents of it: TRUE exactly for a client that was not watched before. Only
  the counting of the clients relies on this.
\<close>

definition watch_doc :: "connector \<Rightarrow> bool" where
  "watch_doc connector \<longleftrightarrow> (\<forall>name clients. connector name clients \<longleftrightarrow> name \<notin> set clients)"

text \<open>The call \<open>dleyna_task_queue_add_task\<close>: the task is one of those waiting in the queue.\<close>

definition queue_add_task ::
  "string \<Rightarrow> string \<Rightarrow> dld_task \<Rightarrow> 'st dld_context \<Rightarrow> 'st dld_context" where
  "queue_add_task source sink t s =
     core_emit [Enqueue_task source sink]
       (s\<lparr>srv_queues := map (\<lambda>(k, ts). (k, if k = (source, sink) then ts @ [t] else ts)) (srv_queues s)\<rparr>)"

definition prv_add_task :: "dld_task \<Rightarrow> string \<Rightarrow> string \<Rightarrow> 'st dld_context \<Rightarrow> 'st dld_context" where
  "prv_add_task t source sink s =
     (let (added, s1) = watch_client source s;
          s2 = (if added then s1\<lparr>srv_watchers := srv_watchers s1 + 1\<rparr> else s1);
          s3 = (if map_of (srv_queues s2) (source, sink) = None
                then core_emit [Add_client_queue source sink] s2 else s2)
      in queue_add_task source sink t s3)"

subsection \<open>Method calls\<close>

definition prv_manager_root_method_call ::
  "'st settings_ops \<Rightarrow> string \<Rightarrow> string \<Rightarrow> msg_id \<Rightarrow> 'st dld_context \<Rightarrow> 'st dld_context" where
  "prv_manager_root_method_call ops sender meth m s =
     (if meth = DLD_INTERFACE_RELEASE
      then core_emit [Return_response m None]
             (prv_remove_client ops sender (core_emit [Unwatch_client sender] s))
      else if meth = DLD_INTERFACE_GET_VERSION
      then prv_add_task (dld_task_get_version_new m) sender DLD_DIAGNOSTICS_SINK s
      else if meth = DLD_INTERFACE_GET_DEVICES
      then prv_add_task (dld_task_get_devices_new m) sender DLD_DIAGNOSTICS_SINK s
      else if meth = DLD_INTERFACE_RESCAN
      then prv_add_task (dld_task_rescan_new m) sender DLD_DIAGNOSTICS_SINK s
      else s)"

text \<open>A new task goes to the queue of the client for the object; None stands for undefined behaviour.\<close>

definition add_new_task ::
  "dld_task option \<Rightarrow> string \<Rightarrow> string \<Rightarrow> 'st dld_context \<Rightarrow> 'st dld_context option" where
  "add_new_task task source sink s = map_option (\<lambda>t. prv_add_task t source sink s) task"

definition prv_manager_props_method_call ::
  "glib \<Rightarrow> string \<Rightarrow> string \<Rightarrow> string \<Rightarrow> gvariant \<Rightarrow> msg_id \<Rightarrow> 'st dld_context \<Rightarrow>
     'st dld_context option" where
  "prv_manager_props_method_call gl sender object meth params m s =
     (let task = (if meth = DLD_INTERFACE_GET_ALL
                  then Some (dld_task_manager_get_props_new gl m object params)
                  else if meth = DLD_INTERFACE_GET
                  then Some (dld_task_manager_get_prop_new gl m object params)
                  else if meth = DLD_INTERFACE_SET
                  then Some (dld_task_manager_set_prop_new gl m object params)
                  else None)
      in case task of
           None \<Rightarrow> Some s
         | Some None \<Rightarrow> None
         | Some (Some t) \<Rightarrow> Some (prv_add_task t sender (the (task_path t)) s))"

definition prv_get_device_id :: "string \<Rightarrow> 'st dld_context \<Rightarrow> (gerror + string) option" where
  "prv_get_device_id object s =
     (case srv_upnp s of
        Upnp_at upnp \<Rightarrow>
          map_option
            (\<lambda>device_list.
               case dld_device_from_path object device_list of
                 Some device \<Rightarrow> Inr (dev_path device)
               | None \<Rightarrow> Inl (GError DLEYNA_ERROR_OBJECT_NOT_FOUND
                   ''Cannot locate device corresponding to the specified path''))
            (known_devices upnp)
      | _ \<Rightarrow> None)"

definition prv_props_method_call ::
  "glib \<Rightarrow> string \<Rightarrow> string \<Rightarrow> string \<Rightarrow> gvariant \<Rightarrow> msg_id \<Rightarrow> 'st dld_context \<Rightarrow>
     'st dld_context option" where
  "prv_props_method_call gl sender object meth params m s =
     (case prv_get_device_id object s of
        None \<Rightarrow> None
      | Some (Inl error) \<Rightarrow> Some (core_emit [Return_error m error] s)
      | Some (Inr device_id) \<Rightarrow>
          if meth = DLD_INTERFACE_GET_ALL
          then add_new_task (dld_task_get_props_new gl m object params) sender device_id s
          else if meth = DLD_INTERFACE_GET
          then add_new_task (dld_task_get_prop_new gl m object params) sender device_id s
          else Some s)"

definition prv_device_method_call ::
  "glib \<Rightarrow> string \<Rightarrow> string \<Rightarrow> string \<Rightarrow> gvariant \<Rightarrow> msg_id \<Rightarrow> 'st dld_context \<Rightarrow>
     'st dld_context option" where
  "prv_device_method_call gl sender object meth params m s =
     (case prv_get_device_id object s of
        None \<Rightarrow> None
      | Some (Inl error) \<Rightarrow> Some (core_emit [Return_error m error] s)
      | Some (Inr device_id) \<Rightarrow>
          if meth = DLD_INTERFACE_CANCEL
          then Some (core_emit [Return_response m None]
                 (if map_of (srv_queues s) (sender, device_id) = None then s
                  else core_emit [Cancel_client_queue sender device_id] s))
          else if meth = DLD_INTERFACE_GET_ICON
          then add_new_task (dld_task_get_icon_new gl m object params) sender device_id s
          else if meth = DLD_INTERFACE_GET_TEST_INFO
          then add_new_task (dld_task_get_test_info_new gl m object params) sender device_id s
          else if meth = DLD_INTERFACE_CANCEL_TEST
          then add_new_task (dld_task_cancel_test_new gl m object params) sender device_id s
          else if meth = DLD_INTERFACE_PING
          then add_new_task (dld_task_ping_new gl m object params) sender device_id s
          else if meth = DLD_INTERFACE_GET_PING_RESULT
          then add_new_task (dld_task_get_ping_result_new gl m object params) sender device_id s
          else if meth = DLD_INTERFACE_NSLOOKUP
          then add_new_task (dld_task_nslookup_new gl m object params) sender device_id s
          else if meth = DLD_INTERFACE_GET_NSLOOKUP_RESULT
          then add_new_task (dld_task_get_nslookup_result_new gl m object params) sender device_id s
          else if meth = DLD_INTERFACE_TRACEROUTE
          then add_new_task (dld_task_traceroute_new gl m object params) sender device_id s
          else if meth = DLD_INTERFACE_GET_TRACEROUTE_RESULT
          then add_new_task (dld_task_get_traceroute_result_new gl m object params) sender device_id s
          else Some s)"

text \<open>
  The tables of handlers, in the order of the interfaces: the connector calls the handler that
  stands where the interface stands in the document.
\<close>

definition g_root_vtables ::
  "('st settings_ops \<Rightarrow> glib \<Rightarrow> string \<Rightarrow> string \<Rightarrow> string \<Rightarrow> gvariant \<Rightarrow> msg_id \<Rightarrow>
     'st dld_context \<Rightarrow> 'st dld_context option) list" where
  "g_root_vtables =
     [\<lambda>ops gl sender object meth params m s. Some (prv_manager_root_method_call ops sender meth m s),
      \<lambda>ops. prv_manager_props_method_call]"

definition g_server_vtables ::
  "('st settings_ops \<Rightarrow> glib \<Rightarrow> string \<Rightarrow> string \<Rightarrow> string \<Rightarrow> gvariant \<Rightarrow> msg_id \<Rightarrow>
     'st dld_context \<Rightarrow> 'st dld_context option) list" where
  "g_server_vtables = [\<lambda>ops. prv_props_method_call, \<lambda>ops. prv_device_method_call]"

subsection \<open>Running a task\<close>

text \<open>
  The task processor passes a task to \<open>prv_process_task\<close>. The result is the new state, the task and
  the calls made for it; they are also appended to the log of the service.
\<close>

definition prv_process_sync_task ::
  "dld_task \<Rightarrow> 'st dld_context \<Rightarrow> ('st dld_context \<times> dld_task \<times> effect list) option" where
  "prv_process_sync_task t s =
     (case task_type t of
        DLD_TASK_GET_VERSION \<Rightarrow>
          do {
            (t1, eff) \<leftarrow> dld_task_complete (t\<lparr>task_result := Some (GString VERSION)\<rparr>);
            Some (core_emit (eff @ [Task_completed]) s, t1, eff @ [Task_completed])
          }
      | DLD_TASK_GET_DEVICES \<Rightarrow>
          (case srv_upnp s of
             Upnp_at upnp \<Rightarrow>
               do {
                 ids \<leftarrow> dld_upnp_get_device_ids upnp;
                 (t1, eff) \<leftarrow> dld_task_complete (t\<lparr>task_result := Some ids\<rparr>);
                 Some (core_emit (eff @ [Task_completed]) s, t1, eff @ [Task_completed])
               }
           | _ \<Rightarrow> None)
      | DLD_TASK_RESCAN \<Rightarrow>
          (case srv_upnp s of
             Upnp_at upnp \<Rightarrow>
               do {
                 (t1, eff) \<leftarrow> dld_task_complete t;
                 Some (core_emit (eff @ [Task_completed]) (s\<lparr>srv_upnp := Upnp_at (dld_upnp_rescan upnp)\<rparr>),
                   t1, eff @ [Task_completed])
               }
           | _ \<Rightarrow> None)
      | _ \<Rightarrow> Some (s, t, []))"

text \<open>An operation of the registry on the service's registry.\<close>

definition on_upnp ::
  "(dld_upnp \<Rightarrow> dld_task \<Rightarrow> (dld_upnp \<times> dld_task \<times> effect list) option) \<Rightarrow> dld_task \<Rightarrow>
     'st dld_context \<Rightarrow> ('st dld_context \<times> dld_task \<times> effect list) option" where
  "on_upnp f t s =
     (case srv_upnp s of
        Upnp_at upnp \<Rightarrow>
          map_option (\<lambda>(upnp1, t1, eff). (core_emit eff (s\<lparr>srv_upnp := Upnp_at upnp1\<rparr>), t1, eff)) (f upnp t)
      | _ \<Rightarrow> None)"

definition prv_process_async_task ::
  "'st settings_ops \<Rightarrow> glib \<Rightarrow> (string \<Rightarrow> bool) \<Rightarrow> dld_task \<Rightarrow> 'st dld_context \<Rightarrow>
     ('st dld_context \<times> dld_task \<times> effect list) option" where
  "prv_process_async_task ops gl msg_new t s =
     (let async_task = new_cancellable t
      in case task_type t of
           DLD_TASK_GET_PROP \<Rightarrow> on_upnp dld_upnp_get_prop async_task s
         | DLD_TASK_GET_ALL_PROPS \<Rightarrow> on_upnp dld_upnp_get_all_props async_task s
         | DLD_TASK_GET_ICON \<Rightarrow> on_upnp (dld_upnp_get_icon gl msg_new) async_task s
         | DLD_TASK_MANAGER_GET_PROP \<Rightarrow>
             map_option (\<lambda>(t1, eff). (core_emit eff s, t1, eff))
               (dld_manager_get_prop ops (srv_settings s) async_task)
         | DLD_TASK_MANAGER_GET_ALL_PROPS \<Rightarrow>
             map_option (\<lambda>(t1, eff). (core_emit eff s, t1, eff))
               (dld_manager_get_all_props ops (srv_settings s) async_task)
         | DLD_TASK_MANAGER_SET_PROP \<Rightarrow>
             map_option (\<lambda>(st, t1, eff). (core_emit eff (s\<lparr>srv_settings := st\<rparr>), t1, eff))
               (dld_manager_set_prop ops (srv_settings s) async_task)
         | DLD_TASK_GET_TEST_INFO \<Rightarrow> on_upnp dld_upnp_get_test_info async_task s
         | DLD_TASK_CANCEL_TEST \<Rightarrow> on_upnp dld_upnp_cancel_test async_task s
         | DLD_TASK_PING \<Rightarrow> on_upnp dld_upnp_ping async_task s
         | DLD_TASK_GET_PING_RESULT \<Rightarrow> on_upnp dld_upnp_get_ping_result async_task s
         | DLD_TASK_NSLOOKUP \<Rightarrow> on_upnp dld_upnp_nslookup async_task s
         | DLD_TASK_GET_NSLOOKUP_RESULT \<Rightarrow> on_upnp dld_upnp_get_nslookup_result async_task s
         | DLD_TASK_TRACEROUTE \<Rightarrow> on_upnp dld_upnp_traceroute async_task s
         | DLD_TASK_GET_TRACEROUTE_RESULT \<Rightarrow> on_upnp dld_upnp_get_traceroute_result async_task s
         | _ \<Rightarrow> Some (s, async_task, []))"

definition prv_process_task ::
  "'st settings_ops \<Rightarrow> glib \<Rightarrow> (string \<Rightarrow> bool) \<Rightarrow> dld_task \<Rightarrow> 'st dld_context \<Rightarrow>
     ('st dld_context \<times> dld_task \<times> effect list) option" where
  "prv_process_task ops gl msg_new client_task s =
     (if synchronous client_task then prv_process_sync_task client_task s
      else prv_process_async_task ops gl msg_new client_task s)"

definition prv_cancel_task :: "dld_task \<Rightarrow> (dld_task \<times> effect list) option" where
  "prv_cancel_task t = dld_task_cancel t"

definition prv_delete_task :: "dld_task \<Rightarrow> (string list \<times> effect list) option" where
  "prv_delete_task t = dld_task_delete t"

subsection \<open>The start and the end of the service\<close>

text \<open>
  \<open>dld_manager_new\<close> and \<open>dld_manager_delete\<close> of \<open>manager.c\<close> create and delete the white list of the core
  library.
\<close>

definition dld_manager_new :: "effect list" where
  "dld_manager_new =
     [Other_call ''gupnp_context_manager_get_white_list'', Other_call ''dleyna_white_list_new'']"

definition dld_manager_delete :: "bool \<Rightarrow> effect list" where
  "dld_manager_delete manager = (if manager then [Other_call ''dleyna_white_list_delete''] else [])"

definition prv_white_list_init :: "'st settings_ops \<Rightarrow> 'st dld_context \<Rightarrow> 'st dld_context" where
  "prv_white_list_init ops s =
     core_emit
       [White_list_enable (dleyna_settings_is_white_list_enabled ops (srv_settings s)),
        (case dleyna_settings_white_list_entries ops (srv_settings s) of
           None \<Rightarrow> Other_call ''dleyna_white_list_add_entries (NULL)''
         | Some entries \<Rightarrow> White_list_add entries)] s"

text \<open>\<open>pub i\<close> is the identifier that publishing the i-th interface returns, 0 on failure.\<close>

definition prv_control_point_start_service ::
  "'st settings_ops \<Rightarrow> (nat \<Rightarrow> guint) \<Rightarrow> 'st dld_context \<Rightarrow> bool \<times> 'st dld_context" where
  "prv_control_point_start_service ops pub s =
     (let s1 = core_emit
                 (map (\<lambda>i. Publish_object DLEYNA_DIAGNOSTICS_OBJECT True (g_manager_interfaces ! i))
                    [0..<DLD_MANAGER_INTERFACE_INFO_MAX])
                 (s\<lparr>srv_connection := True, dld_id := map pub [0..<DLD_MANAGER_INTERFACE_INFO_MAX]\<rparr>)
      in if dld_id s1 ! 0 \<noteq> 0
         then (True, prv_white_list_init ops
                 ((core_emit dld_manager_new (s1\<lparr>srv_upnp := Upnp_at dld_upnp_new\<rparr>))\<lparr>srv_manager := True\<rparr>))
         else (False, s1))"

definition prv_control_point_stop_service :: "'st dld_context \<Rightarrow> 'st dld_context option" where
  "prv_control_point_stop_service s =
     do {
       s1 \<leftarrow> (case srv_upnp s of
                No_upnp \<Rightarrow> Some s
              | Upnp_freed \<Rightarrow> None
              | Upnp_at upnp \<Rightarrow>
                  do {
                    upnp1 \<leftarrow> dld_upnp_unsubscribe upnp;
                    upnp2 \<leftarrow> dld_upnp_delete upnp1;
                    Some (core_emit (drop (length (calls upnp)) (calls upnp2)) (s\<lparr>srv_upnp := Upnp_freed\<rparr>))
                  });
       Some (if srv_connection s1
             then core_emit (map Unpublish_object (filter (\<lambda>i. i \<noteq> 0) (dld_id s1))) s1 else s1)
     }"

end
