(* ===== verification/Server_Props.thy ===== *)
theory Server_Props
  imports Server
begin

section \<open>Properties of the service\<close>

text \<open>
  Every call that D-Bus delivers is answered at once or becomes one task of its client, with the
  reply type that the introspection declares; the tasks are run without undefined behaviour; the
  clients are counted; the service starts and stops cleanly.
\<close>

subsection \<open>Calls and fields\<close>

lemma core_emit_append: "core_emit (eff1 @ eff2) s = core_emit eff2 (core_emit eff1 s)"
  by (induction eff1 arbitrary: s) simp_all

lemma core_step_fields [simp]:
  "srv_connector (core_step e s) = srv_connector s" "dld_id (core_step e s) = dld_id s" "srv_connection (core_step e s) = srv_connection s"
  "srv_watchers (core_step e s) = srv_watchers s" "srv_upnp (core_step e s) = srv_upnp s"
  "srv_settings (core_step e s) = srv_settings s" "srv_manager (core_step e s) = srv_manager s"
  "srv_calls (core_step e s) = srv_calls s"
  by (cases e; simp add: core_step_def)+

lemma core_emit_fields [simp]:
  "srv_connector (core_emit eff s) = srv_connector s" "dld_id (core_emit eff s) = dld_id s" "srv_connection (core_emit eff s) = srv_connection s"
  "srv_watchers (core_emit eff s) = srv_watchers s" "srv_upnp (core_emit eff s) = srv_upnp s"
  "srv_settings (core_emit eff s) = srv_settings s" "srv_manager (core_emit eff s) = srv_manager s"
  "srv_calls (core_emit eff s) = srv_calls s @ eff"
  by (induction eff arbitrary: s) simp_all

text \<open>Calls that the task processor and the connector do nothing lasting for.\<close>

definition harmless :: "effect \<Rightarrow> bool" where
  "harmless e \<longleftrightarrow>
     (case e of
        Watch_client _ \<Rightarrow> False | Unwatch_client _ \<Rightarrow> False | Add_client_queue _ _ \<Rightarrow> False
      | Remove_queues_for_source _ \<Rightarrow> False | Remove_queues_for_sink _ \<Rightarrow> False
      | Set_quitting \<Rightarrow> False | _ \<Rightarrow> True)"

lemma core_emit_harmless:
  "list_all harmless eff \<Longrightarrow> core_emit eff s = s\<lparr>srv_calls := srv_calls s @ eff\<rparr>"
proof (induction eff arbitrary: s)
  case (Cons e eff)
  have "core_step e s = s" using Cons.prems by (cases e) (simp_all add: harmless_def core_step_def)
  with Cons show ?case by simp
qed simp

text \<open>The tasks waiting in a queue of a client.\<close>

definition queue_of :: "'st dld_context \<Rightarrow> string \<Rightarrow> string \<Rightarrow> dld_task list" where
  "queue_of s source sink = (case map_of (srv_queues s) (source, sink) of None \<Rightarrow> [] | Some ts \<Rightarrow> ts)"

lemma map_of_append_tasks:
  "map_of (map (\<lambda>(k, ts). (k, if k = key then ts @ [t] else ts)) qs) k =
     map_option (\<lambda>ts. if k = key then ts @ [t] else ts) (map_of qs k)"
  by (induction qs) auto

text \<open>Adding a task: one queue grows by the task, the client is counted once.\<close>

lemma add_task_eq:
  "prv_add_task t source sink s = s\<lparr>
     srv_clients := List.insert source (srv_clients s),
     srv_watchers := (if srv_connector s source (srv_clients s) then srv_watchers s + 1 else srv_watchers s),
     srv_queues := map (\<lambda>(k, ts). (k, if k = (source, sink) then ts @ [t] else ts))
       (srv_queues s @ (if map_of (srv_queues s) (source, sink) = None then [((source, sink), [])] else [])),
     srv_calls := srv_calls s @ [Watch_client source] @
       (if map_of (srv_queues s) (source, sink) = None then [Add_client_queue source sink] else []) @
       [Enqueue_task source sink]\<rparr>"
  by (simp add: prv_add_task_def watch_client_def queue_add_task_def core_step_def Let_def)

lemma queue_of_add_task:
  "queue_of (prv_add_task t source sink s) src snk =
     (if (src, snk) = (source, sink) then queue_of s src snk @ [t] else queue_of s src snk)"
  by (auto simp: queue_of_def add_task_eq map_of_append_tasks map_add_def split: option.splits)

subsection \<open>Typed parameters\<close>

text \<open>D-Bus delivers a call only with parameters of the introspected types.\<close>

definition has_types :: "string list \<Rightarrow> gvariant \<Rightarrow> bool" where
  "has_types types params = (case params of GTuple vs \<Rightarrow> map gv_type vs = types | _ \<Rightarrow> False)"

definition in_types :: "intro_method \<Rightarrow> string list" where
  "in_types md = map fst (im_in md)"

definition out_signature :: "intro_method \<Rightarrow> string" where
  "out_signature md = ''('' @ concat (map fst (im_out md)) @ '')''"

lemma gv_type_basic:
  "gv_type v = ''s'' \<longleftrightarrow> (\<exists>x. v = GString x)" "gv_type v = ''u'' \<longleftrightarrow> (\<exists>x. v = GUint x)"
  "gv_type v = ''v'' \<longleftrightarrow> (\<exists>x. v = GVariant x)"
  by (cases v; simp)+

lemma has_types_cases:
  "has_types [] p \<longleftrightarrow> p = GTuple []"
  "has_types [''u''] p \<longleftrightarrow> (\<exists>n. p = GTuple [GUint n])"
  "has_types [''s''] p \<longleftrightarrow> (\<exists>a. p = GTuple [GString a])"
  "has_types [''s'', ''s''] p \<longleftrightarrow> (\<exists>a b. p = GTuple [GString a, GString b])"
  "has_types [''s'', ''s'', ''v''] p \<longleftrightarrow> (\<exists>a b v. p = GTuple [GString a, GString b, GVariant v])"
  "has_types [''s'', ''s'', ''u'', ''u''] p \<longleftrightarrow>
     (\<exists>a b m n. p = GTuple [GString a, GString b, GUint m, GUint n])"
  "has_types [''s'', ''u'', ''u'', ''u'', ''u''] p \<longleftrightarrow>
     (\<exists>a k l m n. p = GTuple [GString a, GUint k, GUint l, GUint m, GUint n])"
  by (cases p; auto simp: has_types_def map_eq_Cons_conv Cons_eq_map_conv gv_type_basic)+

text \<open>The reply that the format of a task announces is the one that the introspection declares.\<close>

definition declared_reply :: "intro_method \<Rightarrow> dld_task \<Rightarrow> bool" where
  "declared_reply md t \<longleftrightarrow>
     (case result_format t of None \<Rightarrow> im_out md = [] | Some fmt \<Rightarrow> reply_type fmt = out_signature md)"

text \<open>The tasks that method calls become: what the constructors make for a call.\<close>

inductive client_task :: "glib \<Rightarrow> msg_id \<Rightarrow> dld_task \<Rightarrow> bool" for gl m where
  version_task: "client_task gl m (dld_task_get_version_new m)"
| devices_task: "client_task gl m (dld_task_get_devices_new m)"
| rescan_task: "client_task gl m (dld_task_rescan_new m)"
| prop_task: "dld_task_get_prop_new gl m object params = Some t \<Longrightarrow> client_task gl m t"
| props_task: "dld_task_get_props_new gl m object params = Some t \<Longrightarrow> client_task gl m t"
| icon_task: "dld_task_get_icon_new gl m object params = Some t \<Longrightarrow> client_task gl m t"
| manager_prop_task: "dld_task_manager_get_prop_new gl m object params = Some t \<Longrightarrow> client_task gl m t"
| manager_props_task: "dld_task_manager_get_props_new gl m object params = Some t \<Longrightarrow> client_task gl m t"
| manager_set_task: "dld_task_manager_set_prop_new gl m object params = Some t \<Longrightarrow> client_task gl m t"
| action_task: "action_task_new gl type m object params = Some t \<Longrightarrow> client_task gl m t"

lemma sync_task_fields:
  "invocation (dld_task_get_version_new m) = Some m" "result_format (dld_task_get_version_new m) = Some ''(@s)''"
  "invocation (dld_task_get_devices_new m) = Some m" "result_format (dld_task_get_devices_new m) = Some ''(@ao)''"
  "invocation (dld_task_rescan_new m) = Some m" "result_format (dld_task_rescan_new m) = None"
  by (simp_all add: constructor_defs)

definition made :: "glib \<Rightarrow> msg_id \<Rightarrow> string option \<Rightarrow> dld_task option \<Rightarrow> bool" where
  "made gl m fmt task \<longleftrightarrow>
     (\<exists>t. task = Some t \<and> client_task gl m t \<and> invocation t = Some m \<and> result_format t = fmt)"

lemma made_task:
  "has_types [''s'', ''s''] p \<Longrightarrow> made gl m (Some ''(v)'') (dld_task_get_prop_new gl m object p)"
  "has_types [''s''] p \<Longrightarrow> made gl m (Some ''(@a{sv})'') (dld_task_get_props_new gl m object p)"
  "has_types [''s'', ''s''] p \<Longrightarrow> made gl m (Some ''(@ays)'') (dld_task_get_icon_new gl m object p)"
  "has_types [''s'', ''s''] p \<Longrightarrow> made gl m (Some ''(v)'') (dld_task_manager_get_prop_new gl m object p)"
  "has_types [''s''] p \<Longrightarrow> made gl m (Some ''(@a{sv})'') (dld_task_manager_get_props_new gl m object p)"
  "has_types [''s'', ''s'', ''v''] p \<Longrightarrow> made gl m None (dld_task_manager_set_prop_new gl m object p)"
  using prop_task [of gl m object p] props_task [of gl m object p] icon_task [of gl m object p]
    manager_prop_task [of gl m object p] manager_props_task [of gl m object p] manager_set_task [of gl m object p]
  by (auto simp: made_def has_types_cases constructor_defs)

lemma made_action:
  "has_types [''u''] p \<Longrightarrow> made gl m (Some ''(ss)'') (dld_task_get_test_info_new gl m object p)"
  "has_types [''u''] p \<Longrightarrow> made gl m None (dld_task_cancel_test_new gl m object p)"
  "has_types [''s'', ''u'', ''u'', ''u'', ''u''] p \<Longrightarrow> made gl m (Some ''(@u)'') (dld_task_ping_new gl m object p)"
  "has_types [''u''] p \<Longrightarrow> made gl m (Some ''(ssuuuuu)'') (dld_task_get_ping_result_new gl m object p)"
  "has_types [''s'', ''s'', ''u'', ''u''] p \<Longrightarrow> made gl m (Some ''(@u)'') (dld_task_nslookup_new gl m object p)"
  "has_types [''u''] p \<Longrightarrow>
     made gl m (Some ''(ssua(sssassu))'') (dld_task_get_nslookup_result_new gl m object p)"
  "has_types [''s'', ''u'', ''u'', ''u'', ''u''] p \<Longrightarrow>
     made gl m (Some ''(@u)'') (dld_task_traceroute_new gl m object p)"
  "has_types [''u''] p \<Longrightarrow> made gl m (Some ''(ssuas)'') (dld_task_get_traceroute_result_new gl m object p)"
  using action_task [of gl DLD_TASK_GET_TEST_INFO m object p] action_task [of gl DLD_TASK_CANCEL_TEST m object p]
    action_task [of gl DLD_TASK_PING m object p] action_task [of gl DLD_TASK_GET_PING_RESULT m object p]
    action_task [of gl DLD_TASK_NSLOOKUP m object p] action_task [of gl DLD_TASK_GET_NSLOOKUP_RESULT m object p]
    action_task [of gl DLD_TASK_TRACEROUTE m object p] action_task [of gl DLD_TASK_GET_TRACEROUTE_RESULT m object p]
  by (auto simp: made_def action_task_new_def has_types_cases constructor_defs)

text \<open>A reply to a method is an error, or a value of the type that its document declares.\<close>

definition reply_fits :: "intro_method \<Rightarrow> effect \<Rightarrow> bool" where
  "reply_fits md e \<longleftrightarrow>
     (case e of
        Return_response _ None \<Rightarrow> im_out md = []
      | Return_response _ (Some v) \<Rightarrow> gv_type v = out_signature md
      | _ \<Rightarrow> True)"

lemma reply_fits_simps [simp]:
  "reply_fits md (Return_response m None) = (im_out md = [])"
  "reply_fits md (Return_response m (Some v)) = (gv_type v = out_signature md)"
  "reply_of e = [] \<Longrightarrow> reply_fits md e"
  "reply_fits md (Return_error m err)"
  by (auto simp: reply_fits_def reply_of_def split: effect.splits)

lemma no_replies_fit: "replies eff = [] \<Longrightarrow> list_all (reply_fits md) eff"
  by (induction eff) auto

text \<open>
  What a handler does with a call: it sends one reply at once and adds no task, or it adds one task,
  pending for this call, to a queue of the sender.
\<close>

definition handled :: "glib \<Rightarrow> msg_id \<Rightarrow> string \<Rightarrow> intro_method \<Rightarrow> 'st dld_context \<Rightarrow> 'st dld_context \<Rightarrow> bool" where
  "handled gl m sender md s s' \<longleftrightarrow>
     (\<exists>eff. srv_calls s' = srv_calls s @ eff \<and>
       (replies eff = [m] \<and> list_all (reply_fits md) eff \<and>
          (\<forall>src snk. queue_of s' src snk = queue_of s src snk \<or> queue_of s' src snk = []) \<or>
        replies eff = [] \<and>
          (\<exists>t sink. client_task gl m t \<and> invocation t = Some m \<and> declared_reply md t \<and>
             queue_of s' sender sink = queue_of s sender sink @ [t] \<and>
             (\<forall>src snk. (src, snk) \<noteq> (sender, sink) \<longrightarrow> queue_of s' src snk = queue_of s src snk))))"

lemma handled_task:
  assumes "client_task gl m t" and "invocation t = Some m" and "declared_reply md t"
  shows "handled gl m sender md s (prv_add_task t sender sink s)"
proof -
  have "\<exists>eff. srv_calls (prv_add_task t sender sink s) = srv_calls s @ eff \<and> replies eff = []"
    by (auto simp: add_task_eq reply_of_def)
  then show ?thesis
    unfolding handled_def using assms queue_of_add_task [of t sender sink s] by (metis (no_types, lifting))
qed

lemma handled_made:
  assumes "made gl m fmt task"
    and "case fmt of None \<Rightarrow> im_out md = [] | Some f \<Rightarrow> reply_type f = out_signature md"
  shows "\<exists>s'. add_new_task task sender dev s = Some s' \<and> handled gl m sender md s s'"
    and "\<exists>s'. (case task of None \<Rightarrow> None | Some t \<Rightarrow> Some (prv_add_task t sender (the (task_path t)) s)) = Some s' \<and>
           handled gl m sender md s s'"
  using assms handled_task by (auto simp: made_def add_new_task_def declared_reply_def)

lemma map_of_removed:
  "map_of (filter (\<lambda>((src, _), _). src \<noteq> source) qs) (src, snk) =
     (if src = source then None else map_of qs (src, snk))"
  by (induction qs) auto

lemma queue_of_removed:
  "queue_of (s\<lparr>srv_queues := filter (\<lambda>((src, _), _). src \<noteq> source) (srv_queues s)\<rparr>) src snk =
     (if src = source then [] else queue_of s src snk)"
  by (simp add: queue_of_def map_of_removed)

lemma handled_error:
  "handled gl m sender md s (core_emit [Return_error m e] s)"
  unfolding handled_def by (intro exI [of _ "[Return_error m e]"]) (simp add: core_step_def queue_of_def)

subsection \<open>The handlers\<close>

lemmas signature_defs = in_types_def out_signature_def declared_reply_def reply_type_def name_defs
  method_name_defs

lemma remove_client_eq:
  "prv_remove_client ops name s =
     (let quits = (srv_watchers s = 1 \<and> \<not> dleyna_settings_is_never_quit ops (srv_settings s))
      in s\<lparr>srv_watchers := srv_watchers s - 1,
           srv_queues := filter (\<lambda>((src, _), _). src \<noteq> name) (srv_queues s),
           srv_quitting := srv_quitting s \<or> quits,
           srv_calls := srv_calls s @ [Remove_queues_for_source name] @ (if quits then [Set_quitting] else [])\<rparr>)"
  by (cases s) (auto simp: prv_remove_client_def core_step_def Let_def)

lemma queue_of_remove_client:
  "queue_of (prv_remove_client ops name s) src snk = (if src = name then [] else queue_of s src snk)"
  using queue_of_removed [where s = s and source = name] by (simp add: remove_client_eq queue_of_def Let_def)

lemma handled_release:
  "im_out md = [] \<Longrightarrow> handled gl m sender md s
     (core_emit [Return_response m None] (prv_remove_client ops sender (core_emit [Unwatch_client sender] s)))"
proof -
  assume out: "im_out md = []"
  let ?s1 = "core_emit [Unwatch_client sender] s"
  obtain eff where eff: "srv_calls (prv_remove_client ops sender ?s1) = srv_calls ?s1 @ eff" "replies eff = []"
    by (rule that [of "[Remove_queues_for_source sender] @
        (if srv_watchers ?s1 = 1 \<and> \<not> dleyna_settings_is_never_quit ops (srv_settings ?s1) then [Set_quitting] else [])"])
      (simp_all add: remove_client_eq Let_def reply_of_def del: core_emit.simps)
  have "queue_of (core_emit [Return_response m None] s2) src snk = queue_of s2 src snk" for s2 :: "'a dld_context" and src snk
    by (simp add: core_step_def queue_of_def)
  moreover have "queue_of ?s1 src snk = queue_of s src snk" for src snk
    by (simp add: core_step_def queue_of_def)
  ultimately show ?thesis
    unfolding handled_def
    by (intro exI [of _ "[Unwatch_client sender] @ eff @ [Return_response m None]"])
      (simp add: eff no_replies_fit out queue_of_remove_client reply_of_def del: core_emit.simps)
qed

lemma root_call_handled:
  assumes "md \<in> set (ii_methods manager_interface)"
  shows "handled gl m sender md s (prv_manager_root_method_call ops sender (im_name md) m s)"
  using assms unfolding manager_interface_def intro_interface.simps set_simps insert_iff empty_iff
  by (elim disjE)
    (simp_all add: prv_manager_root_method_call_def signature_defs sync_task_fields
      handled_release handled_task client_task.intros(1-3) del: core_emit.simps)

lemma manager_props_call_handled:
  assumes "md \<in> set (ii_methods manager_properties_interface)" and "has_types (in_types md) params"
  shows "\<exists>s'. prv_manager_props_method_call gl sender object (im_name md) params m s = Some s' \<and>
     handled gl m sender md s s'"
  using assms(1) assms(2)
  unfolding manager_properties_interface_def intro_interface.simps set_simps insert_iff empty_iff
  by (elim disjE)
    (auto simp: prv_manager_props_method_call_def signature_defs Let_def
      intro!: handled_made(2) made_task)

text \<open>The device that a path names, in a registry in a state it can be in.\<close>

lemma get_device_id_cases:
  assumes "srv_upnp s = Upnp_at upnp" and "upnp_inv upnp"
  obtains e where "prv_get_device_id object s = Some (Inl e)"
  | "prv_get_device_id object s = Some (Inr object)"
      "\<exists>u a d. map_of (device_udn_map upnp) u = Some a \<and> devices upnp a = Some d \<and> dev_path d = object"
proof -
  obtain ds where ds: "known_devices upnp = Some ds"
    "set ds = {d. \<exists>u a. map_of (device_udn_map upnp) u = Some a \<and> devices upnp a = Some d}"
    by (rule known_devices_usable [OF assms(2)])
  show thesis
  proof (cases "dld_device_from_path object ds")
    case None
    then show thesis using that(1) by (simp add: prv_get_device_id_def assms(1) ds(1))
  next
    case (Some d)
    then have "d \<in> set ds" "dev_path d = object" using device_from_path_Some by blast+
    with Some ds show thesis by (intro that(2)) (auto simp: prv_get_device_id_def assms(1))
  qed
qed

lemma device_props_call_handled:
  assumes "srv_upnp s = Upnp_at upnp" and "upnp_inv upnp"
    and "md \<in> set (ii_methods device_properties_interface)" and "has_types (in_types md) params"
  shows "\<exists>s'. prv_props_method_call gl sender object (im_name md) params m s = Some s' \<and>
     handled gl m sender md s s'"
  using assms(1,2)
proof (cases rule: get_device_id_cases [where object = object])
  case (1 e)
  then show ?thesis by (simp add: prv_props_method_call_def handled_error del: core_emit.simps)
next
  case 2
  with assms(3,4) show ?thesis
    unfolding device_properties_interface_def intro_interface.simps set_simps insert_iff empty_iff
    by (elim disjE)
      (auto simp: prv_props_method_call_def signature_defs intro!: handled_made(1) made_task)
qed

lemma handled_cancel:
  "im_out md = [] \<Longrightarrow> handled gl m sender md s (core_emit [Return_response m None]
     (if map_of (srv_queues s) (sender, dev) = None then s else core_emit [Cancel_client_queue sender dev] s))"
  unfolding handled_def
  by (intro exI [of _ "(if map_of (srv_queues s) (sender, dev) = None then [] else [Cancel_client_queue sender dev]) @
      [Return_response m None]"])
    (simp add: core_step_def queue_of_def reply_of_def)

lemma device_call_handled:
  assumes "srv_upnp s = Upnp_at upnp" and "upnp_inv upnp"
    and "md \<in> set (ii_methods device_interface)" and "has_types (in_types md) params"
  shows "\<exists>s'. prv_device_method_call gl sender object (im_name md) params m s = Some s' \<and>
     handled gl m sender md s s'"
  using assms(1,2)
proof (cases rule: get_device_id_cases [where object = object])
  case (1 e)
  then show ?thesis by (simp add: prv_device_method_call_def handled_error del: core_emit.simps)
next
  case 2
  with assms(3,4) show ?thesis
    unfolding device_interface_def intro_interface.simps set_simps insert_iff empty_iff
    by (elim disjE)
      (auto simp: prv_device_method_call_def signature_defs handled_cancel simp del: core_emit.simps
        intro!: handled_made(1) made_task made_action)
qed

subsection \<open>Running the tasks\<close>

text \<open>
  A task that is run: the registry stays in a state it can be in; a synchronous task sends one
  response and is over, an asynchronous task is in a state of its life (\<open>Async_Run\<close>) in which it will
  be answered once.
\<close>

definition task_runs ::
  "'st settings_ops \<Rightarrow> glib \<Rightarrow> (string \<Rightarrow> bool) \<Rightarrow> msg_id \<Rightarrow> dld_task \<Rightarrow> 'st dld_context \<Rightarrow> bool" where
  "task_runs ops gl msg_new m t s \<longleftrightarrow>
     (\<exists>s' t' eff upnp'. prv_process_task ops gl msg_new t s = Some (s', t', eff) \<and>
        srv_upnp s' = Upnp_at upnp' \<and> upnp_reach gl upnp' \<and> srv_calls s' = srv_calls s @ eff \<and>
        (if synchronous t then \<exists>r. eff = [Return_response m r, Task_completed]
         else async_reach gl m (start_run t' eff)))"

lemma run_sync_task:
  assumes "srv_upnp s = Upnp_at upnp" and "upnp_reach gl upnp"
    and "t \<in> {dld_task_get_version_new m, dld_task_get_devices_new m, dld_task_rescan_new m}"
  shows "task_runs ops gl msg_new m t s"
proof -
  obtain paths where ids: "dld_upnp_get_device_ids upnp = Some (GArray ''o'' (map GObjPath paths))"
    using device_ids_announced [OF assms(2)] by blast
  have "upnp_reach gl (dld_upnp_rescan upnp)"
    using reach_step [OF assms(2), of Ev_rescan] by (simp add: ev_possible.simps upnp_step.simps)
  with assms ids show ?thesis
    by (auto simp: task_runs_def prv_process_task_def prv_process_sync_task_def constructor_defs
        dld_task_complete_def g_variant_new_fmt_def)
qed

lemma keep_device_same:
  assumes inv: "upnp_inv s" and st: "started_task m t a" and path: "task_path t = Some path"
    and run: "on_checked_device (keep_device f) s t = Some (s', t', eff)"
  shows "s' = s"
proof -
  have t: "task_path t = Some path" "task_async t = Some a" using st path by (simp_all add: started_task_def)
  from inv t show ?thesis
  proof (cases rule: checked_device)
    case (1 d u)
    then show ?thesis
      using run by (auto simp: on_checked_device_def keep_device_def set_device_def usable_def fun_upd_idem
          split: bind_splits)
  qed (use run in \<open>simp add: on_checked_device_def\<close>)
qed

lemma wanted_cancellable: "wanted_device (new_cancellable t) s = wanted_device t s"
  by (simp add: wanted_device_def new_cancellable_def)

context device_task
begin

lemma service_runs:
  assumes s: "srv_upnp s = Upnp_at upnp" "upnp_reach gl upnp" and st: "started_task m (new_cancellable t) a"
    and path: "task_path t = Some path"
    and f: "\<And>d. usable upnp d \<Longrightarrow> wanted_device t upnp = Some d \<Longrightarrow> f d (new_cancellable t) \<noteq> None"
    and reach: "\<And>upnp' t' eff. on_checked_device f upnp (new_cancellable t) = Some (upnp', t', eff) \<Longrightarrow>
      upnp_reach gl upnp'"
    and run: "prv_process_task ops gl msg_new t s = on_upnp (on_checked_device f) (new_cancellable t) s"
    and async: "\<not> synchronous t"
  shows "task_runs ops gl msg_new m t s"
proof -
  have inv: "upnp_inv upnp" by (rule reach_inv [OF s(2)])
  have path': "task_path (new_cancellable t) = Some path" using path by (simp add: new_cancellable_def)
  have "task_async (new_cancellable t) = Some a" using st by (simp add: started_task_def)
  then have "on_checked_device f upnp (new_cancellable t) \<noteq> None"
    by (rule operation_defined [OF inv path']) (simp add: f wanted_cancellable)
  then obtain upnp' t' eff where op: "on_checked_device f upnp (new_cancellable t) = Some (upnp', t', eff)"
    by auto
  have "async_reach gl m (start_run t' eff)"
    by (rule async_reach.start) (rule operation_starts(1) [OF inv st path' op])
  then show ?thesis
    unfolding task_runs_def run using async reach [OF op] s by (simp add: on_upnp_def op)
qed

end

lemma device_task_new:
  "dld_task_get_prop_new gl m object params = Some t \<Longrightarrow>
     (\<exists>a. started_task m (new_cancellable t) a) \<and> task_path t = Some (g_strstrip gl object) \<and>
     task_type t = DLD_TASK_GET_PROP \<and> \<not> synchronous t \<and> (\<exists>i p. task_ut t = Ut_get_prop i p)"
  "dld_task_get_props_new gl m object params = Some t \<Longrightarrow>
     (\<exists>a. started_task m (new_cancellable t) a) \<and> task_path t = Some (g_strstrip gl object) \<and>
     task_type t = DLD_TASK_GET_ALL_PROPS \<and> \<not> synchronous t \<and> (\<exists>i. task_ut t = Ut_get_props i)"
  "dld_task_get_icon_new gl m object params = Some t \<Longrightarrow>
     (\<exists>a. started_task m (new_cancellable t) a) \<and> task_path t = Some (g_strstrip gl object) \<and>
     task_type t = DLD_TASK_GET_ICON \<and> \<not> synchronous t"
  "dld_task_manager_get_prop_new gl m object params = Some t \<Longrightarrow>
     (\<exists>a. started_task m (new_cancellable t) a) \<and>
     task_type t = DLD_TASK_MANAGER_GET_PROP \<and> \<not> synchronous t \<and> (\<exists>i p. task_ut t = Ut_get_prop i p)"
  "dld_task_manager_get_props_new gl m object params = Some t \<Longrightarrow>
     (\<exists>a. started_task m (new_cancellable t) a) \<and>
     task_type t = DLD_TASK_MANAGER_GET_ALL_PROPS \<and> \<not> synchronous t \<and> (\<exists>i. task_ut t = Ut_get_props i)"
  "dld_task_manager_set_prop_new gl m object params = Some t \<Longrightarrow>
     (\<exists>a. started_task m (new_cancellable t) a) \<and>
     task_type t = DLD_TASK_MANAGER_SET_PROP \<and> \<not> synchronous t \<and> (\<exists>i p v. task_ut t = Ut_set_prop i p v)"
  by (auto simp: constructor_defs started_task_def new_cancellable_def async_zero_def
      split: gvariant.splits list.splits)

lemma new_cancellable_fields [simp]:
  "task_ut (new_cancellable t) = task_ut t" "task_type (new_cancellable t) = task_type t"
  "task_path (new_cancellable t) = task_path t" "synchronous (new_cancellable t) = synchronous t"
  by (simp_all add: new_cancellable_def)

subsection \<open>Properties\<close>

text \<open>The interfaces with their handlers.\<close>

definition service_handlers ::
  "(intro_interface \<times> ('st settings_ops \<Rightarrow> glib \<Rightarrow> string \<Rightarrow> string \<Rightarrow> string \<Rightarrow> gvariant \<Rightarrow> msg_id \<Rightarrow>
     'st dld_context \<Rightarrow> 'st dld_context option)) list" where
  "service_handlers =
     zip g_root_introspection g_root_vtables @ zip g_diagnostics_device_introspection g_server_vtables"

lemma declared_call_handled:
  assumes "srv_upnp s = Upnp_at upnp" and "upnp_reach gl upnp"
    and "(iface, handler) \<in> set service_handlers"
    and "md \<in> set (ii_methods iface)" and "has_types (in_types md) params"
  shows "\<exists>s'. handler ops gl sender object (im_name md) params m s = Some s' \<and>
     handled gl m sender md s s'"
proof -
  note inv = reach_inv [OF assms(2)]
  consider "iface = manager_interface" "handler = g_root_vtables ! 0"
    | "iface = manager_properties_interface" "handler = g_root_vtables ! 1"
    | "iface = device_properties_interface" "handler = g_server_vtables ! 0"
    | "iface = device_interface" "handler = g_server_vtables ! 1"
    using assms(3) by (auto simp: service_handlers_def g_root_introspection_def g_root_vtables_def
        g_diagnostics_device_introspection_def g_server_vtables_def)
  then show ?thesis
  proof cases
    case 1
    then show ?thesis using root_call_handled assms(4) by (simp add: g_root_vtables_def)
  next
    case 2
    then show ?thesis using manager_props_call_handled assms(4,5) by (simp add: g_root_vtables_def)
  next
    case 3
    then show ?thesis using device_props_call_handled [OF assms(1) inv] assms(4,5) by (simp add: g_server_vtables_def)
  next
    case 4
    then show ?thesis using device_call_handled [OF assms(1) inv] assms(4,5) by (simp add: g_server_vtables_def)
  qed
qed


text \<open>The service right after its start, with the settings of \<open>Manager\<close>.\<close>

definition sample_service :: "(bool \<times> bool \<times> gvariant option) dld_context" where
  "sample_service = snd (prv_control_point_start_service memory_settings (\<lambda>i. of_nat i + 1)
     (prv_control_point_initialize (\<lambda>name clients. name \<notin> set clients) (False, False, None)))"

lemma sample_service_upnp: "srv_upnp sample_service = Upnp_at dld_upnp_new"
  by (simp add: sample_service_def prv_control_point_start_service_def prv_white_list_init_def Let_def
      DLD_MANAGER_INTERFACE_INFO_MAX_def prv_control_point_initialize_def del: core_emit.simps)


subsection \<open>Every task of a client can be run\<close>

text \<open>
  What the requests rely on and the code does not check: the device that is asked for all its
  properties has described every one of them, the icon that is to be sent has a MIME type, the new
  value for a flag is a boolean. \<open>task_undefined\<close> says when a task fails this.
\<close>

definition task_undefined :: "glib \<Rightarrow> dld_upnp \<Rightarrow> dld_task \<Rightarrow> bool" where
  "task_undefined gl upnp t \<longleftrightarrow>
     (case task_type t of
        DLD_TASK_GET_ALL_PROPS \<Rightarrow>
          (case (wanted_device t upnp, task_ut t) of
             (Some d, Ut_get_props i) \<Rightarrow> is_device_interface i \<and> None \<in> snd ` set (dev_props d)
           | _ \<Rightarrow> False)
      | DLD_TASK_GET_ICON \<Rightarrow>
          (case wanted_device t upnp of
             Some d \<Rightarrow> icon_size d \<noteq> 0 \<and> \<not> icon_typed gl d
           | None \<Rightarrow> False)
      | DLD_TASK_MANAGER_SET_PROP \<Rightarrow>
          (case task_ut t of
             Ut_set_prop i name v \<Rightarrow>
               is_manager_interface i \<and>
               name \<in> {DLD_INTERFACE_PROP_NEVER_QUIT, DLD_INTERFACE_PROP_WHITE_LIST_ENABLED} \<and>
               g_variant_get_boolean v = None
           | _ \<Rightarrow> False)
      | _ \<Rightarrow> False)"

text \<open>It does not happen if all known devices are described and the value for a flag is a boolean.\<close>

definition described :: "glib \<Rightarrow> dld_device \<Rightarrow> bool" where
  "described gl d \<longleftrightarrow> prv_add_props (dev_props d) \<noteq> None \<and> (icon_size d \<noteq> 0 \<longrightarrow> icon_typed gl d)"

definition known_described :: "glib \<Rightarrow> dld_upnp \<Rightarrow> bool" where
  "known_described gl upnp \<longleftrightarrow>
     list_all (\<lambda>(u, a). case devices upnp a of None \<Rightarrow> True | Some d \<Rightarrow> described gl d) (device_udn_map upnp)"

definition flag_typed :: "dld_task \<Rightarrow> bool" where
  "flag_typed t \<longleftrightarrow>
     (case task_ut t of
        Ut_set_prop i name v \<Rightarrow>
          name \<in> {DLD_INTERFACE_PROP_NEVER_QUIT, DLD_INTERFACE_PROP_WHITE_LIST_ENABLED} \<longrightarrow>
          g_variant_get_boolean v \<noteq> None
      | _ \<Rightarrow> True)"

lemma known_device_described:
  assumes "known_described gl upnp" and "map_of (device_udn_map upnp) u = Some a" and "devices upnp a = Some d"
  shows "described gl d"
  using assms(1,3) map_of_SomeD [OF assms(2)] by (fastforce simp: known_described_def list_all_iff)

lemma add_props_undefined: "prv_add_props props = None \<longleftrightarrow> None \<in> snd ` set props"
  by (induction props) (auto split: option.splits)

lemma run_action_task:
  assumes s: "srv_upnp s = Upnp_at upnp" "upnp_reach gl upnp" and new: "action_task_new gl type m object params = Some t"
  shows "task_runs ops gl msg_new m t s"
proof -
  obtain a where st: "started_task m (new_cancellable t) a" using action_task_started(1) [OF new] ..
  have path: "task_path t = Some (g_strstrip gl object)" by (rule action_task_started(4) [OF new])
  have path': "task_path (new_cancellable t) = Some (g_strstrip gl object)" by (simp add: path)
  have async: "\<not> synchronous t" using st by (simp add: started_task_def)
  note op = upnp_action_eq [OF action_new_type [OF new]]
  have "prv_process_task ops gl msg_new t s = on_upnp (upnp_action type) (new_cancellable t) s"
    using async action_new_type [OF new] action_task_started(2) [OF new]
    by (auto simp: prv_process_task_def prv_process_async_task_def is_action_def upnp_action_def [abs_def])
  then have run: "prv_process_task ops gl msg_new t s =
      on_upnp (on_checked_device (keep_device (device_action type))) (new_cancellable t) s"
    by (simp add: op on_upnp_def split: upnp_pointer.splits)
  show ?thesis
  proof (rule action_call.service_runs [OF s st path _ _ run async])
    show "keep_device (device_action type) d (new_cancellable t) \<noteq> None" if "usable upnp d" for d
      using action_handler_defined [OF new that] by (simp add: keep_device_def)
    show "upnp_reach gl upnp'"
      if "on_checked_device (keep_device (device_action type)) upnp (new_cancellable t) = Some (upnp', t', eff)"
      for upnp' t' eff
      using keep_device_same [OF reach_inv [OF s(2)] st path' that] s(2) by simp
  qed
qed

lemma run_prop_task:
  assumes s: "srv_upnp s = Upnp_at upnp" "upnp_reach gl upnp" and new: "dld_task_get_prop_new gl m object params = Some t"
  shows "task_runs ops gl msg_new m t s"
proof -
  obtain a i p where st: "started_task m (new_cancellable t) a" and path: "task_path t = Some (g_strstrip gl object)"
    and t: "task_type t = DLD_TASK_GET_PROP" "\<not> synchronous t" "task_ut t = Ut_get_prop i p"
    using device_task_new(1) [OF new] by blast
  have path': "task_path (new_cancellable t) = Some (g_strstrip gl object)" by (simp add: path)
  show ?thesis
  proof (rule prop_call.service_runs [OF s st path _ _ _ t(2)])
    show "keep_device dld_device_get_prop d (new_cancellable t) \<noteq> None" for d
      using get_prop_defined [of "new_cancellable t" i p d] t(3) by (auto simp: keep_device_def)
    show "upnp_reach gl upnp'"
      if "on_checked_device (keep_device dld_device_get_prop) upnp (new_cancellable t) = Some (upnp', t', eff)"
      for upnp' t' eff
      using keep_device_same [OF reach_inv [OF s(2)] st path' that] s(2) by simp
  qed (simp add: prv_process_task_def prv_process_async_task_def t upnp_op_defs [abs_def])
qed

lemma run_props_task:
  assumes s: "srv_upnp s = Upnp_at upnp" "upnp_reach gl upnp" and ok: "\<not> task_undefined gl upnp t"
    and new: "dld_task_get_props_new gl m object params = Some t"
  shows "task_runs ops gl msg_new m t s"
proof -
  obtain a i where st: "started_task m (new_cancellable t) a" and path: "task_path t = Some (g_strstrip gl object)"
    and t: "task_type t = DLD_TASK_GET_ALL_PROPS" "\<not> synchronous t" "task_ut t = Ut_get_props i"
    using device_task_new(2) [OF new] by blast
  have path': "task_path (new_cancellable t) = Some (g_strstrip gl object)" by (simp add: path)
  show ?thesis
  proof (rule all_props_call.service_runs [OF s st path _ _ _ t(2)])
    show "keep_device dld_device_get_all_props d (new_cancellable t) \<noteq> None"
      if "wanted_device t upnp = Some d" for d
    proof -
      have "is_device_interface i \<longrightarrow> prv_add_props (dev_props d) \<noteq> None"
        using ok that by (simp add: task_undefined_def t(1,3) add_props_undefined)
      then show ?thesis by (simp add: keep_device_def dld_device_get_all_props_def prv_get_props_def t(3))
    qed
    show "upnp_reach gl upnp'"
      if "on_checked_device (keep_device dld_device_get_all_props) upnp (new_cancellable t) = Some (upnp', t', eff)"
      for upnp' t' eff
      using keep_device_same [OF reach_inv [OF s(2)] st path' that] s(2) by simp
  qed (simp add: prv_process_task_def prv_process_async_task_def t upnp_op_defs [abs_def])
qed

lemma run_icon_task:
  assumes s: "srv_upnp s = Upnp_at upnp" "upnp_reach gl upnp" and ok: "\<not> task_undefined gl upnp t"
    and new: "dld_task_get_icon_new gl m object params = Some t"
  shows "task_runs ops gl msg_new m t s"
proof -
  obtain a where st: "started_task m (new_cancellable t) a" and path: "task_path t = Some (g_strstrip gl object)"
    and t: "task_type t = DLD_TASK_GET_ICON" "\<not> synchronous t"
    using device_task_new(3) [OF new] by blast
  have a: "task_async (new_cancellable t) = Some a" using st by (simp add: started_task_def)
  have "ev_possible gl (Ev_get_icon msg_new (new_cancellable t)) upnp" using a path by (simp add: ev_possible.simps)
  note step = reach_step [OF s(2) this]
  show ?thesis
  proof (rule icon_call.service_runs [OF s st path _ _ _ t(2)])
    show "dld_device_get_icon gl msg_new d (new_cancellable t) \<noteq> None"
      if "usable upnp d" and "wanted_device t upnp = Some d" for d
    proof -
      have "icon_size d \<noteq> 0 \<longrightarrow> icon_typed gl d"
        using ok that(2) by (auto simp: task_undefined_def t(1))
      with that(1) a show ?thesis using get_icon_defined [of upnp d "new_cancellable t" gl msg_new] by auto
    qed
    show "upnp_reach gl upnp'"
      if "on_checked_device (dld_device_get_icon gl msg_new) upnp (new_cancellable t) = Some (upnp', t', eff)"
      for upnp' t' eff
      using that by (intro step) (simp add: upnp_step.simps upnp_op_defs)
  qed (simp add: prv_process_task_def prv_process_async_task_def t upnp_op_defs [abs_def])
qed

lemma run_manager_task:
  assumes s: "srv_upnp s = Upnp_at upnp" "upnp_reach gl upnp" and st: "started_task m (new_cancellable t) a"
    and run: "prv_process_task ops gl msg_new t s = Some (core_emit eff (s\<lparr>srv_settings := st'\<rparr>), t', eff)"
    and reach: "async_reach gl m (start_run t' eff)"
  shows "task_runs ops gl msg_new m t s"
proof -
  have "\<not> synchronous t" using st by (simp add: started_task_def)
  with s run reach show ?thesis by (simp add: task_runs_def)
qed

lemma run_manager_tasks:
  assumes s: "srv_upnp s = Upnp_at upnp" "upnp_reach gl upnp"
  shows "dld_task_manager_get_prop_new gl m object params = Some t \<Longrightarrow> task_runs ops gl msg_new m t s"
    and "dld_task_manager_get_props_new gl m object params = Some t \<Longrightarrow> task_runs ops gl msg_new m t s"
    and "dld_task_manager_set_prop_new gl m object params = Some t \<Longrightarrow> \<not> task_undefined gl upnp t \<Longrightarrow>
      task_runs ops gl msg_new m t s"
proof -
  assume "dld_task_manager_get_prop_new gl m object params = Some t"
  then obtain a i p where st: "started_task m (new_cancellable t) a"
    and t: "task_type t = DLD_TASK_MANAGER_GET_PROP" "\<not> synchronous t" "task_ut t = Ut_get_prop i p"
    using device_task_new(4) by blast
  obtain t' eff where g: "dld_manager_get_prop ops (srv_settings s) (new_cancellable t) = Some (t', eff)"
    using t(3) by (simp add: dld_manager_get_prop_def Let_def)
  show "task_runs ops gl msg_new m t s"
    by (rule run_manager_task [OF s st, where eff = eff and st' = "srv_settings s" and t' = t'])
      (simp_all add: prv_process_task_def prv_process_async_task_def t g manager_get.handler_reach [OF st g])
next
  assume "dld_task_manager_get_props_new gl m object params = Some t"
  then obtain a i where st: "started_task m (new_cancellable t) a"
    and t: "task_type t = DLD_TASK_MANAGER_GET_ALL_PROPS" "\<not> synchronous t" "task_ut t = Ut_get_props i"
    using device_task_new(5) by blast
  obtain t' eff where g: "dld_manager_get_all_props ops (srv_settings s) (new_cancellable t) = Some (t', eff)"
    using t(3) by (simp add: dld_manager_get_all_props_def Let_def)
  show "task_runs ops gl msg_new m t s"
    by (rule run_manager_task [OF s st, where eff = eff and st' = "srv_settings s" and t' = t'])
      (simp_all add: prv_process_task_def prv_process_async_task_def t g manager_get_all.handler_reach [OF st g])
next
  assume new: "dld_task_manager_set_prop_new gl m object params = Some t" and ok: "\<not> task_undefined gl upnp t"
  then obtain a i p v where st: "started_task m (new_cancellable t) a"
    and t: "task_type t = DLD_TASK_MANAGER_SET_PROP" "\<not> synchronous t" "task_ut t = Ut_set_prop i p v"
    using device_task_new(6) by blast
  have "is_manager_interface i \<longrightarrow> set_property ops p v (srv_settings s) \<noteq> None"
    using t(1,3) ok by (auto simp: task_undefined_def set_property_def simp del: not_None_eq split_paired_Ex)
  then have "dld_manager_set_prop ops (srv_settings s) (new_cancellable t) \<noteq> None"
    using t(3) by (simp add: dld_manager_set_prop_def Let_def set_property_def [symmetric] del: not_None_eq)
  then obtain st' t' eff where g: "dld_manager_set_prop ops (srv_settings s) (new_cancellable t) = Some (st', t', eff)"
    by auto
  show "task_runs ops gl msg_new m t s"
    by (rule run_manager_task [OF s st, where eff = eff and st' = st' and t' = t'])
      (simp_all add: prv_process_task_def prv_process_async_task_def t g
        manager_set.handler_reach [OF st, of ops "srv_settings s" t' eff])
qed

lemma run_defined_task:
  assumes "srv_upnp s = Upnp_at upnp" and "upnp_reach gl upnp" and "client_task gl m t"
    and "\<not> task_undefined gl upnp t"
  shows "task_runs ops gl msg_new m t s"
  using assms(3)
proof cases
  case version_task
  then show ?thesis by (intro run_sync_task [OF assms(1,2)]) simp
next
  case devices_task
  then show ?thesis by (intro run_sync_task [OF assms(1,2)]) simp
next
  case rescan_task
  then show ?thesis by (intro run_sync_task [OF assms(1,2)]) simp
next
  case prop_task
  then show ?thesis by (rule run_prop_task [OF assms(1,2)])
next
  case props_task
  then show ?thesis by (rule run_props_task [OF assms(1,2,4)])
next
  case icon_task
  then show ?thesis by (rule run_icon_task [OF assms(1,2,4)])
next
  case manager_prop_task
  then show ?thesis by (rule run_manager_tasks(1) [OF assms(1,2)])
next
  case manager_props_task
  then show ?thesis by (rule run_manager_tasks(2) [OF assms(1,2)])
next
  case manager_set_task
  then show ?thesis by (rule run_manager_tasks(3) [OF assms(1,2) _ assms(4)])
next
  case action_task
  then show ?thesis by (rule run_action_task [OF assms(1,2)])
qed

text \<open>The cases of \<open>task_undefined\<close> really have no defined behaviour.\<close>

lemma wanted_checked:
  assumes "wanted_device t s = Some d" and "task_async t = Some a"
  shows "prv_get_and_check_device s t = Some (Some d, t, [])"
  using assms by (auto simp: wanted_device_def prv_get_and_check_device_def split: option.splits)

lemma on_wanted_device:
  assumes "srv_upnp s = Upnp_at upnp" and "wanted_device t upnp = Some d" and "f d (new_cancellable t) = None"
    and "task_async (new_cancellable t) = Some a"
  shows "on_upnp (on_checked_device f) (new_cancellable t) s = None"
  using wanted_checked [of "new_cancellable t" upnp d] assms
  by (simp add: on_upnp_def on_checked_device_def wanted_cancellable)

lemma run_undefined_task:
  assumes s: "srv_upnp s = Upnp_at upnp" and t: "client_task gl m t" and u: "task_undefined gl upnp t"
  shows "prv_process_task ops gl msg_new t s = None"
proof -
  have no: thesis if "task_type t \<notin> {DLD_TASK_GET_ALL_PROPS, DLD_TASK_GET_ICON, DLD_TASK_MANAGER_SET_PROP}" for thesis
    using u that by (auto simp: task_undefined_def split: dld_task_type.splits)
  from t show ?thesis
  proof cases
    case (props_task object params)
    then obtain a i where st: "started_task m (new_cancellable t) a"
      and ty: "task_type t = DLD_TASK_GET_ALL_PROPS" "\<not> synchronous t" "task_ut t = Ut_get_props i"
      using device_task_new(2) by blast
    obtain d where d: "wanted_device t upnp = Some d" "is_device_interface i" "None \<in> snd ` set (dev_props d)"
      using u by (auto simp: task_undefined_def ty split: option.splits)
    then have "prv_add_props (dev_props d) = None" by (simp add: add_props_undefined)
    then have "keep_device dld_device_get_all_props d (new_cancellable t) = None"
      by (simp add: keep_device_def dld_device_get_all_props_def prv_get_props_def ty(3) d(2))
    from on_wanted_device [where f = "keep_device dld_device_get_all_props", OF s d(1) this] st show ?thesis
      by (simp add: prv_process_task_def prv_process_async_task_def ty upnp_op_defs started_task_def)
  next
    case (icon_task object params)
    then obtain a where st: "started_task m (new_cancellable t) a"
      and ty: "task_type t = DLD_TASK_GET_ICON" "\<not> synchronous t"
      using device_task_new(3) by blast
    obtain d where d: "wanted_device t upnp = Some d" "icon_size d \<noteq> 0" "\<not> icon_typed gl d"
      using u by (auto simp: task_undefined_def ty split: option.splits)
    then have "dld_device_get_icon gl msg_new d (new_cancellable t) = None"
      by (simp add: dld_device_get_icon_def prv_build_icon_result_def icon_typed_def)
    from on_wanted_device [where f = "dld_device_get_icon gl msg_new", OF s d(1) this] st show ?thesis
      by (simp add: prv_process_task_def prv_process_async_task_def ty upnp_op_defs started_task_def)
  next
    case (manager_set_task object params)
    then obtain a i p v where ty: "task_type t = DLD_TASK_MANAGER_SET_PROP" "\<not> synchronous t"
      "task_ut t = Ut_set_prop i p v"
      using device_task_new(6) by blast
    then have "dld_manager_set_prop ops (srv_settings s) (new_cancellable t) = None"
      using u by (auto simp: task_undefined_def dld_manager_set_prop_def Let_def)
    then show ?thesis by (simp add: prv_process_task_def prv_process_async_task_def ty)
  next
    case (prop_task object params)
    show ?thesis by (rule no) (use device_task_new(1) [OF prop_task] in simp)
  next
    case (manager_prop_task object params)
    show ?thesis by (rule no) (use device_task_new(4) [OF manager_prop_task] in simp)
  next
    case (manager_props_task object params)
    show ?thesis by (rule no) (use device_task_new(5) [OF manager_props_task] in simp)
  next
    case (action_task type object params)
    show ?thesis
      by (rule no) (use action_new_type [OF action_task] action_task_started(2) [OF action_task] in
        \<open>auto simp: is_action_def\<close>)
  qed (rule no, simp add: constructor_defs)+
qed

lemma client_task_defined:
  assumes "srv_upnp s = Upnp_at upnp" and "upnp_reach gl upnp" and "client_task gl m t"
  shows "prv_process_task ops gl msg_new t s = None \<longleftrightarrow> task_undefined gl upnp t"
proof (cases "task_undefined gl upnp t")
  case True
  then show ?thesis using run_undefined_task [OF assms(1,3)] by simp
next
  case False
  then show ?thesis using run_defined_task [OF assms False, of ops msg_new] by (auto simp: task_runs_def)
qed

lemma task_ran:
  assumes "srv_upnp s = Upnp_at upnp" and "upnp_reach gl upnp" and "client_task gl m t"
    and "prv_process_task ops gl msg_new t s = Some (s', t', eff)"
  shows "task_runs ops gl msg_new m t s"
  using run_defined_task [OF assms(1-3)] client_task_defined [OF assms(1-3), of ops msg_new] assms(4) by simp

lemma described_defined:
  assumes "upnp_reach gl upnp" and "known_described gl upnp" and "flag_typed t"
  shows "\<not> task_undefined gl upnp t"
proof -
  have "described gl d" if "wanted_device t upnp = Some d" for d
  proof -
    obtain ds where ds: "known_devices upnp = Some ds"
      "set ds = {d. \<exists>u a. map_of (device_udn_map upnp) u = Some a \<and> devices upnp a = Some d}"
      by (rule known_devices_usable [OF reach_inv [OF assms(1)]])
    with that have "d \<in> set ds" by (auto simp: wanted_device_def dest: device_from_path_Some split: option.splits)
    then show ?thesis using ds(2) known_device_described [OF assms(2)] by blast
  qed
  then show ?thesis
    using assms(3)
    by (fastforce simp: add_props_undefined task_undefined_def described_def flag_typed_def split: dld_task_type.splits option.splits task_ut.splits)
qed

lemma run_client_task:
  assumes "srv_upnp s = Upnp_at upnp" and "upnp_reach gl upnp" and "client_task gl m t"
    and "known_described gl upnp" and "flag_typed t"
  shows "task_runs ops gl msg_new m t s"
  by (rule run_defined_task [OF assms(1-3) described_defined [OF assms(2,4,5)]])

text \<open>C9: Whatever the service and its registry have been through, the task processor can run any
  task that a client's call became: running it is defined, the registry stays in a state it can be
  in, and the log grows by the calls that the task makes. A synchronous task sends its one response
  and completes; an asynchronous task is in a state of its life in which it will be answered once,
  whatever happens to it. The devices must have described their properties, and a new value for a
  flag must be a boolean.\<close>

theorem client_task_runs:
  assumes "srv_upnp s = Upnp_at upnp" and "upnp_reach gl upnp" and "client_task gl m t"
    and "known_described gl upnp" and "flag_typed t"
  shows "\<exists>s' t' eff upnp'. prv_process_task ops gl msg_new t s = Some (s', t', eff) \<and>
     srv_upnp s' = Upnp_at upnp' \<and> upnp_reach gl upnp' \<and> srv_calls s' = srv_calls s @ eff \<and>
     (if synchronous t then \<exists>r. eff = [Return_response m r, Task_completed]
      else async_reach gl m (start_run t' eff))"
  using run_client_task [OF assms] by (simp add: task_runs_def)

theorem client_task_runs_witness:
  "\<exists>s' t' eff. prv_process_task memory_settings glib_ref (\<lambda>_. True) (dld_task_rescan_new 4) sample_service =
     Some (s', t', eff) \<and> (\<exists>r. eff = [Return_response 4 r, Task_completed])"
proof -
  have "known_described glib_ref dld_upnp_new" "flag_typed (dld_task_rescan_new 4)"
    by (simp_all add: known_described_def flag_typed_def dld_upnp_new_def constructor_defs)
  from client_task_runs [OF sample_service_upnp reach_new rescan_task this, of memory_settings "\<lambda>_. True"]
  show ?thesis by (auto simp: constructor_defs)
qed

end
