(* ===== verification/Server_Life.thy ===== *)
theory Server_Life
  imports Server_Props Upnp_Life
begin

section \<open>The life of the service\<close>

text \<open>
  The service from its start to its end: the clients call methods, are lost or release the service,
  the task processor runs their tasks, and the registry handles the events of the network. In every
  state that this leads to, the watched clients are counted, every queue belongs to a watched client,
  and every waiting task can be run.
\<close>

subsection \<open>The calls that the registry makes\<close>

text \<open>
  The registry neither watches clients nor adds their queues, and it does not end the service. What
  it does to the queues is to remove those for a device that is lost.
\<close>

definition registry_call :: "effect \<Rightarrow> bool" where
  "registry_call e \<longleftrightarrow>
     (case e of
        Watch_client _ \<Rightarrow> False | Unwatch_client _ \<Rightarrow> False | Add_client_queue _ _ \<Rightarrow> False
      | Remove_queues_for_source _ \<Rightarrow> False | Set_quitting \<Rightarrow> False | _ \<Rightarrow> True)"

lemma registry_call_simps [simp]:
  "registry_call (Set_subscribed p b)" "registry_call (Add_notify p v cb a)"
  "registry_call (Remove_notify p v cb a)" "registry_call (Connect_subscription_lost p a)"
  "registry_call (Timeout_add i n t)" "registry_call (Source_remove i)" "registry_call Idle_add"
  "registry_call (Object_unref p)" "registry_call Device_proxy_ref" "registry_call Device_proxy_unref"
  "registry_call (Publish_object path b iface)" "registry_call (Unpublish_object j)"
  "registry_call (Notify path iface sig w)" "registry_call (Add_queue a)" "registry_call (Set_finally a f)"
  "registry_call (Set_user_data a r)" "registry_call (Add_service_task a u)"
  "registry_call (Queue_start a)" "registry_call (Cancel_queue a)"
  "registry_call (Remove_queues_for_sink path)" "registry_call Rescan_control_points"
  "registry_call (Control_point_new ip target)" "registry_call (Signal_connect sig)"
  "registry_call (Browser_set_active b)" "registry_call Manage_control_point" "registry_call Control_point_unref"
  "registry_call (Other_call c)"
  by (simp_all add: registry_call_def)

lemma context_calls:
  "list_all registry_call (snd (prv_context_unsubscribe c))"
  "list_all registry_call (prv_dld_context_delete c)"
  "list_all registry_call (snd (subscribe_context a c))"
  "list_all registry_call (snd (prv_bms_subscription_lost_cb tid c))"
  by (simp_all add: prv_context_unsubscribe_def prv_dld_context_delete_def subscribe_context_def
      prv_bms_subscription_lost_cb_def remove_notifies_def Let_def)

lemma upd_context_calls:
  "(\<And>c. list_all registry_call (snd (f c))) \<Longrightarrow> list_all registry_call (snd (upd_context i f d))"
  by (simp add: upd_context_def case_prod_unfold Let_def)

lemma unsubscribe_all_calls: "list_all registry_call (snd (unsubscribe_all cs))"
  by (induction cs) (simp_all add: context_calls case_prod_unfold Let_def)

lemma declare_loop_calls: "list_all registry_call (snd (snd (declare_loop pub path js ids)))"
  by (induction pub path js ids rule: declare_loop.induct) (simp_all add: case_prod_unfold Let_def)

lemma list_all_concat_map: "(\<And>x. list_all P (f x)) \<Longrightarrow> list_all P (concat (map f xs))"
  by (induction xs) simp_all

lemma subscribe_calls:
  "dld_device_subscribe_to_service_changes d = Some (d', eff) \<Longrightarrow> list_all registry_call eff"
  using upd_context_calls [of "subscribe_context (dev_ref d)"] context_calls
  by (auto simp: dld_device_subscribe_to_service_changes_def split: option.splits) (metis snd_conv)

lemma subscribe_context_calls: "prv_device_subscribe_context d = Some (d', eff) \<Longrightarrow> list_all registry_call eff"
  using upd_context_calls [of prv_context_unsubscribe] context_calls
  by (auto simp: prv_device_subscribe_context_def case_prod_unfold Let_def dest: subscribe_calls
      split: option.splits if_splits)

lemma device_calls:
  "list_all registry_call (dld_device_delete d)"
  "list_all registry_call (dld_device_construct d q)"
  "list_all registry_call (snd (dld_device_unsubscribe d))"
  "list_all registry_call (snd (snd (prv_declare pub d)))"
  "change_and_signal key val d = (d', eff) \<Longrightarrow> list_all registry_call eff"
  "dld_device_append_new_context ref ip info bms d = Some (d', eff) \<Longrightarrow> list_all registry_call eff"
  "dld_device_new gl ref ctx info bms ip counter q = Some (d', eff) \<Longrightarrow> list_all registry_call eff"
  "prv_subscribe d = Some (d', eff) \<Longrightarrow> list_all registry_call eff"
proof -
  show "list_all registry_call (dld_device_delete d)"
    by (simp add: dld_device_delete_def list_all_concat_map context_calls list.pred_map comp_def list.pred_True)
  show "list_all registry_call (snd (dld_device_unsubscribe d))"
    using unsubscribe_all_calls by (simp add: dld_device_unsubscribe_def case_prod_unfold Let_def)
  show "list_all registry_call (snd (snd (prv_declare pub d)))"
    using declare_loop_calls by (simp add: prv_declare_def case_prod_unfold Let_def)
  show c: "list_all registry_call (dld_device_construct d q)" for d q
    by (simp add: dld_device_construct_def)
  show "list_all registry_call eff" if "dld_device_new gl ref ctx info bms ip counter q = Some (d', eff)"
    using that c by (auto simp: dld_device_new_def prv_device_append_new_context_def prv_context_new_def Let_def)
  show "list_all registry_call eff" if "dld_device_append_new_context ref ip info bms d = Some (d', eff)"
    using that by (auto simp: dld_device_append_new_context_def prv_device_append_new_context_def
        prv_context_new_def Let_def dest: subscribe_context_calls)
  show "list_all registry_call eff" if "prv_subscribe d = Some (d', eff)"
    using that by (simp add: prv_subscribe_def subscribe_context_calls)
qed (auto simp: change_and_signal_def prv_change_props_def prv_emit_signal_properties_changed_def
    case_prod_unfold Let_def)

text \<open>The log of the registry only grows, by such calls.\<close>

definition grows :: "dld_upnp \<Rightarrow> dld_upnp \<Rightarrow> bool" where
  "grows s s' \<longleftrightarrow> (\<exists>eff. calls s' = calls s @ eff \<and> list_all registry_call eff)"

lemma calls_set_device [simp]: "calls (set_device a d s) = calls s"
  by (simp add: set_device_def)

lemma grows_same: "calls s' = calls s \<Longrightarrow> grows s s'"
  by (simp add: grows_def)

lemma grows_trans: "grows s1 s2 \<Longrightarrow> grows s2 s3 \<Longrightarrow> grows s1 s3"
  by (auto simp: grows_def)

lemma grows_emit: "grows s s1 \<Longrightarrow> list_all registry_call eff \<Longrightarrow> calls s' = calls s1 @ eff \<Longrightarrow> grows s s'"
  by (auto simp: grows_def)

lemma grows_free: "free_device a s = Some s' \<Longrightarrow> grows s s'"
  by (auto simp: free_device_def emit_calls device_calls intro!: grows_emit [OF grows_same] split: option.splits)

lemma grows_tables:
  "udn_map_insert u a s = Some s' \<Longrightarrow> grows s s'"
  "udn_map_remove u s = Some s' \<Longrightarrow> grows s s'"
  by (auto simp: udn_map_insert_def udn_map_remove_def grows_def
      dest!: grows_free split: bind_splits option.splits)

lemma grows_on_device:
  assumes "on_device f a s = Some s'" and "\<And>d d' eff. f d = Some (d', eff) \<Longrightarrow> list_all registry_call eff"
  shows "grows s s'"
  using assms by (auto simp: on_device_def emit_calls set_device_def intro!: grows_emit [OF grows_same] split: bind_splits)

lemma grows_on_context:
  assumes "on_context f a r s = Some s'" and "\<And>c. list_all registry_call (snd (f c))"
  shows "grows s s'"
proof -
  obtain i where "on_device (at_context i f) a s = Some s'"
    using assms(1) by (auto simp: on_context_def split: bind_splits)
  moreover have "list_all registry_call eff" if "at_context i f d = Some (d', eff)" for d d' eff
    using upd_context_calls [of f i d, OF assms(2)] that by (auto simp: at_context_def split: if_splits)
  ultimately show ?thesis by (rule grows_on_device)
qed

lemma grows_add_device:
  assumes "prv_add_device gl info bms ip udn s = Some s'"
  shows "grows s s'"
  using assms
  by (auto simp: prv_add_device_def prv_create_device_queue_def prv_update_device_context_def set_device_def
      emit_calls env_step_def Let_def grows_def dest!: device_calls(6,7) split: bind_splits option.splits)

lemma grows_remove_known:
  assumes lk: "lookup_device udn s = Some (Some (a, uc))" and d: "devices s a = Some d"
    and i: "find_index (\<lambda>c. ctx_ip_address c = ip) (dev_contexts d) = Some i"
    and run: "prv_remove_device ip udn s = Some s'"
  shows "grows s s'"
proof -
  let ?c = "dev_contexts d ! i" and ?d1 = "remove_context i d"
  define s1 where "s1 = emit (prv_dld_context_delete ?c) (set_device a ?d1 s)"
  have s1: "grows s s1"
    using context_calls by (auto simp: s1_def emit_calls set_device_def grows_def simp del: emit.simps)
  note defs = prv_remove_device_def lk d i s1_def [symmetric] Let_def
  have "grows s1 s'"
  proof (cases uc)
    case None
    then show ?thesis
      using run by (auto simp: defs emit_calls prv_lost_diagnostics_device_def grows_def
          simp del: emit.simps dest!: grows_tables(2) split: if_splits)
  next
    case (Some p)
    then obtain pr where "privs s1 p = Some pr" using run by (auto simp: defs split: bind_splits)
    with Some show ?thesis
      using run by (auto simp: defs emit_calls grows_def uc_map_remove_def prv_create_device_queue_def
          prv_update_device_context_def device_calls simp del: emit.simps split: if_splits bind_splits)
  qed
  with s1 show ?thesis by (rule grows_trans)
qed

lemma grows_remove_device:
  assumes "prv_remove_device ip udn s = Some s'"
  shows "grows s s'"
proof -
  obtain found where lk: "lookup_device udn s = Some found"
    using assms by (auto simp: prv_remove_device_def split: bind_splits)
  show ?thesis
  proof (cases found)
    case (Some ax)
    then obtain a uc where ax: "lookup_device udn s = Some (Some (a, uc))" using lk by (cases ax) auto
    then obtain d where d: "devices s a = Some d"
      using assms by (auto simp: prv_remove_device_def split: bind_splits)
    show ?thesis
    proof (cases "find_index (\<lambda>c. ctx_ip_address c = ip) (dev_contexts d)")
      case None
      with assms show ?thesis by (simp add: prv_remove_device_def ax d grows_same)
    next
      case (Some i)
      from grows_remove_known [OF ax d this assms] show ?thesis .
    qed
  qed (use assms in \<open>simp add: prv_remove_device_def lk grows_same\<close>)
qed

text \<open>The operations on one sub-device of a device that appears or disappears.\<close>

locale growing_op =
  fixes act :: "device_info \<Rightarrow> proxy option \<Rightarrow> dld_upnp \<Rightarrow> dld_upnp option"
  assumes act_grows: "act info bms s = Some s' \<Longrightarrow> grows s s'"
begin

lemma visit_grows: "visit act infos s = Some s' \<Longrightarrow> grows s s'"
proof (induction infos arbitrary: s)
  case (Cons info infos)
  then obtain s1 where "act info (di_bms info) s = Some s1" "visit act infos s1 = Some s'"
    by (auto split: bind_splits)
  with Cons.IH act_grows show ?case by (blast intro: grows_trans)
qed (simp add: grows_same)

lemma walk_grows: "walk_sub_devices act info s = Some (p, s') \<Longrightarrow> grows s s'"
  using visit_grows by (auto simp: walk_visits)

end

interpretation add_log: growing_op "prv_add_sub_device gl ip" for gl ip
proof
  fix info bms s s'
  assume "prv_add_sub_device gl ip info bms s = Some s'"
  then show "grows s s'"
    by (auto simp: prv_add_sub_device_def grows_same dest: grows_add_device split: option.splits)
qed

interpretation remove_log: growing_op "prv_remove_sub_device ip" for ip
proof
  fix info bms s s'
  assume "prv_remove_sub_device ip info bms s = Some s'"
  then show "grows s s'"
    by (auto simp: prv_remove_sub_device_def grows_same dest: grows_remove_device split: option.splits)
qed

lemma grows_available: "prv_device_available_cb gl info ip s = Some s' \<Longrightarrow> grows s s'"
  by (auto simp: prv_device_available_cb_def prv_add_bm_service_sub_devices_def grows_same
      dest!: add_log.walk_grows grows_add_device intro: grows_trans split: option.splits bind_splits if_splits)

lemma grows_unavailable: "prv_device_unavailable_cb info ip s = Some s' \<Longrightarrow> grows s s'"
  by (auto simp: prv_device_unavailable_cb_def prv_remove_bm_service_sub_devices_def grows_same
      dest!: remove_log.walk_grows grows_remove_device intro: grows_trans split: option.splits bind_splits)

lemma grows_chain_end: "prv_device_chain_end cancelled data s = Some s' \<Longrightarrow> grows s s'"
  by (auto simp: prv_device_chain_end_def prv_device_new_free_def uc_map_remove_def emit_calls grows_def
      prv_found_diagnostics_device_def simp del: emit.simps dest!: grows_free grows_tables(1)
      split: bind_splits if_splits)

lemma grows_unsubscribe: "unsubscribe_devices as s = Some s' \<Longrightarrow> grows s s'"
proof (induction as arbitrary: s)
  case (Cons a as)
  then obtain d where "devices s a = Some d"
    and run: "unsubscribe_devices as (emit (snd (dld_device_unsubscribe d))
      (set_device a (fst (dld_device_unsubscribe d)) s)) = Some s'"
    by (auto simp: case_prod_unfold Let_def split: bind_splits)
  have "grows s (emit (snd (dld_device_unsubscribe d)) (set_device a (fst (dld_device_unsubscribe d)) s))"
    by (rule grows_emit [OF grows_same, of _ _ "snd (dld_device_unsubscribe d)"])
      (simp_all add: emit_calls device_calls)
  with Cons.IH [OF run] show ?case by (rule grows_trans [rotated])
qed (simp add: grows_same)

lemma grows_step:
  assumes "upnp_step gl e s = Some s'"
  shows "grows s s'"
  using assms
proof (cases e)
  case (Ev_available info ip)
  with assms show ?thesis by (simp add: upnp_step.simps grows_available)
next
  case (Ev_unavailable info ip)
  with assms show ?thesis by (simp add: upnp_step.simps grows_unavailable)
next
  case (Ev_run_task q pub)
  then obtain x t ts where run: "run_service_task pub q t (upd_queue q (\<lambda>x. x\<lparr>q_tasks := ts\<rparr>) s) = Some s'"
    using assms by (auto simp: upnp_step.simps split: bind_splits list.splits)
  have q: "calls (upd_queue q f s) = calls s" for f q s by (simp add: upd_queue_def)
  show ?thesis
  proof (cases t)
    case (Prv_subscribe a)
    with run have "grows (upd_queue q (\<lambda>x. x\<lparr>q_tasks := ts\<rparr>) s) s'"
      using grows_on_device device_calls(8) by (simp add: run_service_task_def)
    then show ?thesis by (simp add: grows_def q)
  next
    case (Prv_declare a)
    then show ?thesis
      using run device_calls(4) by (auto simp: run_service_task_def grows_def emit_calls q case_prod_unfold Let_def
          split: bind_splits if_splits)
  qed
next
  case (Ev_queue_end q)
  with assms show ?thesis
    by (auto simp: upnp_step.simps run_finally_def prv_device_context_switch_end_def prv_device_new_free_def
        grows_def dest!: grows_chain_end split: bind_splits queue_finally.splits if_splits)
next
  case (Ev_timer tid)
  with assms show ?thesis
    by (auto simp: upnp_step.simps run_timer_def prv_subscribe_to_service_changes_def grows_def emit_calls
        dest: subscribe_calls dest!: grows_on_context split: bind_splits timer_cb.splits)
next
  case (Ev_subscription_lost a r)
  with assms show ?thesis using grows_on_context context_calls(4) by (auto simp: upnp_step.simps)
next
  case (Ev_device_status a str)
  with assms show ?thesis
    using device_calls(5) by (auto simp: upnp_step.simps prv_bm_device_status_cb_def elim!: grows_on_device)
next
  case (Ev_test_ids a str)
  with assms show ?thesis
    using device_calls(5) by (auto simp: upnp_step.simps prv_bm_test_ids_cb_def prv_bm_test_ids_prop_change_def
        elim!: grows_on_device split: option.splits)
next
  case (Ev_active_test_ids a str)
  with assms show ?thesis
    using device_calls(5) by (auto simp: upnp_step.simps prv_bm_active_test_ids_cb_def prv_bm_test_ids_prop_change_def
        elim!: grows_on_device split: option.splits)
next
  case (Ev_get_icon msg_new t)
  with assms show ?thesis
    by (auto simp: upnp_step.simps dld_upnp_get_icon_def on_checked_device_def grows_def split: bind_splits option.splits)
next
  case (Ev_icon_session status a t)
  with assms show ?thesis by (auto simp: upnp_step.simps elim!: grows_on_device)
next
  case (Ev_context_available ip)
  with assms show ?thesis
    by (auto simp: upnp_step.simps prv_on_context_available_def grows_def emit_calls simp del: emit.simps)
next
  case Ev_rescan
  with assms show ?thesis by (auto simp: upnp_step.simps dld_upnp_rescan_def grows_def emit_calls simp del: emit.simps)
next
  case Ev_unsubscribe
  with assms show ?thesis by (simp add: upnp_step.simps dld_upnp_unsubscribe_def grows_unsubscribe)
qed

subsection \<open>The tasks of the clients\<close>

lemma action_task_wf: "action_task_new gl type m object params = Some t \<Longrightarrow> task_wf t \<and> invocation t = Some m"
  by (cases type)
    (auto simp: action_task_new_def constructor_defs task_wf_def result_fits_def freed_strings_def
      split: gvariant.splits list.splits)

lemma new_task_wf:
  "dld_task_get_prop_new gl m object params = Some t \<Longrightarrow> task_wf t \<and> invocation t = Some m"
  "dld_task_get_props_new gl m object params = Some t \<Longrightarrow> task_wf t \<and> invocation t = Some m"
  "dld_task_get_icon_new gl m object params = Some t \<Longrightarrow> task_wf t \<and> invocation t = Some m"
  "dld_task_manager_get_prop_new gl m object params = Some t \<Longrightarrow> task_wf t \<and> invocation t = Some m"
  "dld_task_manager_get_props_new gl m object params = Some t \<Longrightarrow> task_wf t \<and> invocation t = Some m"
  "dld_task_manager_set_prop_new gl m object params = Some t \<Longrightarrow> task_wf t \<and> invocation t = Some m"
  by (auto simp: constructor_defs task_wf_def result_fits_def freed_strings_def split: gvariant.splits list.splits)

lemma sync_task_wf:
  "task_wf (dld_task_get_version_new m)" "task_wf (dld_task_get_devices_new m)" "task_wf (dld_task_rescan_new m)"
  by (simp_all add: constructor_defs task_wf_def result_fits_def freed_strings_def)

lemma client_task_wf: "client_task gl m t \<Longrightarrow> task_wf t \<and> invocation t = Some m"
  by (erule client_task.cases) (auto dest: new_task_wf action_task_wf simp: sync_task_wf sync_task_fields)

text \<open>Running a task makes no call that changes the clients or the queues.\<close>

lemma harmless_simps [simp]:
  "harmless Idle_add" "harmless Cancellable_connect" "harmless (Begin_action p name args)"
  "harmless (Queue_message url)" "harmless (Return_response m r)" "harmless (Return_error m e)"
  "harmless Task_completed" "harmless (White_list_enable b)" "harmless White_list_clear"
  "harmless (White_list_add v)" "harmless (Notify path iface sig w)"
  by (simp_all add: harmless_def)

lemma connect_harmless: "g_cancellable_connect h a = (a', eff) \<Longrightarrow> list_all harmless eff"
  by (cases h) (auto simp: g_cancellable_connect_def dld_async_task_cancelled_def prv_get_icon_cancelled_def
      harmless_def split: option.splits if_splits)

lemma complete_harmless: "dld_task_complete t = Some (t', eff) \<Longrightarrow> list_all harmless eff"
  by (auto simp: dld_task_complete_def split: option.splits if_splits)

lemma begin_action_harmless: "begin_action name args d t = Some (t', eff) \<Longrightarrow> list_all harmless eff"
  by (auto simp: begin_action_def Let_def dest: connect_harmless split: option.splits prod.splits)

lemma device_handlers_harmless:
  "dld_device_get_prop d t = Some (t', eff) \<Longrightarrow> list_all harmless eff"
  "dld_device_get_all_props d t = Some (t', eff) \<Longrightarrow> list_all harmless eff"
  "dld_device_get_icon gl msg_new d t = Some (d', t', eff) \<Longrightarrow> list_all harmless eff"
  "device_action type d t = Some (t', eff) \<Longrightarrow> list_all harmless eff"
proof -
  show "device_action type d t = Some (t', eff) \<Longrightarrow> list_all harmless eff"
    by (erule device_action_begins) (rule begin_action_harmless)
qed (auto simp: dld_device_get_prop_def dld_device_get_all_props_def dld_device_get_icon_def
    Let_def dest: connect_harmless split: option.splits prod.splits if_splits)

lemma checked_device_harmless:
  assumes "on_checked_device f s t = Some (s', t', eff)"
    and "\<And>d d' t t' eff. f d t = Some (d', t', eff) \<Longrightarrow> list_all harmless eff"
  shows "list_all harmless eff"
  using assms
  by (auto simp: on_checked_device_def prv_get_and_check_device_def split: bind_splits option.splits)

lemma manager_harmless:
  "dld_manager_get_prop ops st t = Some (t', eff) \<Longrightarrow> list_all harmless eff"
  "dld_manager_get_all_props ops st t = Some (t', eff) \<Longrightarrow> list_all harmless eff"
  "dld_manager_set_prop ops st t = Some (st', t', eff) \<Longrightarrow> list_all harmless eff"
  by (auto simp: dld_manager_get_prop_def dld_manager_get_all_props_def dld_manager_set_prop_def
      prv_set_prop_never_quit_def prv_set_prop_wl_enabled_def prv_set_prop_wl_entries_def
      prv_wl_notify_prop_def Let_def split: task_ut.splits if_splits prod.splits)

subsection \<open>The states of the service\<close>

text \<open>A queue whose waiting tasks become \<open>ts\<close>.\<close>

definition set_queue :: "string \<times> string \<Rightarrow> dld_task list \<Rightarrow> 'st dld_context \<Rightarrow> 'st dld_context" where
  "set_queue key ts s =
     s\<lparr>srv_queues := map (\<lambda>(k, old). (k, if k = key then ts else old)) (srv_queues s)\<rparr>"

text \<open>
  The events of the service after its start. A client may call any method at any time, Release too;
  only a watched client is reported as lost, after which it is not watched any more. The task
  processor runs any task of a queue; it drops the waiting tasks of a queue that is cancelled.
\<close>

inductive service_reach :: "'st settings_ops \<Rightarrow> glib \<Rightarrow> 'st dld_context \<Rightarrow> bool" for ops gl where
  started: "prv_control_point_start_service ops pub (prv_control_point_initialize connector settings) = (True, s) \<Longrightarrow>
     service_reach ops gl s"
| called: "service_reach ops gl s \<Longrightarrow> (iface, handler) \<in> set service_handlers \<Longrightarrow>
     md \<in> set (ii_methods iface) \<Longrightarrow> has_types (in_types md) params \<Longrightarrow>
     handler ops gl sender object (im_name md) params m s = Some s' \<Longrightarrow> service_reach ops gl s'"
| client_lost: "service_reach ops gl s \<Longrightarrow> name \<in> set (srv_clients s) \<Longrightarrow>
     service_reach ops gl (prv_lost_client ops name (s\<lparr>srv_clients := removeAll name (srv_clients s)\<rparr>))"
| task_run: "service_reach ops gl s \<Longrightarrow> map_of (srv_queues s) key = Some (ts1 @ t # ts2) \<Longrightarrow>
     prv_process_task ops gl msg_new t (set_queue key (ts1 @ ts2) s) = Some (s', t', eff) \<Longrightarrow>
     service_reach ops gl s'"
| queue_cancelled: "service_reach ops gl s \<Longrightarrow> service_reach ops gl (set_queue key [] s)"
| registry_event: "service_reach ops gl s \<Longrightarrow> srv_upnp s = Upnp_at upnp \<Longrightarrow> ev_possible gl e upnp \<Longrightarrow>
     upnp_step gl e upnp = Some upnp' \<Longrightarrow>
     service_reach ops gl
       (core_emit (drop (length (calls upnp)) (calls upnp')) (s\<lparr>srv_upnp := Upnp_at upnp'\<rparr>))"

text \<open>
  The clients are watched once each; each client has at most one queue for an object, and
  no queue is without its client; only tasks of calls are waiting; the registry is in a state it can
  be in.
\<close>

definition queues_ok :: "glib \<Rightarrow> 'st dld_context \<Rightarrow> bool" where
  "queues_ok gl s \<longleftrightarrow>
     distinct (map fst (srv_queues s)) \<and>
     (\<forall>source sink ts. ((source, sink), ts) \<in> set (srv_queues s) \<longrightarrow>
        source \<in> set (srv_clients s) \<and> (\<forall>t \<in> set ts. \<exists>m. client_task gl m t))"

definition service_inv :: "glib \<Rightarrow> 'st dld_context \<Rightarrow> bool" where
  "service_inv gl s \<longleftrightarrow>
     (\<exists>upnp. srv_upnp s = Upnp_at upnp \<and> upnp_reach gl upnp) \<and>
     distinct (srv_clients s) \<and> queues_ok gl s"

lemma service_inv_same:
  assumes "service_inv gl s" and "srv_clients s' = srv_clients s"
    and "srv_queues s' = srv_queues s" and "srv_upnp s' = srv_upnp s"
  shows "service_inv gl s'"
  using assms by (simp add: service_inv_def queues_ok_def)

lemma distinct_keys_filter: "distinct (map fst qs) \<Longrightarrow> distinct (map fst (filter P qs))"
  by (induction qs) (auto simp: image_iff)

lemma distinct_keys_map:
  "distinct (map fst qs) \<Longrightarrow> distinct (map fst (map (\<lambda>(k, ts). (k, f k ts)) qs))"
  by (simp add: case_prod_unfold comp_def)

lemma service_inv_started:
  assumes "prv_control_point_start_service ops pub (prv_control_point_initialize connector settings) = (True, s)"
  shows "service_inv gl s"
  using assms reach_new
  by (auto simp: prv_control_point_start_service_def prv_control_point_initialize_def prv_white_list_init_def
      dld_manager_new_def core_step_def service_inv_def queues_ok_def Let_def upt_rec
      DLD_MANAGER_INTERFACE_INFO_MAX_def split: if_splits option.splits)

lemma service_inv_add_task:
  assumes inv: "service_inv gl s" and t: "client_task gl m t"
  shows "service_inv gl (prv_add_task t source sink s)"
proof -
  let ?new = "if map_of (srv_queues s) (source, sink) = None then [((source, sink), [])] else []"
  have d: "distinct (map fst (srv_queues s @ ?new))"
    using inv by (auto simp: service_inv_def queues_ok_def map_of_eq_None_iff)
  have q: "queues_ok gl (prv_add_task t source sink s)"
    using inv t distinct_keys_map [OF d, of "\<lambda>k ts. if k = (source, sink) then ts @ [t] else ts"]
    by (fastforce simp: queues_ok_def service_inv_def add_task_eq List.insert_def split: if_splits)
  with inv show ?thesis by (simp add: service_inv_def add_task_eq)
qed

lemma service_inv_remove_client:
  assumes inv: "service_inv gl s"
    and s1: "srv_clients s1 = removeAll name (srv_clients s)"
      "srv_queues s1 = srv_queues s" "srv_upnp s1 = srv_upnp s"
  shows "service_inv gl (prv_remove_client ops name s1)"
proof -
  have "queues_ok gl (prv_remove_client ops name s1)"
    using inv distinct_keys_filter [of "srv_queues s"]
    by (fastforce simp: queues_ok_def service_inv_def remove_client_eq s1 Let_def)
  then show ?thesis
    using inv by (simp add: service_inv_def remove_client_eq s1 Let_def distinct_removeAll)
qed

subsection \<open>The clients, as the calls of the service tell\<close>

text \<open>
  The clients that are watched, and the releases by clients that were not watched when they released,
  read from the calls that the service made.
\<close>

definition client_event :: "effect \<Rightarrow> string set \<times> nat \<Rightarrow> string set \<times> nat" where
  "client_event e = (\<lambda>(W, n).
     case e of
       Watch_client c \<Rightarrow> (insert c W, n)
     | Unwatch_client c \<Rightarrow> (W - {c}, if c \<in> W then n else Suc n)
     | Remove_queues_for_source c \<Rightarrow> (W - {c}, n)
     | _ \<Rightarrow> (W, n))"

definition client_log :: "effect list \<Rightarrow> string set \<times> nat" where
  "client_log eff = fold client_event eff ({}, 0)"

definition surplus_releases :: "'st dld_context \<Rightarrow> nat" where
  "surplus_releases s = snd (client_log (srv_calls s))"

lemma client_log_append: "client_log (eff1 @ eff2) = fold client_event eff2 (client_log eff1)"
  by (simp add: client_log_def)

lemma client_event_other:
  "harmless e \<or> registry_call e \<Longrightarrow> client_event e x = x"
  by (cases e) (auto simp: client_event_def harmless_def registry_call_def split: prod.split)

lemma client_log_harmless: "list_all harmless eff \<Longrightarrow> client_log (log @ eff) = client_log log"
  by (induction eff arbitrary: log rule: rev_induct)
    (simp_all add: client_log_append client_event_other)

lemma client_log_registry: "list_all registry_call eff \<Longrightarrow> client_log (log @ eff) = client_log log"
  by (induction eff arbitrary: log rule: rev_induct)
    (simp_all add: client_log_append client_event_other)

text \<open>
  The log tells the clients, and the counter is their number less the surplus releases, modulo 2^32,
  if the connector's \<open>watch_client\<close> answers as documented.
\<close>

definition count_inv :: "'st dld_context \<Rightarrow> bool" where
  "count_inv s \<longleftrightarrow>
     fst (client_log (srv_calls s)) = set (srv_clients s) \<and>
     (watch_doc (srv_connector s) \<longrightarrow>
        srv_watchers s + of_nat (surplus_releases s) = of_nat (length (srv_clients s)))"

lemma count_inv_same:
  assumes "count_inv s" and "srv_connector s' = srv_connector s" and "srv_clients s' = srv_clients s"
    and "srv_watchers s' = srv_watchers s" and "client_log (srv_calls s') = client_log (srv_calls s)"
  shows "count_inv s'"
  using assms by (simp add: count_inv_def surplus_releases_def)

lemma count_inv_add_task:
  assumes "count_inv s"
  shows "count_inv (prv_add_task t source sink s)"
proof -
  have "client_log (srv_calls (prv_add_task t source sink s)) =
      (insert source (fst (client_log (srv_calls s))), snd (client_log (srv_calls s)))"
    by (simp add: add_task_eq client_log_append client_event_def case_prod_unfold)
  then show ?thesis
    using assms by (auto simp: count_inv_def surplus_releases_def add_task_eq List.insert_def watch_doc_def insert_absorb)
qed

text \<open>A client leaves: it is lost while it is watched, or it releases the service, watched or not.\<close>

lemma length_removeAll_distinct:
  "distinct xs \<Longrightarrow> length (removeAll x xs) = (if x \<in> set xs then length xs - 1 else length xs)"
  by (simp add: distinct_remove1_removeAll [symmetric] length_remove1)

lemma count_inv_lost:
  assumes inv: "count_inv s" and d: "distinct (srv_clients s)" and name: "name \<in> set (srv_clients s)"
  shows "count_inv (prv_lost_client ops name (s\<lparr>srv_clients := removeAll name (srv_clients s)\<rparr>))"
proof -
  let ?s' = "prv_lost_client ops name (s\<lparr>srv_clients := removeAll name (srv_clients s)\<rparr>)"
  have "client_log (srv_calls ?s') =
      (fst (client_log (srv_calls s)) - {name}, snd (client_log (srv_calls s)))"
    by (simp add: prv_lost_client_def remove_client_eq Let_def client_log_append client_event_def case_prod_unfold)
  moreover have "length (srv_clients s) = Suc (length (removeAll name (srv_clients s)))"
    using length_removeAll_distinct [OF d, of name] name by (cases "srv_clients s") simp_all
  ultimately show ?thesis
    using inv by (auto simp: count_inv_def surplus_releases_def prv_lost_client_def remove_client_eq Let_def
        algebra_simps)
qed

lemma count_inv_released:
  assumes inv: "count_inv s" and d: "distinct (srv_clients s)"
  shows "count_inv (core_emit [Return_response m None] (prv_remove_client ops sender (core_emit [Unwatch_client sender] s)))"
    (is "count_inv ?s'")
proof -
  have log: "client_log (srv_calls ?s') = (fst (client_log (srv_calls s)) - {sender},
      snd (client_log (srv_calls s)) + (if sender \<in> set (srv_clients s) then 0 else 1))"
    using inv
    by (simp add: remove_client_eq core_step_def Let_def client_log_append client_event_def case_prod_unfold count_inv_def)
  have other: "srv_clients ?s' = removeAll sender (srv_clients s)" "srv_watchers ?s' = srv_watchers s - 1"
    "srv_connector ?s' = srv_connector s"
    by (simp_all add: remove_client_eq core_step_def Let_def)
  have len: "(of_nat (length (srv_clients s)) :: guint) =
      of_nat (length (removeAll sender (srv_clients s))) + (if sender \<in> set (srv_clients s) then 1 else 0)"
    using length_removeAll_distinct [OF d, of sender] by (cases "srv_clients s") auto
  have "srv_watchers s - 1 + of_nat (snd (client_log (srv_calls s)) + (if sender \<in> set (srv_clients s) then 0 else 1)) =
      of_nat (length (removeAll sender (srv_clients s)))" if "watch_doc (srv_connector s)"
  proof -
    have "srv_watchers s + of_nat (surplus_releases s) = of_nat (length (srv_clients s))"
      using inv that by (simp add: count_inv_def)
    then have "srv_watchers s = of_nat (length (srv_clients s)) - of_nat (surplus_releases s)"
      by (simp add: eq_diff_eq)
    with len show ?thesis by (simp add: surplus_releases_def)
  qed
  moreover have "fst (client_log (srv_calls s)) - {sender} = set (removeAll sender (srv_clients s))"
    using inv by (simp add: count_inv_def)
  ultimately show ?thesis
    unfolding count_inv_def surplus_releases_def log other by simp
qed

text \<open>What one run of a task leaves alone.\<close>

definition same_clients :: "'st dld_context \<Rightarrow> 'st dld_context \<Rightarrow> bool" where
  "same_clients s s' \<longleftrightarrow>
     srv_clients s' = srv_clients s \<and> srv_watchers s' = srv_watchers s \<and> srv_queues s' = srv_queues s \<and>
     srv_quitting s' = srv_quitting s \<and> dld_id s' = dld_id s \<and> srv_connection s' = srv_connection s \<and>
     srv_connector s' = srv_connector s \<and> client_log (srv_calls s') = client_log (srv_calls s)"

lemma same_clients_emit:
  "list_all harmless eff \<Longrightarrow> same_clients s s1 \<Longrightarrow> same_clients s (core_emit eff s1)"
  by (simp add: same_clients_def core_emit_harmless client_log_harmless)

lemma same_clients_on_upnp:
  assumes "on_upnp (on_checked_device f) t s = Some (s', t', eff)"
    and "\<And>d d' t t' eff. f d t = Some (d', t', eff) \<Longrightarrow> list_all harmless eff"
  shows "same_clients s s'"
  using assms(1)
  by (auto simp: on_upnp_def same_clients_def core_emit_harmless client_log_harmless checked_device_harmless [OF _ assms(2)]
      split: upnp_pointer.splits)

lemma process_task_clients:
  assumes "prv_process_task ops gl msg_new t s = Some (s', t', eff)"
  shows "same_clients s s'"
proof (cases "synchronous t")
  case True
  with assms show ?thesis
    by (auto simp: prv_process_task_def prv_process_sync_task_def same_clients_def core_emit_harmless client_log_harmless
        dest!: complete_harmless split: dld_task_type.splits upnp_pointer.splits bind_splits)
next
  case False
  have keep: "same_clients s s'" if "on_upnp (on_checked_device (keep_device g)) t s = Some (s', t', eff)"
    "\<And>d t t' eff. g d t = Some (t', eff) \<Longrightarrow> list_all harmless eff" for g t t' eff
    by (rule same_clients_on_upnp [OF that(1)]) (auto simp: keep_device_def dest: that(2))
  have act: "same_clients s s'" if "on_upnp (upnp_action type) t s = Some (s', t', eff)" "is_action type" for type t t' eff
    by (rule keep [of "device_action type" t t' eff])
      (use that device_handlers_harmless(4) in \<open>auto simp: upnp_action_eq on_upnp_def split: upnp_pointer.splits\<close>)
  show ?thesis
  proof (cases "is_action (task_type t)")
    case True
    then have "on_upnp (upnp_action (task_type t)) (new_cancellable t) s = Some (s', t', eff)"
      using assms \<open>\<not> synchronous t\<close>
      by (auto simp: prv_process_task_def prv_process_async_task_def is_action_def upnp_action_def [abs_def])
    then show ?thesis using True by (rule act)
  next
    case other: False
    show ?thesis
      using assms False other
      by (cases "task_type t")
        (auto simp: prv_process_task_def prv_process_async_task_def is_action_def upnp_op_defs [abs_def]
          same_clients_def core_emit_harmless client_log_harmless dest!: manager_harmless
          dest: same_clients_on_upnp [unfolded same_clients_def, OF _ device_handlers_harmless(3)]
            keep [unfolded same_clients_def, OF _ device_handlers_harmless(1)]
            keep [unfolded same_clients_def, OF _ device_handlers_harmless(2)])
  qed
qed

text \<open>The outcomes of a method call.\<close>

inductive call_outcome ::
  "'st settings_ops \<Rightarrow> glib \<Rightarrow> msg_id \<Rightarrow> string \<Rightarrow> string \<Rightarrow> 'st dld_context \<Rightarrow> 'st dld_context \<Rightarrow> bool"
  for ops gl m sender meth s where
  answered: "list_all harmless eff \<Longrightarrow> call_outcome ops gl m sender meth s (core_emit eff s)"
| task_added: "client_task gl m t \<Longrightarrow> call_outcome ops gl m sender meth s (prv_add_task t sender sink s)"
| released: "meth = DLD_INTERFACE_RELEASE \<Longrightarrow> call_outcome ops gl m sender meth s
     (core_emit [Return_response m None] (prv_remove_client ops sender (core_emit [Unwatch_client sender] s)))"

lemma not_answered: "call_outcome ops gl m sender meth s s"
  using answered [of "[]" ops gl m sender meth s] by simp

lemma add_new_outcome:
  assumes "add_new_task task sender sink s = Some s'" and "\<And>t. task = Some t \<Longrightarrow> client_task gl m t"
  shows "call_outcome ops gl m sender meth s s'"
  using assms task_added by (auto simp: add_new_task_def)

lemma action_new_tasks:
  "dld_task_get_test_info_new gl m object params = Some t \<Longrightarrow> client_task gl m t"
  "dld_task_cancel_test_new gl m object params = Some t \<Longrightarrow> client_task gl m t"
  "dld_task_ping_new gl m object params = Some t \<Longrightarrow> client_task gl m t"
  "dld_task_get_ping_result_new gl m object params = Some t \<Longrightarrow> client_task gl m t"
  "dld_task_nslookup_new gl m object params = Some t \<Longrightarrow> client_task gl m t"
  "dld_task_get_nslookup_result_new gl m object params = Some t \<Longrightarrow> client_task gl m t"
  "dld_task_traceroute_new gl m object params = Some t \<Longrightarrow> client_task gl m t"
  "dld_task_get_traceroute_result_new gl m object params = Some t \<Longrightarrow> client_task gl m t"
  using action_task [of gl DLD_TASK_GET_TEST_INFO m object params t] action_task [of gl DLD_TASK_CANCEL_TEST m object params t]
    action_task [of gl DLD_TASK_PING m object params t] action_task [of gl DLD_TASK_GET_PING_RESULT m object params t]
    action_task [of gl DLD_TASK_NSLOOKUP m object params t]
    action_task [of gl DLD_TASK_GET_NSLOOKUP_RESULT m object params t]
    action_task [of gl DLD_TASK_TRACEROUTE m object params t]
    action_task [of gl DLD_TASK_GET_TRACEROUTE_RESULT m object params t]
  by (simp_all add: action_task_new_def)

lemmas new_tasks = action_new_tasks prop_task props_task icon_task manager_prop_task manager_props_task
  manager_set_task

lemma root_outcome: "call_outcome ops gl m sender meth s (prv_manager_root_method_call ops sender meth m s)"
  by (simp add: prv_manager_root_method_call_def not_answered released task_added client_task.intros(1-3)
      del: core_emit.simps)

lemma manager_props_outcome:
  "prv_manager_props_method_call gl sender object meth params m s = Some s' \<Longrightarrow>
     call_outcome ops gl m sender meth s s'"
  by (auto simp: prv_manager_props_method_call_def Let_def not_answered intro!: task_added intro: new_tasks
      split: if_splits option.splits)

lemma device_props_outcome:
  "prv_props_method_call gl sender object meth params m s = Some s' \<Longrightarrow>
     call_outcome ops gl m sender meth s s'"
  by (auto simp: prv_props_method_call_def not_answered simp del: core_emit.simps intro!: answered
      elim!: add_new_outcome intro: new_tasks split: if_splits option.splits sum.splits)

lemma cancel_outcome:
  "call_outcome ops gl m sender meth s (core_emit [Return_response m None]
     (if map_of (srv_queues s) (sender, sink) = None then s else core_emit [Cancel_client_queue sender sink] s))"
  using answered [of "[Return_response m None]" ops gl m sender meth s]
    answered [of "[Cancel_client_queue sender sink, Return_response m None]" ops gl m sender meth s]
  by (cases "map_of (srv_queues s) (sender, sink)") (simp_all add: harmless_def)

lemma device_outcome:
  assumes "prv_device_method_call gl sender object meth params m s = Some s'"
  shows "call_outcome ops gl m sender meth s s'"
proof (cases "prv_get_device_id object s")
  case None
  with assms show ?thesis by (simp add: prv_device_method_call_def)
next
  case (Some id)
  show ?thesis
  proof (cases id)
    case (Inl e)
    with Some assms show ?thesis
      using answered [of "[Return_error m e]"] by (auto simp: prv_device_method_call_def)
  next
    case (Inr sink)
    let ?tasks = "[dld_task_get_icon_new gl m object params, dld_task_get_test_info_new gl m object params,
      dld_task_cancel_test_new gl m object params, dld_task_ping_new gl m object params,
      dld_task_get_ping_result_new gl m object params, dld_task_nslookup_new gl m object params,
      dld_task_get_nslookup_result_new gl m object params, dld_task_traceroute_new gl m object params,
      dld_task_get_traceroute_result_new gl m object params]"
    have new: "client_task gl m t" if "task \<in> set ?tasks" "task = Some t" for task t
      using that new_tasks by auto
    have "meth = DLD_INTERFACE_CANCEL \<or> (\<exists>task \<in> set ?tasks. add_new_task task sender sink s = Some s') \<or> s' = s"
      using assms unfolding prv_device_method_call_def Some Inr option.case sum.case
      by (simp only: split: if_split_asm; simp)
    then consider "meth = DLD_INTERFACE_CANCEL"
      | "\<exists>task \<in> set ?tasks. add_new_task task sender sink s = Some s'" | "s' = s" by blast
    then show ?thesis
    proof cases
      case 1
      with assms have "s' = core_emit [Return_response m None]
          (if map_of (srv_queues s) (sender, sink) = None then s else core_emit [Cancel_client_queue sender sink] s)"
        by (simp add: prv_device_method_call_def Some Inr del: core_emit.simps)
      then show ?thesis by (simp only: cancel_outcome)
    next
      case 2
      then show ?thesis using add_new_outcome new by blast
    next
      case 3
      then show ?thesis by (simp add: not_answered)
    qed
  qed
qed

lemma handler_outcome:
  assumes "(iface, handler) \<in> set service_handlers"
    and "handler ops gl sender object meth params m s = Some s'"
  shows "call_outcome ops gl m sender meth s s'"
  using assms root_outcome manager_props_outcome device_props_outcome device_outcome
  by (auto simp: service_handlers_def g_root_introspection_def g_root_vtables_def
      g_diagnostics_device_introspection_def g_server_vtables_def)

lemma service_inv_outcome:
  assumes inv: "service_inv gl s" and out: "call_outcome ops gl m sender meth s s'"
  shows "service_inv gl s'"
  using out
proof cases
  case (answered eff)
  then show ?thesis using inv by (simp add: core_emit_harmless service_inv_same)
next
  case (task_added t sink)
  then show ?thesis using service_inv_add_task [OF inv] by simp
next
  case released
  let ?s1 = "core_emit [Unwatch_client sender] s"
  have "service_inv gl (prv_remove_client ops sender ?s1)"
    by (intro service_inv_remove_client [OF inv]) (simp_all add: core_step_def)
  then show ?thesis by (simp add: released(1) core_step_def service_inv_same)
qed

lemma queues_ok_set_queue:
  assumes "queues_ok gl s" and "\<And>old t. map_of (srv_queues s) key = Some old \<Longrightarrow> t \<in> set ts \<Longrightarrow> t \<in> set old"
  shows "queues_ok gl (set_queue key ts s)"
proof -
  have d: "distinct (map fst (srv_queues s))" using assms(1) by (simp add: queues_ok_def)
  have "t \<in> set old" if "(key, old) \<in> set (srv_queues s)" "t \<in> set ts" for old t
    using assms(2) [OF map_of_is_SomeI [OF d that(1)] that(2)] .
  with assms(1) distinct_keys_map [OF d, of "\<lambda>k old. if k = key then ts else old"] show ?thesis
    by (fastforce simp: queues_ok_def set_queue_def split: if_splits)
qed

lemma service_inv_set_queue:
  assumes "service_inv gl s" and "\<And>old t. map_of (srv_queues s) key = Some old \<Longrightarrow> t \<in> set ts \<Longrightarrow> t \<in> set old"
  shows "service_inv gl (set_queue key ts s)"
  using assms(1) queues_ok_set_queue [of gl s key ts] assms(2) by (auto simp: service_inv_def) (simp_all add: set_queue_def)

lemma waiting_task:
  assumes "service_inv gl s" and "(key, ts) \<in> set (srv_queues s)" and "t \<in> set ts"
  shows "\<exists>m. client_task gl m t"
  using assms by (cases key) (auto simp: service_inv_def queues_ok_def)

lemma service_inv_task_run:
  assumes inv: "service_inv gl s" and t: "map_of (srv_queues s) key = Some (ts1 @ t # ts2)"
    and run: "prv_process_task ops gl msg_new t (set_queue key (ts1 @ ts2) s) = Some (s', t', eff)"
  shows "service_inv gl s'"
proof -
  have inv1: "service_inv gl (set_queue key (ts1 @ ts2) s)" by (rule service_inv_set_queue [OF inv]) (auto simp: t)
  obtain m where m: "client_task gl m t" using waiting_task [OF inv map_of_SomeD [OF t]] by auto
  obtain upnp where upnp: "srv_upnp (set_queue key (ts1 @ ts2) s) = Upnp_at upnp" "upnp_reach gl upnp"
    using inv1 by (auto simp: service_inv_def)
  from task_ran [OF upnp m run] run have "\<exists>upnp'. srv_upnp s' = Upnp_at upnp' \<and> upnp_reach gl upnp'"
    by (auto simp: task_runs_def)
  with inv1 process_task_clients [OF run] show ?thesis
    by (simp add: service_inv_def same_clients_def queues_ok_def)
qed

lemma core_emit_registry:
  assumes "list_all registry_call eff"
  shows "srv_clients (core_emit eff s) = srv_clients s" "srv_quitting (core_emit eff s) = srv_quitting s"
    and "\<exists>P. srv_queues (core_emit eff s) = filter P (srv_queues s)"
proof -
  have "srv_clients (core_emit eff s) = srv_clients s \<and> srv_quitting (core_emit eff s) = srv_quitting s \<and>
      (\<exists>P. srv_queues (core_emit eff s) = filter P (srv_queues s))"
    using assms
  proof (induction eff arbitrary: s)
    case Nil
    show ?case by (intro conjI exI [of _ "\<lambda>_. True"]) simp_all
  next
    case (Cons e eff)
    let ?s1 = "(core_step e s)\<lparr>srv_calls := srv_calls s @ [e]\<rparr>"
    have c: "srv_clients ?s1 = srv_clients s" "srv_quitting ?s1 = srv_quitting s"
      using Cons.prems by (cases e; simp add: core_step_def registry_call_def)+
    have "\<exists>P. srv_queues ?s1 = filter P (srv_queues s)"
    proof (cases "srv_queues ?s1 = srv_queues s")
      case True
      then show ?thesis by (intro exI [of _ "\<lambda>_. True"]) simp
    next
      case False
      then show ?thesis using Cons.prems by (cases e) (auto simp: core_step_def registry_call_def)
    qed
    then obtain P where P: "srv_queues ?s1 = filter P (srv_queues s)" ..
    from Cons.IH [of ?s1] Cons.prems obtain Q where "srv_queues (core_emit eff ?s1) = filter Q (srv_queues ?s1)"
      "srv_clients (core_emit eff ?s1) = srv_clients ?s1" "srv_quitting (core_emit eff ?s1) = srv_quitting ?s1" by auto
    with P c show ?case by (auto simp: filter_filter)
  qed
  then show "srv_clients (core_emit eff s) = srv_clients s" "srv_quitting (core_emit eff s) = srv_quitting s"
    "\<exists>P. srv_queues (core_emit eff s) = filter P (srv_queues s)" by blast+
qed

lemma service_inv_registry:
  assumes inv: "service_inv gl s" and upnp: "srv_upnp s = Upnp_at upnp"
    and e: "ev_possible gl e upnp" "upnp_step gl e upnp = Some upnp'"
  shows "service_inv gl (core_emit (drop (length (calls upnp)) (calls upnp')) (s\<lparr>srv_upnp := Upnp_at upnp'\<rparr>))"
proof -
  obtain eff where eff: "calls upnp' = calls upnp @ eff" "list_all registry_call eff"
    using grows_step [OF e(2)] by (auto simp: grows_def)
  have "upnp_reach gl upnp'" using inv upnp reach_step [OF _ e] by (auto simp: service_inv_def)
  moreover obtain P where P: "srv_queues (core_emit eff (s\<lparr>srv_upnp := Upnp_at upnp'\<rparr>)) = filter P (srv_queues s)"
    using core_emit_registry(3) [OF eff(2), of "s\<lparr>srv_upnp := Upnp_at upnp'\<rparr>"] by auto
  ultimately show ?thesis
    using inv distinct_keys_filter [of "srv_queues s" P]
    by (fastforce simp: service_inv_def queues_ok_def eff(1) core_emit_registry(1) [OF eff(2)])
qed

lemma reach_service_inv: "service_reach ops gl s \<Longrightarrow> service_inv gl s"
proof (induction rule: service_reach.induct)
  case (started pub connector settings s)
  then show ?case by (rule service_inv_started)
next
  case (called s iface handler md params sender object m s')
  show ?case
    by (rule service_inv_outcome [OF called.IH handler_outcome [OF called.hyps(2,5)]])
next
  case (client_lost s name)
  show ?case
    unfolding prv_lost_client_def
    by (rule service_inv_remove_client [OF client_lost.IH]) simp_all
next
  case (task_run s key ts1 t ts2 msg_new s' t' eff)
  show ?case by (rule service_inv_task_run [OF task_run.IH task_run.hyps(2,3)])
next
  case (queue_cancelled s key)
  show ?case by (rule service_inv_set_queue [OF queue_cancelled.IH]) simp
next
  case (registry_event s upnp e upnp')
  show ?case by (rule service_inv_registry [OF registry_event.IH registry_event.hyps(2,3,4)])
qed

lemma count_inv_started:
  assumes "prv_control_point_start_service ops pub (prv_control_point_initialize connector settings) = (True, s)"
  shows "count_inv s"
  using assms
  by (auto simp: prv_control_point_start_service_def prv_control_point_initialize_def prv_white_list_init_def
      dld_manager_new_def core_step_def count_inv_def surplus_releases_def client_log_def client_event_def Let_def
      upt_rec DLD_MANAGER_INTERFACE_INFO_MAX_def split: if_splits option.splits)

lemma count_inv_outcome:
  assumes inv: "count_inv s" "service_inv gl s" and out: "call_outcome ops gl m sender meth s s'"
  shows "count_inv s'"
  using out
proof cases
  case (answered eff)
  then show ?thesis by (intro count_inv_same [OF inv(1)]) (simp_all add: core_emit_harmless client_log_harmless)
next
  case (task_added t sink)
  then show ?thesis using count_inv_add_task [OF inv(1)] by simp
next
  case released
  have "distinct (srv_clients s)" using inv(2) by (simp add: service_inv_def)
  from count_inv_released [OF inv(1) this] show ?thesis unfolding released(1) .
qed

lemma reach_count_inv: "service_reach ops gl s \<Longrightarrow> count_inv s"
proof (induction rule: service_reach.induct)
  case (started pub connector settings s)
  then show ?case by (rule count_inv_started)
next
  case (called s iface handler md params sender object m s')
  show ?case
    by (rule count_inv_outcome [OF called.IH reach_service_inv [OF called.hyps(1)] handler_outcome [OF called.hyps(2,5)]])
next
  case (client_lost s name)
  have "distinct (srv_clients s)" using reach_service_inv [OF client_lost.hyps(1)] by (simp add: service_inv_def)
  from count_inv_lost [OF client_lost.IH this client_lost.hyps(2)] show ?case .
next
  case (task_run s key ts1 t ts2 msg_new s' t' eff)
  show ?case
    using process_task_clients [OF task_run.hyps(3)]
    by (intro count_inv_same [OF task_run.IH]) (simp_all add: same_clients_def set_queue_def)
next
  case (queue_cancelled s key)
  show ?case by (rule count_inv_same [OF queue_cancelled.IH]) (simp_all add: set_queue_def)
next
  case (registry_event s upnp e upnp')
  obtain eff where eff: "calls upnp' = calls upnp @ eff" "list_all registry_call eff"
    using grows_step [OF registry_event.hyps(4)] by (auto simp: grows_def)
  show ?case
    by (rule count_inv_same [OF registry_event.IH])
      (simp_all add: eff(1) core_emit_registry(1) [OF eff(2)] client_log_registry [OF eff(2)])
qed

subsection \<open>The end of the service\<close>

lemma unsubscribe_devices_run:
  assumes "distinct as" and "set as \<subseteq> dom (devices s)"
  shows "\<exists>s'. unsubscribe_devices as s = Some s' \<and> device_udn_map s' = device_udn_map s \<and>
     (\<forall>a \<in> set as. devices s' a = Some (fst (dld_device_unsubscribe (the (devices s a))))) \<and>
     (\<forall>a. a \<notin> set as \<longrightarrow> devices s' a = devices s a) \<and>
     calls s' = calls s @ concat (map (\<lambda>a. snd (dld_device_unsubscribe (the (devices s a)))) as)"
  using assms
proof (induction as arbitrary: s)
  case (Cons a as)
  then obtain d where d: "devices s a = Some d" by auto
  let ?u = "dld_device_unsubscribe d"
  let ?s1 = "emit (snd ?u) (set_device a (fst ?u) s)"
  have other: "devices ?s1 b = devices s b" if "b \<in> set as" for b
    using that Cons.prems(1) by (auto simp: set_device_def)
  have "distinct as" "set as \<subseteq> dom (devices ?s1)" using Cons.prems other by (auto simp: domIff)
  from Cons.IH [OF this] obtain s' where s': "unsubscribe_devices as ?s1 = Some s'"
    "device_udn_map s' = device_udn_map ?s1"
    "\<forall>b \<in> set as. devices s' b = Some (fst (dld_device_unsubscribe (the (devices ?s1 b))))"
    "\<forall>b. b \<notin> set as \<longrightarrow> devices s' b = devices ?s1 b"
    "calls s' = calls ?s1 @ concat (map (\<lambda>b. snd (dld_device_unsubscribe (the (devices ?s1 b)))) as)"
    by blast
  have eq: "map (\<lambda>b. snd (dld_device_unsubscribe (the (devices ?s1 b)))) as =
      map (\<lambda>b. snd (dld_device_unsubscribe (the (devices s b)))) as"
    using other by auto
  have "unsubscribe_devices (a # as) s = Some s'" using s'(1) by (simp add: d case_prod_unfold Let_def)
  moreover have "device_udn_map s' = device_udn_map s" using s'(2) by (simp add: set_device_def)
  moreover have "devices s' b = Some (fst (dld_device_unsubscribe (the (devices s b))))" if "b \<in> set (a # as)" for b
    using that s'(3,4) other Cons.prems(1) d by (auto simp: set_device_def)
  moreover have "devices s' b = devices s b" if "b \<notin> set (a # as)" for b
    using that s'(4) by (simp add: set_device_def)
  moreover have "calls s' = calls s @ concat (map (\<lambda>b. snd (dld_device_unsubscribe (the (devices s b)))) (a # as))"
    using s'(5) unfolding eq by (simp add: emit_calls d)
  ultimately show ?case by blast
qed simp

text \<open>The calls that end the subscriptions of devices, and those that delete them afterwards.\<close>

definition stop_calls :: "dld_device list \<Rightarrow> effect list" where
  "stop_calls ds =
     concat (map (\<lambda>d. snd (dld_device_unsubscribe d)) ds) @ [Other_call ''g_object_unref''] @
     concat (map (\<lambda>d. dld_device_delete (fst (dld_device_unsubscribe d))) ds)"

lemma stop_run:
  assumes upnp: "srv_upnp s = Upnp_at upnp" and reach: "upnp_reach gl upnp" and ds: "known_devices upnp = Some ds"
  shows "\<exists>s'. prv_control_point_stop_service s = Some s' \<and> srv_upnp s' = Upnp_freed \<and>
     srv_calls s' = srv_calls s @ stop_calls ds @
       (if srv_connection s then map Unpublish_object (filter (\<lambda>i. i \<noteq> 0) (dld_id s)) else [])"
proof -
  let ?as = "map snd (device_udn_map upnp)" and ?d = "\<lambda>a. the (devices upnp a)"
  have inv: "upnp_inv upnp" by (rule reach_inv [OF reach])
  obtain u1 where u1: "unsubscribe_devices ?as upnp = Some u1" "device_udn_map u1 = device_udn_map upnp"
    "\<forall>a \<in> set ?as. devices u1 a = Some (fst (dld_device_unsubscribe (?d a)))"
    "calls u1 = calls upnp @ concat (map (\<lambda>a. snd (dld_device_unsubscribe (?d a))) ?as)"
    using unsubscribe_devices_run [OF known_addresses(1,2) [OF inv]] by blast
  have step: "upnp_step gl Ev_unsubscribe upnp = Some u1" using u1(1) by (simp add: upnp_step.simps dld_upnp_unsubscribe_def)
  then have "upnp_reach gl u1" using reach_step [OF reach, of Ev_unsubscribe] by (simp add: ev_possible.simps)
  from delete_run [OF reach_inv [OF this]] obtain u2 where u2: "dld_upnp_delete u1 = Some u2"
    "calls u2 = calls u1 @ Other_call ''g_object_unref'' # concat (map (\<lambda>a. dld_device_delete (the (devices u1 a))) ?as)"
    unfolding u1(2) by blast
  have "list_all2 (\<lambda>x d. (case x of (u, a) \<Rightarrow> devices upnp a) = Some d) (device_udn_map upnp) ds"
    using ds by (simp add: known_devices_def those_map_Some)
  then have dseq: "ds = map ?d ?as"
    by (induction rule: list_all2_induct) (auto split: prod.splits)
  have del: "map (\<lambda>a. dld_device_delete (the (devices u1 a))) ?as =
      map (\<lambda>a. dld_device_delete (fst (dld_device_unsubscribe (?d a)))) ?as"
    using u1(3) by auto
  have calls: "calls u2 = calls upnp @ stop_calls ds"
    unfolding u2(2) u1(4) del stop_calls_def dseq by (simp add: comp_def)
  show ?thesis
    using u1(1) u2(1) by (simp add: prv_control_point_stop_service_def upnp dld_upnp_unsubscribe_def calls)
qed

subsection \<open>Properties\<close>


lemma sample_service_reach: "service_reach memory_settings gl sample_service"
proof -
  have "fst (prv_control_point_start_service memory_settings (\<lambda>i. of_nat i + 1)
      (prv_control_point_initialize (\<lambda>name clients. name \<notin> set clients) (False, False, None)))"
    by (simp add: prv_control_point_start_service_def Let_def DLD_MANAGER_INTERFACE_INFO_MAX_def
        prv_control_point_initialize_def del: core_emit.simps)
  then show ?thesis unfolding sample_service_def by (intro started) (simp add: prod_eq_iff)
qed

text \<open>The service after a client called \<open>GetVersion\<close>.\<close>

definition sample_called :: "(bool \<times> bool \<times> gvariant option) dld_context" where
  "sample_called = prv_add_task (dld_task_get_version_new 4) '':1.5'' DLD_DIAGNOSTICS_SINK sample_service"

lemma sample_called_reach: "service_reach memory_settings gl sample_called"
proof -
  let ?md = "\<lparr>im_name = DLD_INTERFACE_GET_VERSION, im_in = [], im_out = [(''s'', ''Version'')]\<rparr>"
  have h: "(manager_interface, g_root_vtables ! 0) \<in> set service_handlers"
    by (simp add: service_handlers_def g_root_introspection_def g_root_vtables_def)
  have md: "?md \<in> set (ii_methods manager_interface)" by (simp add: manager_interface_def)
  have ty: "has_types (in_types ?md) (GTuple [])" by (simp add: in_types_def has_types_cases)
  have "(g_root_vtables ! 0) memory_settings gl '':1.5'' ''/'' (im_name ?md) (GTuple []) 4 sample_service = Some sample_called"
    by (simp add: g_root_vtables_def prv_manager_root_method_call_def method_name_defs sample_called_def)
  then show ?thesis
    by (rule called [OF sample_service_reach h md ty])
qed

lemma sample_called_clients: "srv_clients sample_called = ['':1.5'']"
  by (simp add: sample_called_def add_task_eq sample_service_def prv_control_point_start_service_def
      prv_white_list_init_def prv_control_point_initialize_def core_step_def dld_manager_new_def Let_def upt_rec
      DLD_MANAGER_INTERFACE_INFO_MAX_def split: option.split)


text \<open>C14: The service counts its clients and its releases. In every state that it can be in each watched
  client is watched once, a client has at most one queue for an object, and there is no queue of a
  client that is not watched. If the connector's \<open>watch_client\<close> answers TRUE exactly for a client that was
  not watched before, the counter is the number of watched clients less the number of releases by
  clients that were not watched, modulo 2^32: the code subtracts one for any release. So the counter
  is the number of watched clients (modulo 2^32) if there were no such releases.\<close>

theorem clients_counted:
  assumes "service_reach ops gl s" and "watch_doc (srv_connector s)"
  shows "distinct (srv_clients s) \<and>
     srv_watchers s = of_nat (length (srv_clients s)) - of_nat (surplus_releases s) \<and>
     distinct (map fst (srv_queues s)) \<and>
     (\<forall>((source, sink), ts) \<in> set (srv_queues s). source \<in> set (srv_clients s))"
  using reach_service_inv [OF assms(1)] reach_count_inv [OF assms(1)] assms(2)
  by (auto simp: service_inv_def queues_ok_def count_inv_def eq_diff_eq)

lemma sample_called_fields:
  "watch_doc (srv_connector sample_called)" "surplus_releases sample_called = 0"
  "\<not> dleyna_settings_is_never_quit memory_settings (srv_settings sample_called)"
  by (simp_all add: sample_called_def add_task_eq sample_service_def prv_control_point_start_service_def
      prv_white_list_init_def prv_control_point_initialize_def core_step_def dld_manager_new_def Let_def upt_rec
      DLD_MANAGER_INTERFACE_INFO_MAX_def watch_doc_def surplus_releases_def client_log_def client_event_def
      memory_settings_def split: option.split)

theorem clients_counted_witness:
  "srv_watchers sample_called = 1 \<and> srv_clients sample_called = ['':1.5'']"
  using clients_counted [OF sample_called_reach [of glib_ref]] by (simp add: sample_called_clients sample_called_fields)

text \<open>C15: When the service quits. When a client releases the service, watched or not, or a watched client
  is lost, the client is not watched any more, its queues are removed, those of the others stay, and
  the task processor is told to quit exactly if the settings do not say never to quit and the number
  of watched clients, before, exceeds the number of releases by clients that were not watched by one
  (modulo 2^32; \<open>watch_client\<close> answers as documented). If there were no such releases, there are fewer
  than 2^32 clients and it is a watched client that leaves, then that means: no client is left.\<close>

theorem last_client_quits:
  assumes "service_reach ops gl s" and "watch_doc (srv_connector s)"
    and "s' = prv_manager_root_method_call ops name ''Release'' m s \<or>
       name \<in> set (srv_clients s) \<and> s' = prv_lost_client ops name (s\<lparr>srv_clients := removeAll name (srv_clients s)\<rparr>)"
  shows "srv_clients s' = removeAll name (srv_clients s) \<and>
     (\<forall>source sink. queue_of s' source sink = (if source = name then [] else queue_of s source sink)) \<and>
     (srv_quitting s' \<longleftrightarrow> srv_quitting s \<or>
        (of_nat (length (srv_clients s)) :: guint) = of_nat (Suc (surplus_releases s)) \<and>
        \<not> dleyna_settings_is_never_quit ops (srv_settings s)) \<and>
     (surplus_releases s = 0 \<and> length (srv_clients s) < 2 ^ 32 \<and> name \<in> set (srv_clients s) \<longrightarrow>
        ((of_nat (length (srv_clients s)) :: guint) = of_nat (Suc (surplus_releases s)) \<longleftrightarrow> srv_clients s' = []))"
proof -
  have dist: "distinct (srv_clients s)"
    and w: "srv_watchers s = of_nat (length (srv_clients s)) - of_nat (surplus_releases s)"
    using reach_service_inv [OF assms(1)] reach_count_inv [OF assms(1)] assms(2)
    by (simp_all add: service_inv_def count_inv_def eq_diff_eq)
  then have one: "srv_watchers s = 1 \<longleftrightarrow>
      (of_nat (length (srv_clients s)) :: guint) = of_nat (Suc (surplus_releases s))"
    by (simp add: diff_eq_eq add.commute)
  have clients: "srv_clients s' = removeAll name (srv_clients s)"
    and rest: "\<forall>source sink. queue_of s' source sink = (if source = name then [] else queue_of s source sink)"
      "srv_quitting s' \<longleftrightarrow> srv_quitting s \<or> srv_watchers s = 1 \<and> \<not> dleyna_settings_is_never_quit ops (srv_settings s)"
    using assms(3)
    by (auto simp: prv_lost_client_def prv_manager_root_method_call_def method_name_defs remove_client_eq Let_def
        map_of_removed queue_of_def core_step_def)
  have "(of_nat (length (srv_clients s)) :: guint) = of_nat (Suc (surplus_releases s)) \<longleftrightarrow> srv_clients s' = []"
    if "surplus_releases s = 0" "length (srv_clients s) < 2 ^ 32" "name \<in> set (srv_clients s)"
  proof -
    have "(of_nat (length (srv_clients s)) :: guint) = of_nat (Suc (surplus_releases s)) \<longleftrightarrow> length (srv_clients s) = 1"
      using that(1,2) by (simp add: word_unat_eq_iff unat_of_nat)
    also have "\<dots> \<longleftrightarrow> length (removeAll name (srv_clients s)) = 0"
      using length_removeAll_distinct [OF dist, of name] that(3) by (cases "srv_clients s") auto
    finally show ?thesis by (simp add: clients)
  qed
  with clients rest one show ?thesis by blast
qed

theorem last_client_quits_witness:
  "\<exists>s'. s' = prv_manager_root_method_call memory_settings '':1.5'' ''Release'' 7 sample_called \<and>
     srv_clients s' = [] \<and> srv_quitting s'"
  using last_client_quits [OF sample_called_reach [of glib_ref] sample_called_fields(1),
      of "prv_manager_root_method_call memory_settings '':1.5'' ''Release'' 7 sample_called" "'':1.5''" 7]
  by (simp add: sample_called_clients sample_called_fields)

text \<open>
  The service counts a release without asking whether the client was watched. A client that never
  called another method, or that releases the service twice, takes the count of another client away:
  the service is told to quit while that client still uses it.
\<close>

lemma release_of_unwatched:
  assumes "srv_clients s = [name]" and "srv_watchers s = 1" and "other \<noteq> name"
    and "\<not> dleyna_settings_is_never_quit ops (srv_settings s)"
  shows "srv_clients (prv_manager_root_method_call ops other ''Release'' m s) = [name]"
    and "srv_quitting (prv_manager_root_method_call ops other ''Release'' m s)"
  using assms by (simp_all add: prv_manager_root_method_call_def method_name_defs remove_client_eq core_step_def Let_def)

text \<open>C18: The stop of the service, in every state that it can be in: it is defined, frees the registry,
  and makes exactly these calls: first the subscriptions of every known device are ended, then the
  known devices are deleted, which unpublishes their objects, and last the interfaces of the root
  object that were published are unpublished, in order.\<close>

theorem stop_unpublishes:
  assumes "service_reach ops gl s"
  shows "\<exists>s' upnp ds. srv_upnp s = Upnp_at upnp \<and> known_devices upnp = Some ds \<and>
     prv_control_point_stop_service s = Some s' \<and> srv_upnp s' = Upnp_freed \<and>
     srv_calls s' = srv_calls s @
       concat (map (\<lambda>d. snd (dld_device_unsubscribe d)) ds) @ [Other_call ''g_object_unref''] @
       concat (map (\<lambda>d. dld_device_delete (fst (dld_device_unsubscribe d))) ds) @
       (if srv_connection s then map Unpublish_object (filter (\<lambda>i. i \<noteq> 0) (dld_id s)) else [])"
proof -
  obtain upnp where upnp: "srv_upnp s = Upnp_at upnp" "upnp_reach gl upnp"
    using reach_service_inv [OF assms] by (auto simp: service_inv_def)
  obtain ds where ds: "known_devices upnp = Some ds" using known_devices_usable [OF reach_inv [OF upnp(2)]] .
  from stop_run [OF upnp ds] upnp(1) ds show ?thesis by (auto simp: stop_calls_def)
qed

theorem stop_unpublishes_witness:
  "\<exists>s'. prv_control_point_stop_service sample_called = Some s' \<and> srv_upnp s' = Upnp_freed"
  using stop_unpublishes [OF sample_called_reach [of glib_ref]] by blast

text \<open>C19: The start of the service succeeds exactly if its Manager interface could be published; both
  interfaces of the root object are published in any case, the white list is only set up on success.
  A service that is stopped right after its start, successful or not, unpublishes exactly the
  identifiers that it got when it published.\<close>

theorem start_stop_balanced:
  "\<exists>s s'. prv_control_point_start_service ops pub (prv_control_point_initialize connector st) = (pub 0 \<noteq> 0, s) \<and>
     prv_control_point_stop_service s = Some s' \<and>
     srv_upnp s = (if pub 0 \<noteq> 0 then Upnp_at dld_upnp_new else No_upnp) \<and>
     srv_calls s =
       [Publish_object DLEYNA_DIAGNOSTICS_OBJECT True DLEYNA_DIAGNOSTICS_INTERFACE_MANAGER,
        Publish_object DLEYNA_DIAGNOSTICS_OBJECT True ''org.freedesktop.DBus.Properties''] @
       (if pub 0 = 0 then []
        else dld_manager_new @ [White_list_enable (dleyna_settings_is_white_list_enabled ops st),
          (case dleyna_settings_white_list_entries ops st of
             None \<Rightarrow> Other_call ''dleyna_white_list_add_entries (NULL)'' | Some v \<Rightarrow> White_list_add v)]) \<and>
     srv_calls s' = srv_calls s @ (if pub 0 \<noteq> 0 then [Other_call ''g_object_unref''] else []) @
       map Unpublish_object (filter (\<lambda>i. i \<noteq> 0) [pub 0, pub 1])"
proof -
  note defs = prv_control_point_start_service_def prv_control_point_initialize_def Let_def upt_rec
    DLD_MANAGER_INTERFACE_INFO_MAX_def g_manager_interfaces_def name_defs
  define s where "s = snd (prv_control_point_start_service ops pub (prv_control_point_initialize connector st))"
  have start: "prv_control_point_start_service ops pub (prv_control_point_initialize connector st) = (pub 0 \<noteq> 0, s)"
    by (simp add: s_def defs del: core_emit.simps)
  have s: "srv_upnp s = (if pub 0 \<noteq> 0 then Upnp_at dld_upnp_new else No_upnp)" "srv_connection s"
    "dld_id s = [pub 0, pub 1]"
    by (simp_all add: s_def defs prv_white_list_init_def del: core_emit.simps)
  have calls: "srv_calls s =
       [Publish_object DLEYNA_DIAGNOSTICS_OBJECT True DLEYNA_DIAGNOSTICS_INTERFACE_MANAGER,
        Publish_object DLEYNA_DIAGNOSTICS_OBJECT True ''org.freedesktop.DBus.Properties''] @
       (if pub 0 = 0 then []
        else dld_manager_new @ [White_list_enable (dleyna_settings_is_white_list_enabled ops st),
          (case dleyna_settings_white_list_entries ops st of
             None \<Rightarrow> Other_call ''dleyna_white_list_add_entries (NULL)'' | Some v \<Rightarrow> White_list_add v)])"
    by (simp add: s_def defs prv_white_list_init_def del: core_emit.simps)
  have "\<exists>s'. prv_control_point_stop_service s = Some s' \<and>
      srv_calls s' = srv_calls s @ (if pub 0 \<noteq> 0 then [Other_call ''g_object_unref''] else []) @
        map Unpublish_object (filter (\<lambda>i. i \<noteq> 0) [pub 0, pub 1])"
  proof (cases "pub 0 = 0")
    case True
    then show ?thesis using s by (simp add: prv_control_point_stop_service_def)
  next
    case False
    have ds: "known_devices dld_upnp_new = Some []" by (simp add: known_devices_def dld_upnp_new_def)
    have "srv_upnp s = Upnp_at dld_upnp_new" using False s(1) by simp
    from stop_run [OF this reach_new ds] False s(2,3) show ?thesis by (auto simp: stop_calls_def)
  qed
  with start s(1) calls show ?thesis by blast
qed

text \<open>C16: The synchronous calls, in every state of the service: GetVersion is answered with the version of
  the package, GetDevices with an array of exactly the paths that the clients know from the signals
  (each as often as FoundDevice was sent for it without a LostDevice since), and Rescan without a
  value, after the control points were told to rescan. Each is answered and completed once, and
  nothing else changes.\<close>

theorem sync_calls_answered:
  assumes "service_reach ops gl s" and "srv_upnp s = Upnp_at upnp"
  shows "\<exists>paths tv td tr.
     prv_process_task ops gl msg_new (dld_task_get_version_new m) s =
       (let eff = [Return_response m (Some (GTuple [GString VERSION])), Task_completed]
        in Some (core_emit eff s, tv, eff)) \<and>
     prv_process_task ops gl msg_new (dld_task_get_devices_new m) s =
       (let eff = [Return_response m (Some (GTuple [GArray ''o'' (map GObjPath paths)])), Task_completed]
        in Some (core_emit eff s, td, eff)) \<and>
     mset paths = announced (calls upnp) \<and>
     prv_process_task ops gl msg_new (dld_task_rescan_new m) s =
       (let eff = [Return_response m None, Task_completed]
        in Some (core_emit eff (s\<lparr>srv_upnp := Upnp_at (upnp\<lparr>calls := calls upnp @ [Rescan_control_points]\<rparr>)\<rparr>),
             tr, eff))"
proof -
  have "upnp_reach gl upnp" using reach_service_inv [OF assms(1)] assms(2) by (simp add: service_inv_def)
  then obtain paths where ids: "dld_upnp_get_device_ids upnp = Some (GArray ''o'' (map GObjPath paths))"
    "mset paths = announced (calls upnp)" using device_ids_announced by blast
  have "dld_upnp_rescan upnp = upnp\<lparr>calls := calls upnp @ [Rescan_control_points]\<rparr>"
    by (simp add: dld_upnp_rescan_def env_step_def)
  with ids assms(2) show ?thesis
    by (intro exI [of _ paths])
      (simp add: prv_process_task_def prv_process_sync_task_def constructor_defs dld_task_complete_def
        g_variant_new_fmt_def Let_def del: core_emit.simps)
qed

theorem sync_calls_answered_witness:
  "\<exists>tv eff. prv_process_task memory_settings glib_ref (\<lambda>_. True) (dld_task_get_version_new 4) sample_service =
       Some (core_emit eff sample_service, tv, eff) \<and>
     eff = [Return_response 4 (Some (GTuple [GString ''0.0.1''])), Task_completed]"
proof -
  have "VERSION = ''0.0.1''" by (simp add: VERSION_def)
  with sync_calls_answered [OF sample_service_reach sample_service_upnp, of glib_ref "\<lambda>_. True" 4]
  show ?thesis by (auto simp: Let_def simp del: core_emit.simps)
qed

end
