(* ===== verification/Call_Life.thy ===== *)
theory Call_Life
  imports Server_Life
begin

section \<open>The life of a method call\<close>

text \<open>
  One method call of a client, from the D-Bus message to the end of its task: the handler of
  \<open>server.c\<close> replies or queues a task; the task processor drops the waiting task or runs it with
  \<open>prv_process_task\<close>; an asynchronous task goes through its life of \<open>Async_Run\<close>; a completed task is
  deleted with \<open>prv_delete_task\<close>. The theory follows the replies along the whole way.
\<close>

subsection \<open>What running a task leaves of the request\<close>

text \<open>The type, the parameters, the kind and the reply format of a task never change.\<close>

definition same_request :: "dld_task \<Rightarrow> dld_task \<Rightarrow> bool" where
  "same_request t t' \<longleftrightarrow>
     task_type t' = task_type t \<and> task_ut t' = task_ut t \<and> synchronous t' = synchronous t \<and>
     result_format t' = result_format t \<and> multiple_retvals t' = multiple_retvals t"

lemma same_request_trans [trans]: "same_request t t1 \<Longrightarrow> same_request t1 t2 \<Longrightarrow> same_request t t2"
  by (simp add: same_request_def)

lemma same_request_simps [simp]:
  "same_request t t"
  "same_request t (t1\<lparr>invocation := i\<rparr>) = same_request t t1"
  "same_request t (t1\<lparr>task_result := r\<rparr>) = same_request t t1"
  "same_request (t\<lparr>task_result := r\<rparr>) t1 = same_request t t1"
  "same_request (new_cancellable t) t1 = same_request t t1"
  "same_request t (t1\<lparr>task_async := a\<rparr>) = same_request t t1"
  "same_request t (upd_async f t1) = same_request t t1"
  "same_request t (set_cb dv t1) = same_request t t1"
  "same_request t (set_manager_cb t1) = same_request t t1"
  "same_request t (set_error code msg t1) = same_request t t1"
  "same_request t (new_cancellable t1) = same_request t t1"
  by (auto simp: same_request_def upd_async_def set_cb_def set_manager_cb_def set_error_def new_cancellable_def split: option.split)

lemma complete_request: "dld_task_complete t = Some (t', eff) \<Longrightarrow> same_request t t'"
  by (auto dest!: complete_frame)

lemma failing_request: "dld_task_fail e t = (t', eff) \<Longrightarrow> same_request t t'"
  using fail_frame [of e t] by simp

lemma begin_action_request: "begin_action name args d t = Some (t', eff) \<Longrightarrow> same_request t t'"
  by (auto simp: begin_action_def Let_def split: option.splits prod.splits)

lemma device_handlers_request:
  "dld_device_get_prop d t = Some (t', eff) \<Longrightarrow> same_request t t'"
  "dld_device_get_all_props d t = Some (t', eff) \<Longrightarrow> same_request t t'"
  "dld_device_get_icon gl msg_new d t = Some (d', t', eff) \<Longrightarrow> same_request t t'"
  "device_action type d t = Some (t', eff) \<Longrightarrow> same_request t t'"
proof -
  show "device_action type d t = Some (t', eff) \<Longrightarrow> same_request t t'"
    by (erule device_action_begins) (rule begin_action_request)
qed (auto simp: dld_device_get_prop_def dld_device_get_all_props_def dld_device_get_icon_def
    prv_get_prop_def prv_get_props_def prv_build_icon_result_def Let_def split: task_ut.splits option.splits prod.splits if_splits)

lemma manager_request:
  "dld_manager_get_prop ops st t = Some (t', eff) \<Longrightarrow> same_request t t'"
  "dld_manager_get_all_props ops st t = Some (t', eff) \<Longrightarrow> same_request t t'"
  "dld_manager_set_prop ops st t = Some (st', t', eff) \<Longrightarrow> same_request t t'"
  by (auto simp: dld_manager_get_prop_def dld_manager_get_all_props_def dld_manager_set_prop_def
      prv_set_prop_never_quit_def prv_set_prop_wl_enabled_def prv_set_prop_wl_entries_def
      prv_wl_notify_prop_def Let_def split: task_ut.splits if_splits prod.splits)

lemma on_upnp_request:
  assumes "on_upnp (on_checked_device f) t s = Some (s', t', eff)"
    and "\<And>d d' t t' eff. f d t = Some (d', t', eff) \<Longrightarrow> same_request t t'"
  shows "same_request t t'"
  using assms(1)
  by (auto simp: on_upnp_def on_checked_device_def prv_get_and_check_device_def dest!: assms(2)
      split: upnp_pointer.splits bind_splits option.splits)


lemma process_task_request:
  assumes "prv_process_task ops gl msg_new t s = Some (s', t', eff)"
  shows "same_request t t'"
proof (cases "synchronous t")
  case True
  with assms show ?thesis
    by (auto simp: prv_process_task_def prv_process_sync_task_def
        dest!: complete_request split: dld_task_type.splits upnp_pointer.splits bind_splits)
next
  case False
  have keep: "same_request t t'" if "on_upnp (on_checked_device (keep_device g)) t s = Some (s', t', eff)"
    "\<And>d t t' eff. g d t = Some (t', eff) \<Longrightarrow> same_request t t'" for g t t' eff
    by (rule on_upnp_request [OF that(1)]) (auto simp: keep_device_def dest: that(2))
  have act: "same_request t t'" if "on_upnp (upnp_action type) t s = Some (s', t', eff)" "is_action type" for type t t' eff
    by (rule keep [of "device_action type" t t' eff])
      (use that device_handlers_request(4) in \<open>auto simp: upnp_action_eq on_upnp_def split: upnp_pointer.splits\<close>)
  have "same_request (new_cancellable t) t'"
  proof (cases "is_action (task_type t)")
    case True
    then have "on_upnp (upnp_action (task_type t)) (new_cancellable t) s = Some (s', t', eff)"
      using assms \<open>\<not> synchronous t\<close>
      by (auto simp: prv_process_task_def prv_process_async_task_def is_action_def upnp_action_def [abs_def])
    then show ?thesis using True by (rule act)
  next
    case other: False
    show ?thesis
      using assms False other
      by (cases "task_type t")
        (auto simp: prv_process_task_def prv_process_async_task_def is_action_def upnp_op_defs [abs_def]
          dest!: manager_request
          dest: on_upnp_request [OF _ device_handlers_request(3)]
            keep [OF _ device_handlers_request(1)] keep [OF _ device_handlers_request(2)])
  qed
  then show ?thesis by simp
qed

lemma async_step_request:
  assumes "async_step gl r r'"
  shows "same_request (run_async_task r) (run_async_task r')"
  using assms
proof cases
  case (cancel t' eff)
  then show ?thesis by (auto simp: cancel_eq Let_def split: if_splits option.splits)
next
  case (idle t' eff)
  then show ?thesis
    by (auto simp: dld_async_task_complete_def dest!: async_complete_eq complete_request failing_request
        split: option.splits if_splits)
next
  case (downloaded status d d' t' eff)
  then show ?thesis
    by (auto simp: prv_get_icon_session_cb_def prv_build_icon_result_def Let_def split: soup_status.splits)
next
  case (answer parse content cb r' t' eff)
  obtain outcome where "end_callback outcome (run_async_task r) = (t', eff)"
    by (rule callback_ends [OF answer(3,4)])
  with answer(1) show ?thesis by (auto simp: end_callback_def split: sum.splits option.splits)
qed simp


subsection \<open>Deleting a task\<close>

text \<open>A task that \<open>prv_delete_task\<close> can free: the members it reads were written.\<close>

definition deletable :: "dld_task \<Rightarrow> bool" where
  "deletable t \<longleftrightarrow>
     freed_strings (task_type t) (task_ut t) \<noteq> None \<and> (synchronous t \<or> task_async t \<noteq> None)"

lemma deletable_defined: "deletable t \<Longrightarrow> \<exists>strs eff. prv_delete_task t = Some (strs, eff)"
  by (auto simp: deletable_def prv_delete_task_def dld_task_delete_def prv_dld_task_delete_def)

lemma client_task_deletable: "client_task gl m t \<Longrightarrow> deletable t"
  by (drule client_task_wf) (auto simp: task_wf_def deletable_def)

lemma same_request_deletable:
  "deletable t \<Longrightarrow> same_request t t' \<Longrightarrow> task_async t' \<noteq> None \<or> synchronous t' \<Longrightarrow> deletable t'"
  by (auto simp: deletable_def same_request_def)

lemma sync_run_answered:
  assumes "prv_process_task ops gl msg_new t s = Some (s', t', eff)" and "synchronous t" and "eff \<noteq> []"
  shows "invocation t' = None"
  using assms
  by (auto simp: prv_process_task_def prv_process_sync_task_def split: dld_task_type.splits upnp_pointer.splits bind_splits
      dest!: complete_frame)

subsection \<open>Stages and steps\<close>

text \<open>
  A call waits in a queue as a task, or its asynchronous task is running, or it is over. The first
  component holds the replies sent before; those of a running task are in its record.
\<close>

datatype stage =
    Waiting "msg_id list" dld_task
  | Running "msg_id list" async_run
  | Over "msg_id list"

fun sent :: "stage \<Rightarrow> msg_id list" where
  "sent (Waiting rs t) = rs"
| "sent (Running rs r) = rs @ run_replies r"
| "sent (Over rs) = rs"

text \<open>No queue has got longer, so the handler added no task.\<close>

definition no_task_added :: "'st dld_context \<Rightarrow> 'st dld_context \<Rightarrow> bool" where
  "no_task_added s s' \<longleftrightarrow>
     (\<forall>src snk. length (queue_of s' src snk) \<le> length (queue_of s src snk))"

text \<open>
  The steps of a call that has become a task. The task is in a queue when the task processor runs it,
  in any state of the service; a task that has not started is dropped with its
  queue, when the client or the device is lost or the client cancels.
\<close>

inductive call_step :: "'st settings_ops \<Rightarrow> glib \<Rightarrow> stage \<Rightarrow> stage \<Rightarrow> bool" for ops gl where
  run_sync: "service_reach ops gl s \<Longrightarrow> map_of (srv_queues s) key = Some (ts1 @ t # ts2) \<Longrightarrow> synchronous t \<Longrightarrow>
     prv_process_task ops gl msg_new t (set_queue key (ts1 @ ts2) s) = Some (s', t', eff) \<Longrightarrow>
     prv_delete_task t' = Some (strs, eff2) \<Longrightarrow>
     call_step ops gl (Waiting rs t) (Over (rs @ replies eff @ replies eff2))"
| run_async: "service_reach ops gl s \<Longrightarrow> map_of (srv_queues s) key = Some (ts1 @ t # ts2) \<Longrightarrow> \<not> synchronous t \<Longrightarrow>
     prv_process_task ops gl msg_new t (set_queue key (ts1 @ ts2) s) = Some (s', t', eff) \<Longrightarrow>
     call_step ops gl (Waiting rs t) (Running rs (start_run t' eff))"
| progress: "async_step gl r r' \<Longrightarrow> call_step ops gl (Running rs r) (Running rs r')"
| completed: "0 < run_done r \<Longrightarrow> prv_delete_task (run_async_task r) = Some (strs, eff) \<Longrightarrow>
     call_step ops gl (Running rs r) (Over (rs @ run_replies r @ replies eff))"
| dropped: "prv_delete_task t = Some (strs, eff) \<Longrightarrow>
     call_step ops gl (Waiting rs t) (Over (rs @ replies eff))"

inductive call_reach :: "'st settings_ops \<Rightarrow> glib \<Rightarrow> msg_id \<Rightarrow> stage \<Rightarrow> bool" for ops gl m where
  replied: "service_reach ops gl s \<Longrightarrow> (iface, handler) \<in> set service_handlers \<Longrightarrow>
     md \<in> set (ii_methods iface) \<Longrightarrow> has_types (in_types md) params \<Longrightarrow>
     handler ops gl sender object (im_name md) params m s = Some s' \<Longrightarrow>
     srv_calls s' = srv_calls s @ eff \<Longrightarrow> no_task_added s s' \<Longrightarrow> call_reach ops gl m (Over (replies eff))"
| queued: "service_reach ops gl s \<Longrightarrow> (iface, handler) \<in> set service_handlers \<Longrightarrow>
     md \<in> set (ii_methods iface) \<Longrightarrow> has_types (in_types md) params \<Longrightarrow>
     handler ops gl sender object (im_name md) params m s = Some s' \<Longrightarrow>
     srv_calls s' = srv_calls s @ eff \<Longrightarrow> queue_of s' src snk = queue_of s src snk @ [t] \<Longrightarrow>
     call_reach ops gl m (Waiting (replies eff) t)"
| proceeds: "call_reach ops gl m st \<Longrightarrow> call_step ops gl st st' \<Longrightarrow> call_reach ops gl m st'"

subsection \<open>Invariant\<close>

fun call_inv :: "glib \<Rightarrow> msg_id \<Rightarrow> stage \<Rightarrow> bool" where
  "call_inv gl m (Waiting rs t) \<longleftrightarrow> rs = [] \<and> client_task gl m t"
| "call_inv gl m (Running rs r) \<longleftrightarrow> rs = [] \<and> run_inv m r \<and> deletable (run_async_task r)"
| "call_inv gl m (Over rs) \<longleftrightarrow> rs = [m]"

lemma service_call_handled:
  assumes "service_reach ops gl s" and "(iface, handler) \<in> set service_handlers"
    and "md \<in> set (ii_methods iface)" and "has_types (in_types md) params"
    and "handler ops gl sender object (im_name md) params m s = Some s'"
  shows "handled gl m sender md s s'"
proof -
  from reach_service_inv [OF assms(1)] obtain upnp where "srv_upnp s = Upnp_at upnp" "upnp_reach gl upnp"
    by (auto simp: service_inv_def)
  from declared_call_handled [OF this assms(2,3,4), of ops sender object m] assms(5) show ?thesis by auto
qed

lemma handled_no_task:
  assumes "handled gl m sender md s s'" and "srv_calls s' = srv_calls s @ eff" and "no_task_added s s'"
  shows "replies eff = [m]"
  using assms unfolding handled_def no_task_added_def
  by (metis append_same_eq same_append_eq length_append_singleton not_less_eq_eq order_refl)

lemma handled_queued:
  assumes "handled gl m sender md s s'" and "srv_calls s' = srv_calls s @ eff"
    and "queue_of s' src snk = queue_of s src snk @ [t]"
  shows "replies eff = [] \<and> client_task gl m t"
proof -
  have grown: "queue_of s' src snk \<noteq> queue_of s src snk" "queue_of s' src snk \<noteq> []" using assms(3) by auto
  from assms(1,2) show ?thesis
    unfolding handled_def using grown assms(3) by (metis last_snoc prod.inject same_append_eq)
qed

lemma call_inv_step:
  assumes "call_inv gl m st" and "call_step ops gl st st'"
  shows "call_inv gl m st'"
  using assms(2)
proof cases
  case (run_sync s key ts1 t ts2 msg_new s' t' eff strs eff2 rs)
  let ?s = "set_queue key (ts1 @ ts2) s"
  have m: "client_task gl m t" using assms(1) run_sync(1) by simp
  obtain upnp where s: "srv_upnp ?s = Upnp_at upnp" "upnp_reach gl upnp"
    using reach_service_inv [OF run_sync(3)] by (auto simp: service_inv_def set_queue_def)
  obtain r where eff: "eff = [Return_response m r, Task_completed]"
    using task_ran [OF s m run_sync(6)] run_sync(5,6) by (auto simp: task_runs_def)
  have "invocation t' = None" using sync_run_answered [OF run_sync(6,5)] eff by simp
  then have "replies eff2 = []" using delete_replies run_sync(7) by (fastforce simp: prv_delete_task_def)
  then show ?thesis using assms(1) run_sync(1,2) eff by simp
next
  case (run_async s key ts1 t ts2 msg_new s' t' eff rs)
  let ?s = "set_queue key (ts1 @ ts2) s"
  have m: "client_task gl m t" using assms(1) run_async(1) by simp
  obtain upnp where s: "srv_upnp ?s = Upnp_at upnp" "upnp_reach gl upnp"
    using reach_service_inv [OF run_async(3)] by (auto simp: service_inv_def set_queue_def)
  have inv: "run_inv m (start_run t' eff)"
    using task_ran [OF s m run_async(6)] run_async(5,6)
    by (auto simp: task_runs_def dest: run_inv_reach)
  then have "deletable t'"
    using same_request_deletable [OF client_task_deletable [OF m] process_task_request [OF run_async(6)]]
    by (auto simp: run_inv_def start_run_def)
  then show ?thesis using assms(1) run_async(1,2) inv by (simp add: start_run_def)
next
  case (progress r r' rs)
  then have inv: "run_inv m r'" using assms(1) run_inv_step [OF _ progress(3)] by simp
  then have "deletable (run_async_task r')"
    using same_request_deletable [OF _ async_step_request [OF progress(3)]] assms(1) progress(1)
    by (auto simp: run_inv_def)
  then show ?thesis using assms(1) progress(1,2) inv by simp
next
  case (completed r strs eff rs)
  then have "invocation (run_async_task r) = None" "run_replies r = [m]" using assms(1) by (auto simp: run_inv_def)
  moreover from this have "replies eff = []"
    using delete_replies completed(4) by (fastforce simp: prv_delete_task_def)
  ultimately show ?thesis using assms(1) completed(1,2) by simp
next
  case (dropped t strs eff rs)
  then have "invocation t = Some m" using assms(1) client_task_wf by auto
  then have "replies eff = [m]" using delete_replies dropped(3) by (fastforce simp: prv_delete_task_def)
  then show ?thesis using assms(1) dropped(1,2) by simp
qed

lemma call_inv_reach: "call_reach ops gl m st \<Longrightarrow> call_inv gl m st"
proof (induction rule: call_reach.induct)
  case (replied s iface handler md params sender object s' eff)
  from handled_no_task [OF service_call_handled [OF replied(1-5)] replied(6,7)] show ?case by simp
next
  case (queued s iface handler md params sender object s' eff src snk t)
  from handled_queued [OF service_call_handled [OF queued(1-5)] queued(6,7)] show ?case by simp
next
  case (proceeds st st')
  then show ?case using call_inv_step by blast
qed


subsection \<open>The end of a call\<close>

lemma answered_completes:
  assumes "task_async t = Some a" and "async_cb a" and "invocation t = None"
  shows "\<exists>t' eff. dld_async_task_complete t = Some (t', eff)"
  using assms
  by (cases "async_error a") (simp_all add: dld_async_task_complete_def prv_async_task_complete_def dld_task_complete_def
      dld_task_fail_def)

lemma completed_over:
  assumes "call_inv gl m (Running rs r)" and "0 < run_done r"
  shows "call_step ops gl (Running rs r) (Over [m])"
proof -
  from assms obtain strs eff where d: "prv_delete_task (run_async_task r) = Some (strs, eff)"
    using deletable_defined [of "run_async_task r"] by auto
  from call_step.completed [OF assms(2) d, of ops gl rs]
    call_inv_step [OF assms(1) call_step.completed [OF assms(2) d, of ops gl rs]] show ?thesis by simp
qed

text \<open>
  A run can always be completed: by its cancellation, if nothing else ends it. The steps that need no
  answer from the network: the task is cancelled, and its idle handler completes it.
\<close>

inductive own_step :: "async_run \<Rightarrow> async_run \<Rightarrow> bool" where
  own_cancel:
    "dld_task_cancel (run_async_task s) = Some (t', eff) \<Longrightarrow>
     own_step s (s\<lparr>run_async_task := t', run_idles := run_idles s + idles_in eff,
                   run_action := (run_action s \<and> \<not> cancels_action eff),
                   run_message := (run_message s \<and> Cancel_message \<notin> set eff),
                   run_log := run_log s @ eff\<rparr>)"
| own_idle:
    "0 < run_idles s \<Longrightarrow> dld_async_task_complete (run_async_task s) = Some (t', eff) \<Longrightarrow>
     own_step s (s\<lparr>run_async_task := t', run_idles := run_idles s - 1, run_done := run_done s + 1,
                   run_log := run_log s @ eff\<rparr>)"

lemma own_async: "own_step r r' \<Longrightarrow> async_step gl r r'"
  by (induction rule: own_step.induct) (erule async_step.cancel, erule (1) async_step.idle)

lemma own_asyncs: "own_step\<^sup>*\<^sup>* r r' \<Longrightarrow> (async_step gl)\<^sup>*\<^sup>* r r'"
  by (rule rtranclp_mono [THEN predicate2D]) (auto intro: own_async)

lemma run_completes:
  assumes inv: "run_inv m r"
  shows "\<exists>r'. own_step\<^sup>*\<^sup>* r r' \<and> 0 < run_done r'"
proof (cases "run_done r = 0")
  case True
  from inv obtain a where a: "task_async (run_async_task r) = Some a" "\<not> synchronous (run_async_task r)"
    by (auto simp: run_inv_def)
  obtain t1 eff1 where c: "dld_task_cancel (run_async_task r) = Some (t1, eff1)" using a by (simp add: cancel_eq Let_def)
  note step1 = own_cancel [OF c]
  let ?r1 = "r\<lparr>run_async_task := t1, run_idles := run_idles r + idles_in eff1,
                     run_action := (run_action r \<and> \<not> cancels_action eff1),
                     run_message := (run_message r \<and> Cancel_message \<notin> set eff1),
                     run_log := run_log r @ eff1\<rparr>"
  note inv1 = run_inv_step [OF inv own_async [OF step1]]
  from cancel_frame(1,7) [OF c a] obtain a1 where t1: "invocation t1 = None" "task_async t1 = Some a1" "handler_of a1 = None"
    by auto
  have "async_cb a1" "run_idles ?r1 = 1" using inv1 t1 True by (auto simp: run_inv_def)
  with answered_completes [OF t1(2) _ t1(1)] obtain t2 eff2 where
    d: "dld_async_task_complete (run_async_task ?r1) = Some (t2, eff2)" by auto
  have "0 < run_idles ?r1" using \<open>run_idles ?r1 = 1\<close> by simp
  note step2 = own_idle [OF this d]
  let ?r2 = "?r1\<lparr>run_async_task := t2, run_idles := run_idles ?r1 - 1, run_done := run_done ?r1 + 1,
                     run_log := run_log ?r1 @ eff2\<rparr>"
  from step2 have "own_step\<^sup>*\<^sup>* ?r1 ?r2" by (rule r_into_rtranclp)
  with step1 have "own_step\<^sup>*\<^sup>* r ?r2" by (rule converse_rtranclp_into_rtranclp)
  then show ?thesis by (intro exI [of _ ?r2]) simp
qed auto

lemma progress_steps: "(async_step gl)\<^sup>*\<^sup>* r r' \<Longrightarrow> (call_step ops gl)\<^sup>*\<^sup>* (Running rs r) (Running rs r')"
  by (induction rule: rtranclp_induct) (auto intro: progress rtranclp.rtrancl_into_rtrancl)

lemma call_inv_steps: "(call_step ops gl)\<^sup>*\<^sup>* st st' \<Longrightarrow> call_inv gl m st \<Longrightarrow> call_inv gl m st'"
  by (induction rule: rtranclp_induct) (auto intro: call_inv_step)

lemma run_over:
  assumes "call_inv gl m (Running rs r)"
  shows "(call_step ops gl)\<^sup>*\<^sup>* (Running rs r) (Over [m])"
proof -
  from assms obtain r' where r': "(async_step gl)\<^sup>*\<^sup>* r r'" "0 < run_done r'"
    using run_completes [of m r] own_asyncs [of r _ gl] by auto
  note steps = progress_steps [OF r'(1), of ops rs]
  from completed_over [OF call_inv_steps [OF steps assms] r'(2), of ops] steps show ?thesis
    by (rule rtranclp.rtrancl_into_rtrancl [rotated])
qed

lemma call_ends:
  assumes "call_inv gl m st"
  shows "(call_step ops gl)\<^sup>*\<^sup>* st (Over [m])"
proof (cases st)
  case (Waiting rs t)
  then have "client_task gl m t" using assms by simp
  then obtain strs eff where d: "prv_delete_task t = Some (strs, eff)"
    using deletable_defined client_task_deletable by blast
  note step = dropped [OF d, of ops gl rs]
  from call_inv_step [OF assms [unfolded Waiting] step] step show ?thesis by (auto simp: Waiting)
next
  case (Running rs r)
  show ?thesis unfolding Running by (rule run_over [OF assms [unfolded Running]])
next
  case (Over rs)
  then show ?thesis using assms by simp
qed

subsection \<open>Properties\<close>

text \<open>C5: Every method call gets exactly one reply. Follow a declared call from its message to the end
  of its task, through any states of the service: whether its handler answers it, it waits in a queue,
  its task runs, or it is dropped or cancelled at any point, the client is never sent a second reply;
  when the call is over it has been sent exactly one; and from every point the call can come to its
  end, deleting its task safely.\<close>

theorem calls_answered_once:
  assumes "call_reach ops gl m st"
  shows "(sent st = [] \<or> sent st = [m]) \<and> (\<forall>rs. st = Over rs \<longrightarrow> rs = [m]) \<and>
     (call_step ops gl)\<^sup>*\<^sup>* st (Over [m])"
proof -
  note inv = call_inv_reach [OF assms]
  then have "sent st = [] \<or> sent st = [m]" by (cases st) (auto simp: run_inv_def)
  with inv call_ends [OF inv] show ?thesis by (cases st) simp_all
qed

text \<open>The call \<open>GetVersion\<close> of \<open>sample_called\<close>: queued, run and over.\<close>

lemma sample_call_queued: "call_reach memory_settings gl 4 (Waiting [] (dld_task_get_version_new 4))"
proof -
  let ?md = "\<lparr>im_name = DLD_INTERFACE_GET_VERSION, im_in = [], im_out = [(''s'', ''Version'')]\<rparr>"
  have h: "(manager_interface, g_root_vtables ! 0) \<in> set service_handlers"
    by (simp add: service_handlers_def g_root_introspection_def g_root_vtables_def)
  have md: "?md \<in> set (ii_methods manager_interface)" by (simp add: manager_interface_def)
  have ty: "has_types (in_types ?md) (GTuple [])" by (simp add: in_types_def has_types_cases)
  have c: "(g_root_vtables ! 0) memory_settings gl '':1.5'' ''/'' (im_name ?md) (GTuple []) 4 sample_service = Some sample_called"
    by (simp add: g_root_vtables_def prv_manager_root_method_call_def method_name_defs sample_called_def)
  have q: "queue_of sample_called '':1.5'' DLD_DIAGNOSTICS_SINK =
      queue_of sample_service '':1.5'' DLD_DIAGNOSTICS_SINK @ [dld_task_get_version_new 4]"
    by (simp add: sample_called_def queue_of_add_task)
  obtain eff where e: "srv_calls sample_called = srv_calls sample_service @ eff" "replies eff = []"
    by (auto simp: sample_called_def add_task_eq reply_of_def)
  from queued [OF sample_service_reach h md ty c e(1) q] e(2) show ?thesis by simp
qed

theorem calls_answered_once_witness:
  "\<exists>t' eff strs eff2.
     prv_process_task memory_settings glib_ref (\<lambda>_. True) (dld_task_get_version_new 4)
       (set_queue ('':1.5'', DLD_DIAGNOSTICS_SINK) [] sample_called) = Some (core_emit eff
         (set_queue ('':1.5'', DLD_DIAGNOSTICS_SINK) [] sample_called), t', eff) \<and>
     prv_delete_task t' = Some (strs, eff2) \<and> replies eff @ replies eff2 = [4]"
proof -
  let ?s = "set_queue ('':1.5'', DLD_DIAGNOSTICS_SINK) [] sample_called"
  let ?t = "dld_task_get_version_new 4"
  obtain t' eff strs eff2 where run: "prv_process_task memory_settings glib_ref (\<lambda>_. True) ?t ?s = Some (core_emit eff ?s, t', eff)"
    and del: "prv_delete_task t' = Some (strs, eff2)"
    by (simp add: prv_process_task_def prv_process_sync_task_def constructor_defs dld_task_complete_def
        g_variant_new_fmt_def prv_delete_task_def dld_task_delete_def prv_dld_task_delete_def freed_strings_def
        del: core_emit.simps)
  have q: "map_of (srv_queues sample_called) ('':1.5'', DLD_DIAGNOSTICS_SINK) = Some [?t]"
    by (simp add: sample_called_def add_task_eq sample_service_def prv_control_point_start_service_def
        prv_white_list_init_def prv_control_point_initialize_def core_step_def dld_manager_new_def Let_def upt_rec
        DLD_MANAGER_INTERFACE_INFO_MAX_def split: option.split)
  have "synchronous ?t" by (simp add: constructor_defs)
  from proceeds [OF sample_call_queued run_sync [OF sample_called_reach, of _ "[]" _ "[]", simplified, OF q this run del, of "[]"]]
  have "call_reach memory_settings glib_ref 4 (Over (replies eff @ replies eff2))" by simp
  from calls_answered_once [OF this] run del show ?thesis by auto
qed

end
