(* ===== verification/Reply_Types.thy ===== *)
theory Reply_Types
  imports Call_Life
begin

section \<open>The types of the replies\<close>

text \<open>
  Every task carries the format of its reply from its constructor to its completion. This theory
  follows the format through the handlers, the callbacks and the idle handler: what a client receives
  has the type that the introspection document declares for the method.
\<close>

subsection \<open>Formats\<close>

definition task_format :: "dld_task_type \<Rightarrow> string option \<times> bool" where
  "task_format type =
     (case type of
        DLD_TASK_GET_VERSION \<Rightarrow> (Some ''(@s)'', False)
      | DLD_TASK_GET_DEVICES \<Rightarrow> (Some ''(@ao)'', False)
      | DLD_TASK_GET_PROP \<Rightarrow> (Some ''(v)'', False)
      | DLD_TASK_MANAGER_GET_PROP \<Rightarrow> (Some ''(v)'', False)
      | DLD_TASK_GET_ALL_PROPS \<Rightarrow> (Some ''(@a{sv})'', False)
      | DLD_TASK_MANAGER_GET_ALL_PROPS \<Rightarrow> (Some ''(@a{sv})'', False)
      | DLD_TASK_GET_ICON \<Rightarrow> (Some ''(@ays)'', True)
      | _ \<Rightarrow> action_format type)"

definition formatted :: "dld_task \<Rightarrow> bool" where
  "formatted t \<longleftrightarrow> (result_format t, multiple_retvals t) = task_format (task_type t)"

lemma same_request_formatted: "same_request t t' \<Longrightarrow> formatted t' = formatted t"
  by (simp add: same_request_def formatted_def)

lemma client_task_formatted: "client_task gl m t \<Longrightarrow> formatted t"
proof (induction rule: client_task.induct)
  case (action_task type object params t)
  then show ?case using action_task_started(2,3) [OF action_task] action_new_type [OF action_task]
    by (auto simp: formatted_def task_format_def action_format_def is_action_def split: dld_task_type.splits)
qed (auto simp: formatted_def task_format_def action_format_def constructor_defs
    split: gvariant.splits list.splits)

text \<open>The result, once there is one, can be sent with the format.\<close>

definition result_typed :: "dld_task \<Rightarrow> bool" where
  "result_typed t \<longleftrightarrow>
     (case (result_format t, task_result t) of
        (Some fmt, Some r) \<Rightarrow>
          if multiple_retvals t then gv_type r = reply_type fmt
          else fmt = ''(v)'' \<or> fmt = ''(@'' @ gv_type r @ '')''
      | _ \<Rightarrow> True)"

text \<open>There is something to send: an error, a result, or a reply without a value.\<close>

definition answer_ready :: "dld_task \<Rightarrow> bool" where
  "answer_ready t \<longleftrightarrow>
     result_format t = None \<or> task_result t \<noteq> None \<or>
     (\<exists>a. task_async t = Some a \<and> async_error a \<noteq> None)"

definition reply_matches :: "string option \<Rightarrow> effect \<Rightarrow> bool" where
  "reply_matches fmt e \<longleftrightarrow>
     (case e of
        Return_response _ None \<Rightarrow> fmt = None
      | Return_response _ (Some v) \<Rightarrow> (\<exists>f. fmt = Some f \<and> gv_type v = reply_type f)
      | _ \<Rightarrow> True)"

lemma reply_matches_simps [simp]:
  "reply_matches fmt (Return_response m None) = (fmt = None)"
  "reply_matches fmt (Return_response m (Some v)) = (\<exists>f. fmt = Some f \<and> gv_type v = reply_type f)"
  "reply_of e = [] \<Longrightarrow> reply_matches fmt e"
  "reply_matches fmt (Return_error m err)"
  by (auto simp: reply_matches_def reply_of_def split: effect.splits)

lemma no_replies_match: "replies eff = [] \<Longrightarrow> list_all (reply_matches fmt) eff"
  by (induction eff) auto

text \<open>A reply that matches the format of a task has the type that the document declares.\<close>

lemma matches_declared: "declared_reply md t \<Longrightarrow> reply_matches (result_format t) e \<Longrightarrow> reply_fits md e"
  by (auto simp: declared_reply_def reply_matches_def reply_fits_def split: effect.splits option.splits)

lemma complete_matches:
  assumes "dld_task_complete t = Some (t', eff)" and "result_typed t"
    and "result_format t = None \<or> task_result t \<noteq> None"
  shows "list_all (reply_matches (result_format t)) eff"
  using assms
  by (auto simp: dld_task_complete_def result_typed_def g_variant_new_fmt_def reply_type_def split: option.splits if_splits)

lemma async_complete_matches:
  assumes "dld_async_task_complete t = Some (t', eff)" and "result_typed t"
    and "invocation t \<noteq> None \<longrightarrow> answer_ready t"
  shows "list_all (reply_matches (result_format t)) eff"
proof -
  obtain a where a: "task_async t = Some a" "prv_async_task_complete (async_error a) t = Some (t', eff)"
    using assms(1) by (auto simp: dld_async_task_complete_def split: option.splits if_splits)
  obtain eff1 where eff: "eff = eff1 @ [Task_completed]"
    and fin: "case async_error a of Some e \<Rightarrow> dld_task_fail e t = (t', eff1) | None \<Rightarrow> dld_task_complete t = Some (t', eff1)"
    using async_complete_eq [OF a(2)] by blast
  have "list_all (reply_matches (result_format t)) eff1"
  proof (cases "async_error a")
    case None
    show ?thesis
    proof (cases "invocation t")
      case None
      then show ?thesis using fin \<open>async_error a = None\<close> by (simp add: dld_task_complete_def)
    next
      case (Some m)
      then have "result_format t = None \<or> task_result t \<noteq> None"
        using assms(3) a(1) \<open>async_error a = None\<close> by (auto simp: answer_ready_def)
      with fin None assms(2) show ?thesis using complete_matches by auto
    qed
  next
    case (Some e)
    with fin show ?thesis by (auto simp: dld_task_fail_def split: option.splits)
  qed
  then show ?thesis by (simp add: eff)
qed

subsection \<open>Starting a task\<close>

text \<open>GLib documents that \<open>g_variant_new_string\<close> makes a string; for NULL it returns NULL or a string.\<close>

definition string_doc :: "glib \<Rightarrow> bool" where
  "string_doc gl \<longleftrightarrow> (case gv_new_string_null gl of None \<Rightarrow> True | Some v \<Rightarrow> gv_type v = ''s'')"

lemma new_string_type: "string_doc gl \<Longrightarrow> g_variant_new_string gl s = Some v \<Longrightarrow> gv_type v = ''s''"
  by (auto simp: string_doc_def g_variant_new_string_def split: option.splits)

definition typed_start :: "dld_task \<Rightarrow> effect list \<Rightarrow> bool" where
  "typed_start t eff \<longleftrightarrow>
     formatted t \<and> result_typed t \<and> (0 < idles_in eff \<longrightarrow> answer_ready t) \<and>
     (queues_message eff \<longrightarrow> task_type t = DLD_TASK_GET_ICON) \<and> replies eff = []"

lemma ready_error [simp]:
  "task_async t \<noteq> None \<Longrightarrow> answer_ready (set_error code msg t)"
  "result_typed (set_error code msg t) = result_typed t" "formatted (set_error code msg t) = formatted t"
  "task_type (set_error code msg t) = task_type t"
  by (auto simp: answer_ready_def result_typed_def formatted_def set_error_def upd_async_def split: option.splits)

lemma formatted_simps [simp]:
  "formatted (t\<lparr>task_result := r\<rparr>) = formatted t" "formatted (t\<lparr>task_async := a\<rparr>) = formatted t"
  "formatted (t\<lparr>invocation := i\<rparr>) = formatted t" "formatted (upd_async f t) = formatted t"
  "formatted (set_cb dv t) = formatted t" "formatted (set_manager_cb t) = formatted t"
  by (simp_all add: formatted_def set_cb_def set_manager_cb_def upd_async_def split: option.split)

lemma result_typed_simps [simp]:
  "result_typed (t\<lparr>task_async := a\<rparr>) = result_typed t" "result_typed (t\<lparr>invocation := i\<rparr>) = result_typed t"
  "result_typed (upd_async f t) = result_typed t" "task_result t = None \<Longrightarrow> result_typed t"
  by (simp_all add: result_typed_def upd_async_def split: option.split)

lemma ready_disconnect [simp]: "answer_ready (upd_async g_cancellable_disconnect t) = answer_ready t"
proof -
  have "async_error (g_cancellable_disconnect a) = async_error a" for a
    by (simp add: g_cancellable_disconnect_def split: option.split)
  then show ?thesis by (cases "task_async t") (simp_all add: answer_ready_def upd_async_def)
qed

lemma get_prop_typed:
  assumes "dld_device_get_prop d t = Some (t', eff)" and "started_task m t a" and "formatted t"
    and "task_type t = DLD_TASK_GET_PROP"
  shows "typed_start t' eff"
  using assms
  by (auto simp: dld_device_get_prop_def prv_get_prop_def typed_start_def started_task_def formatted_def
      task_format_def answer_ready_def result_typed_def has_error_def set_cb_def set_error_def upd_async_def
      split: task_ut.splits option.splits if_splits)

lemma get_all_props_typed:
  assumes "dld_device_get_all_props d t = Some (t', eff)" and "started_task m t a" and "formatted t"
    and "task_type t = DLD_TASK_GET_ALL_PROPS"
  shows "typed_start t' eff"
  using assms
  by (auto simp: dld_device_get_all_props_def prv_get_props_def typed_start_def started_task_def formatted_def
      task_format_def answer_ready_def result_typed_def set_cb_def set_error_def upd_async_def
      split: task_ut.splits option.splits if_splits)

lemma build_icon_typed:
  assumes "prv_build_icon_result gl d t = Some t'" and "string_doc gl" and "formatted t"
    and "task_type t = DLD_TASK_GET_ICON"
  shows "formatted t'" and "result_typed t'" and "answer_ready t'" and "task_type t' = task_type t"
  using assms new_string_type [OF assms(2)]
  by (auto simp: prv_build_icon_result_def formatted_def task_format_def result_typed_def answer_ready_def reply_type_def)

lemma get_icon_typed:
  assumes "dld_device_get_icon gl msg_new d t = Some (d', t', eff)" and "started_task m t a" and "formatted t"
    and "task_type t = DLD_TASK_GET_ICON" and "string_doc gl"
  shows "typed_start t' eff"
proof (cases "icon_size d = 0")
  case True
  then show ?thesis
    using assms
    by (auto simp: dld_device_get_icon_def typed_start_def started_task_def Let_def g_cancellable_connect_def set_cb_def
        upd_async_def split: option.splits if_splits)
next
  case False
  with assms(1) obtain t2 where "prv_build_icon_result gl d (set_cb (Some (dev_ref d)) t) = Some t2"
    "t' = t2" "eff = [Idle_add]" by (auto simp: dld_device_get_icon_def Let_def)
  with build_icon_typed [OF this(1) assms(5)] assms(3,4) show ?thesis by (simp add: typed_start_def set_cb_def upd_async_def split: option.splits)
qed

lemma action_typed:
  assumes "device_action type d t = Some (t', eff)" and "started_task m t a" and "formatted t"
  shows "typed_start t' eff"
proof -
  from device_action_begins [OF assms(1)] obtain name args where
    "begin_action name args d t = Some (t', eff)" .
  then show ?thesis
    using assms(2) by (rule begin_actionE)
      (use assms(2,3) in \<open>simp add: typed_start_def started_task_def queues_message_def\<close>)
qed

lemma manager_typed:
  assumes "started_task m t a" and "formatted t"
  shows "dld_manager_get_prop ops st t = Some (t', eff) \<Longrightarrow> task_type t = DLD_TASK_MANAGER_GET_PROP \<Longrightarrow> typed_start t' eff"
    and "dld_manager_get_all_props ops st t = Some (t', eff) \<Longrightarrow> task_type t = DLD_TASK_MANAGER_GET_ALL_PROPS \<Longrightarrow>
      typed_start t' eff"
    and "dld_manager_set_prop ops st t = Some (st', t', eff) \<Longrightarrow> task_type t = DLD_TASK_MANAGER_SET_PROP \<Longrightarrow>
      typed_start t' eff"
proof -
  show "dld_manager_get_prop ops st t = Some (t', eff) \<Longrightarrow> task_type t = DLD_TASK_MANAGER_GET_PROP \<Longrightarrow> typed_start t' eff"
    using assms
    by (auto simp: dld_manager_get_prop_def typed_start_def started_task_def Let_def set_manager_cb_def upd_async_def
        formatted_def task_format_def answer_ready_def result_typed_def set_error_def split: task_ut.splits if_splits)
  show "dld_manager_get_all_props ops st t = Some (t', eff) \<Longrightarrow> task_type t = DLD_TASK_MANAGER_GET_ALL_PROPS \<Longrightarrow>
      typed_start t' eff"
    using assms
    by (auto simp: dld_manager_get_all_props_def typed_start_def started_task_def Let_def set_manager_cb_def upd_async_def
        formatted_def task_format_def answer_ready_def result_typed_def set_error_def split: task_ut.splits if_splits)
  show "typed_start t' eff" if "dld_manager_set_prop ops st t = Some (st', t', eff)" "task_type t = DLD_TASK_MANAGER_SET_PROP"
  proof -
    have fmt: "result_format t = None" using assms(2) that(2) by (simp add: formatted_def task_format_def action_format_def)
    have req: "same_request t t'" by (rule manager_request(3) [OF that(1)])
    have "\<not> queues_message eff \<and> replies eff = []"
      using that(1) by (auto simp: dld_manager_set_prop_def queues_message_def reply_of_def prv_set_prop_never_quit_def
          prv_set_prop_wl_enabled_def prv_set_prop_wl_entries_def prv_wl_notify_prop_def Let_def
          split: task_ut.splits if_splits prod.splits)
    with req fmt assms(2) show ?thesis
      by (simp add: typed_start_def same_request_formatted [OF req] answer_ready_def result_typed_def same_request_def)
  qed
qed
lemma client_task_started:
  "client_task gl m t \<Longrightarrow> \<not> synchronous t \<Longrightarrow> \<exists>a. started_task m (new_cancellable t) a"
proof (induction rule: client_task.induct)
  case (action_task type object params t)
  then show ?case using action_task_started(1) by blast
qed (auto dest: device_task_new
    simp: dld_task_get_version_new_def dld_task_get_devices_new_def dld_task_rescan_new_def)

lemma on_upnp_typed:
  assumes "on_upnp (on_checked_device f) t s = Some (s', t', eff)" and "started_task m t a" and "formatted t"
    and "\<And>d d' t' eff. f d t = Some (d', t', eff) \<Longrightarrow> typed_start t' eff"
  shows "typed_start t' eff"
proof -
  obtain upnp upnp' where "on_checked_device f upnp t = Some (upnp', t', eff)"
    using assms(1) by (auto simp: on_upnp_def split: upnp_pointer.splits)
  then show ?thesis
    using assms(2,3)
    by (auto simp: on_checked_device_def prv_get_and_check_device_def typed_start_def started_task_def
        dest!: assms(4) split: bind_splits option.splits)
qed

lemma process_task_typed:
  assumes "prv_process_task ops gl msg_new t s = Some (s', t', eff)" and "client_task gl m t"
    and async: "\<not> synchronous t" and doc: "string_doc gl"
  shows "typed_start t' eff"
proof -
  obtain a where st: "started_task m (new_cancellable t) a" using client_task_started assms(2) async by blast
  have fmt: "formatted (new_cancellable t)"
    using client_task_formatted [OF assms(2)] by (simp add: formatted_def new_cancellable_def)
  have keep: "typed_start t' eff" if "on_upnp (on_checked_device (keep_device g)) (new_cancellable t) s = Some (s', t', eff)"
    "\<And>d t' eff. g d (new_cancellable t) = Some (t', eff) \<Longrightarrow> typed_start t' eff" for g t' eff
    by (rule on_upnp_typed [OF that(1) st fmt]) (auto simp: keep_device_def dest: that(2))
  show ?thesis
  proof (cases "is_action (task_type t)")
    case True
    then have "on_upnp (upnp_action (task_type t)) (new_cancellable t) s = Some (s', t', eff)"
      using assms(1) async
      by (auto simp: prv_process_task_def prv_process_async_task_def is_action_def upnp_action_def [abs_def])
    then show ?thesis
      using True keep [of "device_action (task_type t)"] action_typed [OF _ st fmt]
      by (auto simp: upnp_action_eq on_upnp_def split: upnp_pointer.splits)
  next
    case other: False
    have upnp: "typed_start t' eff"
      if "on_upnp (on_checked_device (keep_device dld_device_get_prop)) (new_cancellable t) s = Some (s', t', eff) \<and> task_type t = DLD_TASK_GET_PROP \<or>
        on_upnp (on_checked_device (keep_device dld_device_get_all_props)) (new_cancellable t) s = Some (s', t', eff) \<and> task_type t = DLD_TASK_GET_ALL_PROPS \<or>
        on_upnp (on_checked_device (dld_device_get_icon gl msg_new)) (new_cancellable t) s = Some (s', t', eff) \<and> task_type t = DLD_TASK_GET_ICON"
      using that keep [OF _ get_prop_typed [OF _ st fmt]] keep [OF _ get_all_props_typed [OF _ st fmt]]
        on_upnp_typed [OF _ st fmt get_icon_typed [OF _ st fmt _ doc]] by auto
    have none: "typed_start (new_cancellable t) []"
      using st fmt by (simp add: typed_start_def started_task_def queues_message_def)
    show ?thesis
      using assms(1) async other upnp manager_typed [OF st fmt] none
      by (cases "task_type t")
        (auto simp: prv_process_task_def prv_process_async_task_def is_action_def upnp_op_defs [abs_def])
  qed
qed

subsection \<open>Running a task\<close>

definition run_typed :: "async_run \<Rightarrow> bool" where
  "run_typed r \<longleftrightarrow>
     formatted (run_async_task r) \<and> result_typed (run_async_task r) \<and>
     (0 < run_idles r \<and> invocation (run_async_task r) \<noteq> None \<longrightarrow> answer_ready (run_async_task r)) \<and>
     (run_message r \<longrightarrow> task_type (run_async_task r) = DLD_TASK_GET_ICON) \<and>
     list_all (reply_matches (result_format (run_async_task r))) (run_log r)"

lemma run_typed_start:
  assumes "typed_start t eff"
  shows "run_typed (start_run t eff)"
  using assms no_replies_match by (auto simp: run_typed_def start_run_def typed_start_def)

lemma end_callback_typed:
  assumes "end_callback outcome t = (t', eff)" and "formatted t" and "result_typed t" and "task_async t = Some a"
    and fmt: "task_format (task_type t) = action_format (task_type t)"
    and "case outcome of
         Inl msg \<Rightarrow> True
       | Inr None \<Rightarrow> fst (action_format (task_type t)) = None
       | Inr (Some v) \<Rightarrow>
           (\<exists>f. fst (action_format (task_type t)) = Some f \<and>
              (if snd (action_format (task_type t)) then take 2 f \<noteq> ''(@'' \<and> gv_type v = f
               else f = ''(@'' @ gv_type v @ '')''))"
  shows "result_typed t'" and "answer_ready t'"
proof -
  have f: "result_format t = fst (action_format (task_type t))" "multiple_retvals t = snd (action_format (task_type t))"
    using assms(2) fmt by (simp_all add: formatted_def) (metis fst_conv snd_conv)+
  show "result_typed t'" "answer_ready t'"
    using assms(1,3,4,6) f
    by (auto simp: end_callback_def result_typed_def answer_ready_def upd_async_def set_error_def reply_type_def
        g_cancellable_disconnect_def split: sum.splits option.splits)
qed

lemma callback_type:
  "result_callback gl parse content type = Some cb \<Longrightarrow> task_format type = action_format type"
  by (cases type) (simp_all add: result_callback_def task_format_def)

lemma run_typed_step:
  assumes inv: "run_inv m r" and typed: "run_typed r" and step: "async_step gl r r'" and doc: "string_doc gl"
  shows "run_typed r'"
proof -
  note req = async_step_request [OF step]
  have same: "formatted (run_async_task r')" "result_format (run_async_task r') = result_format (run_async_task r)"
    "task_type (run_async_task r') = task_type (run_async_task r)"
    using typed req same_request_formatted [OF req] by (simp_all add: run_typed_def same_request_def)
  obtain a where a: "task_async (run_async_task r) = Some a" using inv by (auto simp: run_inv_def)
  show ?thesis
    using step
  proof cases
    case (answer parse content cb x t' eff)
    obtain outcome where o: "end_callback outcome (run_async_task r) = (t', eff)"
      "case outcome of Inl msg \<Rightarrow> True
       | Inr None \<Rightarrow> fst (action_format (task_type (run_async_task r))) = None
       | Inr (Some v) \<Rightarrow> (\<exists>f. fst (action_format (task_type (run_async_task r))) = Some f \<and>
              (if snd (action_format (task_type (run_async_task r))) then take 2 f \<noteq> ''(@'' \<and> gv_type v = f
               else f = ''(@'' @ gv_type v @ '')''))"
      by (rule callback_ends [OF answer(3,4)])
    from end_callback_typed [OF o(1) _ _ a callback_type [OF answer(3)] o(2)] typed same answer(1)
      end_callback_frame(1) [OF o(1) a]
    show ?thesis by (simp add: run_typed_def)
  next
    case (downloaded status d d' t' eff)
    have icon: "task_type (run_async_task r) = DLD_TASK_GET_ICON" using typed downloaded(2) by (simp add: run_typed_def)
    have "result_typed t' \<and> answer_ready t'"
    proof (cases status)
      case (Soup_successful body)
      then obtain t1 where "prv_build_icon_result gl (d\<lparr>icon_size := length body, icon_bytes := body\<rparr>) (run_async_task r) = Some t1"
        "t' = upd_async g_cancellable_disconnect t1"
        using downloaded(4) by (auto simp: prv_get_icon_session_cb_def Let_def)
      with build_icon_typed [OF this(1) doc _ icon] typed show ?thesis by (simp add: run_typed_def)
    next
      case Soup_failed
      with downloaded(4) typed a show ?thesis by (auto simp: prv_get_icon_session_cb_def run_typed_def)
    qed (use downloaded(3) in simp)
    with typed same downloaded(1) session_cb_frame(1) [OF downloaded(4,3) a] show ?thesis
      by (simp add: run_typed_def)
  next
    case (cancel t' eff)
    have t: "\<not> synchronous (run_async_task r)" using inv by (simp add: run_inv_def)
    have "list_all (reply_matches fmt) (snd (dld_async_task_cancel a))" for fmt
      by (rule no_replies_match) (rule async_cancel_replies)
    moreover have "list_all (reply_matches fmt) (snd (dld_task_fail e t))" for fmt e t
      by (auto simp: dld_task_fail_def split: option.split)
    ultimately have "list_all (reply_matches fmt) eff" for fmt
      using cancel(2) a t by (auto simp: cancel_eq Let_def)
    moreover have "result_typed t'" using cancel(2) a t typed by (auto simp: cancel_eq Let_def run_typed_def)
    ultimately show ?thesis
      using typed same cancel(1) cancel_frame(1) [OF cancel(2) a t] by (simp add: run_typed_def)
  next
    case (idle t' eff)
    have "result_typed t'"
      using idle(3) typed
      by (auto simp: dld_async_task_complete_def run_typed_def dest!: async_complete_eq split: option.splits if_splits)
        (metis complete_frame fail_frame fst_conv result_typed_simps(2))+
    with idle(1,2) typed same async_complete_matches [OF idle(3)] async_complete_frame(1) [OF idle(3)] show ?thesis
      by (simp add: run_typed_def)
  next
    case proxy_destroyed
    with typed same show ?thesis by (auto simp: run_typed_def answer_ready_def upd_async_def)
  qed
qed

end
