(* ===== verification/System.thy ===== *)
theory System
  imports Reply_Types "HOL-Library.Multiset" "HOL-Library.Sublist"
begin

section \<open>All calls together\<close>

text \<open>
  The service with all the calls of its clients: those that wait in the queues, the asynchronous tasks
  that are running, and everything that was sent. The steps interleave the method calls, the task
  processor, the main loop and the network in any order. The result is an equation: the calls that
  were received are those that were answered, those that wait and those that are running.
\<close>

subsection \<open>Queues as multisets\<close>

definition waiting :: "'st dld_context \<Rightarrow> dld_task list" where
  "waiting s = concat (map snd (srv_queues s))"

text \<open>The tasks that disappear with their queues; the core library deletes them.\<close>

definition dropped_tasks :: "'st dld_context \<Rightarrow> 'st dld_context \<Rightarrow> dld_task list" where
  "dropped_tasks s s' =
     concat (map (\<lambda>((src, snk), ts). if queue_of s' src snk = [] then ts else []) (srv_queues s))"

definition shrinks :: "'st dld_context \<Rightarrow> 'st dld_context \<Rightarrow> bool" where
  "shrinks s s' \<longleftrightarrow>
     (\<forall>src snk. queue_of s' src snk = queue_of s src snk \<or> queue_of s' src snk = [])"

lemma mset_queues:
  assumes "distinct (map fst qs)" and "finite K" and "fst ` set qs \<subseteq> K" and "\<And>k. F k [] = {#}"
  shows "mset (concat (map (\<lambda>(k, ts). f k ts) qs)) =
     (\<Sum>k \<in> K. case map_of qs k of None \<Rightarrow> {#} | Some ts \<Rightarrow> mset (f k ts))"
  using assms(1-3)
proof (induction qs arbitrary: K)
  case (Cons q qs)
  obtain k ts where q: "q = (k, ts)" by (cases q)
  have k: "k \<in> K" "k \<notin> fst ` set qs" using Cons.prems by (auto simp: q)
  then have none: "map_of qs k = None" by (simp add: map_of_eq_None_iff)
  have "(\<Sum>k' \<in> K. case map_of (q # qs) k' of None \<Rightarrow> {#} | Some ts \<Rightarrow> mset (f k' ts)) =
      mset (f k ts) + (\<Sum>k' \<in> K - {k}. case map_of qs k' of None \<Rightarrow> {#} | Some ts \<Rightarrow> mset (f k' ts))"
    using Cons.prems(2) k(1) by (subst sum.remove [of _ k]) (auto simp: q intro!: sum.cong)
  also have "(\<Sum>k' \<in> K - {k}. case map_of qs k' of None \<Rightarrow> {#} | Some ts \<Rightarrow> mset (f k' ts)) =
      mset (concat (map (\<lambda>(k, ts). f k ts) qs))"
    using Cons k by (intro Cons.IH [symmetric]) (auto simp: q)
  finally show ?case by (simp add: q)
qed simp

lemma waiting_sum:
  assumes "distinct (map fst (srv_queues s))" and "finite K" and "fst ` set (srv_queues s) \<subseteq> K"
  shows "mset (waiting s) = (\<Sum>(src, snk) \<in> K. mset (queue_of s src snk))"
proof -
  have "waiting s = concat (map (\<lambda>(k, ts). ts) (srv_queues s))"
    by (simp add: waiting_def case_prod_beta' flip: snd_def)
  also have "mset \<dots> = (\<Sum>k \<in> K. case map_of (srv_queues s) k of None \<Rightarrow> {#} | Some ts \<Rightarrow> mset ts)"
    using mset_queues [OF assms, of "\<lambda>_ _. {#}" "\<lambda>_ ts. ts"] by simp
  finally show ?thesis by (auto simp: queue_of_def intro!: sum.cong split: option.split)
qed

lemma dropped_sum:
  assumes "distinct (map fst (srv_queues s))" and "finite K" and "fst ` set (srv_queues s) \<subseteq> K"
  shows "mset (dropped_tasks s s') =
     (\<Sum>(src, snk) \<in> K. if queue_of s' src snk = [] then mset (queue_of s src snk) else {#})"
proof -
  have "dropped_tasks s s' =
      concat (map (\<lambda>(k, ts). if queue_of s' (fst k) (snd k) = [] then ts else []) (srv_queues s))"
    by (simp add: dropped_tasks_def case_prod_beta')
  also have "mset \<dots> = (\<Sum>k \<in> K. case map_of (srv_queues s) k of None \<Rightarrow> {#}
      | Some ts \<Rightarrow> mset (if queue_of s' (fst k) (snd k) = [] then ts else []))"
    using mset_queues [OF assms, of "\<lambda>_ _. {#}" "\<lambda>k ts. if queue_of s' (fst k) (snd k) = [] then ts else []"] by simp
  finally show ?thesis by (auto simp: queue_of_def intro!: sum.cong split: option.split)
qed

text \<open>What is no longer waiting was dropped.\<close>

lemma waiting_shrinks:
  assumes "distinct (map fst (srv_queues s))" and "distinct (map fst (srv_queues s'))" and "shrinks s s'"
  shows "mset (waiting s) = mset (waiting s') + mset (dropped_tasks s s')"
proof -
  let ?K = "fst ` set (srv_queues s) \<union> fst ` set (srv_queues s')"
  have K: "finite ?K" "fst ` set (srv_queues s) \<subseteq> ?K" "fst ` set (srv_queues s') \<subseteq> ?K" by auto
  have pointwise: "mset (queue_of s src snk) =
      mset (queue_of s' src snk) + (if queue_of s' src snk = [] then mset (queue_of s src snk) else {#})" for src snk
    using assms(3) unfolding shrinks_def by (cases "queue_of s' src snk = []") (simp, metis add_0_right)
  have "(\<Sum>(src, snk) \<in> ?K. mset (queue_of s src snk)) = (\<Sum>k \<in> ?K. (case k of (src, snk) \<Rightarrow> mset (queue_of s' src snk)) +
      (case k of (src, snk) \<Rightarrow> if queue_of s' src snk = [] then mset (queue_of s src snk) else {#}))"
    by (rule sum.cong [OF refl]) (clarsimp simp only: prod.case, rule pointwise)
  then show ?thesis
    unfolding waiting_sum [OF assms(1) K(1,2)] waiting_sum [OF assms(2) K(1,3)] dropped_sum [OF assms(1) K(1,2)]
    by (simp only: sum.distrib)
qed

lemma waiting_added:
  assumes "distinct (map fst (srv_queues s))" and "distinct (map fst (srv_queues s'))"
    and "queue_of s' src snk = queue_of s src snk @ [t]"
    and "\<And>src' snk'. (src', snk') \<noteq> (src, snk) \<Longrightarrow> queue_of s' src' snk' = queue_of s src' snk'"
  shows "mset (waiting s') = add_mset t (mset (waiting s))" and "dropped_tasks s s' = []"
proof -
  let ?K = "insert (src, snk) (fst ` set (srv_queues s) \<union> fst ` set (srv_queues s'))"
  have K: "finite ?K" "fst ` set (srv_queues s) \<subseteq> ?K" "fst ` set (srv_queues s') \<subseteq> ?K" by auto
  have rest: "(\<Sum>(src, snk) \<in> ?K - {(src, snk)}. mset (queue_of s' src snk)) =
      (\<Sum>(src, snk) \<in> ?K - {(src, snk)}. mset (queue_of s src snk))"
    by (rule sum.cong [OF refl]) (clarsimp, metis assms(4) prod.inject)
  have split: "(\<Sum>k \<in> ?K. f k) = f (src, snk) + (\<Sum>k \<in> ?K - {(src, snk)}. f k)" for f :: "string \<times> string \<Rightarrow> dld_task multiset"
    by (rule sum.remove [OF K(1)]) simp
  show "mset (waiting s') = add_mset t (mset (waiting s))"
    unfolding waiting_sum [OF assms(1) K(1,2)] waiting_sum [OF assms(2) K(1,3)]
    by (simp only: split rest prod.case assms(3)) simp
  have "queue_of s src' snk' = []" if "queue_of s' src' snk' = []" for src' snk'
    using that assms(3) assms(4) [of src' snk'] by (cases "(src', snk') = (src, snk)") auto
  then have "mset (dropped_tasks s s') = {#}"
    unfolding dropped_sum [OF assms(1) K(1,2)] by (intro sum.neutral) (auto split: if_splits)
  then show "dropped_tasks s s' = []" by simp
qed

subsection \<open>States and steps\<close>

text \<open>
  The service, the asynchronous tasks that are running with the message that each belongs to, the calls
  received so far with the method that each names, and the log of all that was done for them.
\<close>

record 'st system =
  sys_service :: "'st dld_context"
  sys_runs :: "(msg_id \<times> async_run) list"
  sys_calls :: "(msg_id \<times> intro_method) list"
  sys_log :: "effect list"

fun delete_tasks :: "dld_task list \<Rightarrow> effect list option" where
  "delete_tasks [] = Some []"
| "delete_tasks (t # ts) =
     (case (prv_delete_task t, delete_tasks ts) of
        (Some (strs, eff), Some eff') \<Rightarrow> Some (eff @ eff')
      | _ \<Rightarrow> None)"

text \<open>
  A message has an identifier of its own. The steps of the service are those of \<open>service_reach\<close>; the
  core library deletes the tasks of a queue that is removed, a synchronous task once it has run, and an
  asynchronous task once it is completed.
  The core library runs the tasks of one queue one after the other; the steps do not rely on this, any
  task of a queue may be run at any time.
\<close>

inductive sys_step :: "'st settings_ops \<Rightarrow> glib \<Rightarrow> 'st system \<Rightarrow> 'st system \<Rightarrow> bool" for ops gl where
  call: "(iface, handler) \<in> set service_handlers \<Longrightarrow> md \<in> set (ii_methods iface) \<Longrightarrow>
     has_types (in_types md) params \<Longrightarrow> m \<notin> fst ` set (sys_calls c) \<Longrightarrow>
     handler ops gl sender object (im_name md) params m (sys_service c) = Some s' \<Longrightarrow>
     srv_calls s' = srv_calls (sys_service c) @ eff \<Longrightarrow>
     delete_tasks (dropped_tasks (sys_service c) s') = Some deff \<Longrightarrow>
     sys_step ops gl c (c\<lparr>sys_service := s', sys_calls := (m, md) # sys_calls c, sys_log := sys_log c @ eff @ deff\<rparr>)"
| client_lost: "name \<in> set (srv_clients (sys_service c)) \<Longrightarrow>
     s' = prv_lost_client ops name ((sys_service c)\<lparr>srv_clients := removeAll name (srv_clients (sys_service c))\<rparr>) \<Longrightarrow>
     delete_tasks (dropped_tasks (sys_service c) s') = Some deff \<Longrightarrow>
     sys_step ops gl c (c\<lparr>sys_service := s', sys_log := sys_log c @ deff\<rparr>)"
| run_sync: "map_of (srv_queues (sys_service c)) key = Some (ts1 @ t # ts2) \<Longrightarrow> synchronous t \<Longrightarrow>
     prv_process_task ops gl msg_new t (set_queue key (ts1 @ ts2) (sys_service c)) = Some (s', t', eff) \<Longrightarrow>
     prv_delete_task t' = Some (strs, deff) \<Longrightarrow>
     sys_step ops gl c (c\<lparr>sys_service := s', sys_log := sys_log c @ eff @ deff\<rparr>)"
| run_async: "map_of (srv_queues (sys_service c)) key = Some (ts1 @ t # ts2) \<Longrightarrow> \<not> synchronous t \<Longrightarrow>
     invocation t = Some m \<Longrightarrow>
     prv_process_task ops gl msg_new t (set_queue key (ts1 @ ts2) (sys_service c)) = Some (s', t', eff) \<Longrightarrow>
     sys_step ops gl c
       (c\<lparr>sys_service := s', sys_runs := (m, start_run t' eff) # sys_runs c, sys_log := sys_log c @ eff\<rparr>)"
| progress: "sys_runs c = rs1 @ (m, r) # rs2 \<Longrightarrow> async_step gl r r' \<Longrightarrow> run_log r' = run_log r @ eff \<Longrightarrow>
     sys_step ops gl c (c\<lparr>sys_runs := rs1 @ (m, r') # rs2, sys_log := sys_log c @ eff\<rparr>)"
| completed: "sys_runs c = rs1 @ (m, r) # rs2 \<Longrightarrow> 0 < run_done r \<Longrightarrow>
     prv_delete_task (run_async_task r) = Some (strs, deff) \<Longrightarrow>
     sys_step ops gl c (c\<lparr>sys_runs := rs1 @ rs2, sys_log := sys_log c @ deff\<rparr>)"
| cancelled: "s' = set_queue key [] (sys_service c) \<Longrightarrow>
     delete_tasks (dropped_tasks (sys_service c) s') = Some deff \<Longrightarrow>
     sys_step ops gl c (c\<lparr>sys_service := s', sys_log := sys_log c @ deff\<rparr>)"
| network: "srv_upnp (sys_service c) = Upnp_at upnp \<Longrightarrow> ev_possible gl e upnp \<Longrightarrow>
     upnp_step gl e upnp = Some upnp' \<Longrightarrow>
     s' = core_emit (drop (length (calls upnp)) (calls upnp')) ((sys_service c)\<lparr>srv_upnp := Upnp_at upnp'\<rparr>) \<Longrightarrow>
     delete_tasks (dropped_tasks (sys_service c) s') = Some deff \<Longrightarrow>
     sys_step ops gl c (c\<lparr>sys_service := s', sys_log := sys_log c @ deff\<rparr>)"

inductive sys_reach :: "'st settings_ops \<Rightarrow> glib \<Rightarrow> 'st system \<Rightarrow> bool" for ops gl where
  sys_started: "prv_control_point_start_service ops pub (prv_control_point_initialize connector settings) = (True, s) \<Longrightarrow>
     sys_reach ops gl \<lparr>sys_service = s, sys_runs = [], sys_calls = [], sys_log = []\<rparr>"
| sys_next: "sys_reach ops gl c \<Longrightarrow> sys_step ops gl c c' \<Longrightarrow> sys_reach ops gl c'"

text \<open>The service in such a system is one of \<open>Server_Life\<close>.\<close>

lemma sys_step_service: "sys_step ops gl c c' \<Longrightarrow> service_reach ops gl (sys_service c) \<Longrightarrow> service_reach ops gl (sys_service c')"
proof (induction rule: sys_step.induct)
  case (call iface handler md params m c sender object s' eff deff)
  then show ?case by (auto intro: service_reach.called)
next
  case (run_sync c key ts1 t ts2 msg_new s' t' eff strs deff)
  then show ?case by (auto intro: service_reach.task_run)
next
  case (run_async c key ts1 t ts2 m msg_new s' t' eff)
  then show ?case by (auto intro: service_reach.task_run)
qed (auto intro: service_reach.client_lost service_reach.queue_cancelled service_reach.registry_event)

lemma sys_reach_service: "sys_reach ops gl c \<Longrightarrow> service_reach ops gl (sys_service c)"
  by (induction rule: sys_reach.induct) (auto intro: service_reach.started sys_step_service)

subsection \<open>Invariant\<close>

definition task_id :: "dld_task \<Rightarrow> msg_id" where
  "task_id t = the (invocation t)"

definition pending_runs :: "(msg_id \<times> async_run) list \<Rightarrow> msg_id list" where
  "pending_runs runs = map fst (filter (\<lambda>(m, r). run_replies r = []) runs)"

lemma pending_runs_simps [simp]:
  "pending_runs [] = []"
  "pending_runs ((m, r) # runs) = (if run_replies r = [] then [m] else []) @ pending_runs runs"
  "pending_runs (runs1 @ runs2) = pending_runs runs1 @ pending_runs runs2"
  by (simp_all add: pending_runs_def)

text \<open>A task of a call, a run of a call, and a reply to a call, each as the call's method declares it.\<close>

definition called_task :: "glib \<Rightarrow> (msg_id \<times> intro_method) list \<Rightarrow> dld_task \<Rightarrow> bool" where
  "called_task gl called t \<longleftrightarrow> (\<exists>m md. client_task gl m t \<and> (m, md) \<in> set called \<and> declared_reply md t)"

definition called_run :: "(msg_id \<times> intro_method) list \<Rightarrow> msg_id \<times> async_run \<Rightarrow> bool" where
  "called_run called = (\<lambda>(m, r). run_inv m r \<and> run_typed r \<and> deletable (run_async_task r) \<and>
     (\<exists>md. (m, md) \<in> set called \<and> declared_reply md (run_async_task r)))"

definition reply_to_call :: "(msg_id \<times> intro_method) list \<Rightarrow> effect \<Rightarrow> bool" where
  "reply_to_call called e \<longleftrightarrow> (\<forall>m \<in> set (reply_of e). \<exists>md. (m, md) \<in> set called \<and> reply_fits md e)"

lemma called_mono:
  "called_task gl called t \<Longrightarrow> called_task gl (x # called) t"
  "called_run called run \<Longrightarrow> called_run (x # called) run"
  "reply_to_call called e \<Longrightarrow> reply_to_call (x # called) e"
  by (fastforce simp: called_task_def called_run_def reply_to_call_def)+

lemma replies_to_call:
  assumes "set (replies eff) \<subseteq> {m}" and "(m, md) \<in> set called" and "list_all (reply_fits md) eff"
  shows "list_all (reply_to_call called) eff"
  using assms(1,3)
proof (induction eff)
  case (Cons e eff)
  then show ?case using assms(2) by (auto simp: reply_to_call_def)
qed simp

lemma called_task_id: "called_task gl called t \<Longrightarrow> deletable t \<and> invocation t = Some (task_id t)"
  using client_task_deletable client_task_wf by (fastforce simp: called_task_def task_id_def)

lemma deletion_to_call:
  assumes "prv_delete_task t = Some (strs, eff)" and "invocation t = None \<or> invocation t = Some m"
    and "(m, md) \<in> set called"
  shows "list_all (reply_to_call called) eff"
proof -
  have "replies (dld_async_task_delete a) = []" for a by (simp add: dld_async_task_delete_def)
  then have "list_all (reply_fits md) (dld_async_task_delete a)" for a by (rule no_replies_fit)
  then have fits: "list_all (reply_fits md) eff"
    using assms(1) by (auto simp: prv_delete_task_def dld_task_delete_def prv_dld_task_delete_def split: option.splits if_splits)
  have "set (replies eff) \<subseteq> {m}"
    using delete_replies assms(1,2) by (fastforce simp: prv_delete_task_def)
  then show ?thesis using assms(3) fits by (rule replies_to_call)
qed

lemma delete_tasks_answer:
  assumes "\<And>t. t \<in> set ts \<Longrightarrow> called_task gl called t"
  shows "\<exists>deff. delete_tasks ts = Some deff \<and> replies deff = map task_id ts \<and> list_all (reply_to_call called) deff"
  using assms
proof (induction ts)
  case (Cons t ts)
  then obtain deff where IH: "delete_tasks ts = Some deff" "replies deff = map task_id ts"
    "list_all (reply_to_call called) deff" by auto
  have t: "called_task gl called t" using Cons.prems by simp
  note id = called_task_id [OF this]
  then obtain strs eff where d: "prv_delete_task t = Some (strs, eff)" using deletable_defined by blast
  have "replies eff = [task_id t]" using delete_replies d id by (fastforce simp: prv_delete_task_def)
  moreover obtain md where "(task_id t, md) \<in> set called"
    using t client_task_wf by (fastforce simp: called_task_def task_id_def)
  then have "list_all (reply_to_call called) eff" using deletion_to_call [OF d] id by blast
  ultimately show ?case using IH d by simp
qed simp

definition sys_inv :: "glib \<Rightarrow> 'st system \<Rightarrow> bool" where
  "sys_inv gl c \<longleftrightarrow>
     service_inv gl (sys_service c) \<and> distinct (map fst (sys_calls c)) \<and>
     list_all (called_task gl (sys_calls c)) (waiting (sys_service c)) \<and>
     list_all (called_run (sys_calls c)) (sys_runs c) \<and>
     list_all (reply_to_call (sys_calls c)) (sys_log c) \<and>
     mset (map fst (sys_calls c)) =
       mset (replies (sys_log c)) + mset (map task_id (waiting (sys_service c))) + mset (pending_runs (sys_runs c))"

lemma service_inv_distinct: "service_inv gl s \<Longrightarrow> distinct (map fst (srv_queues s))"
  by (simp add: service_inv_def queues_ok_def)

lemma dropped_waiting: "t \<in> set (dropped_tasks s s') \<Longrightarrow> t \<in> set (waiting s)"
  unfolding dropped_tasks_def waiting_def by (force split: if_split_asm)

lemma sys_inv_shrinks:
  assumes inv: "sys_inv gl c" and s': "service_inv gl s'" "shrinks (sys_service c) s'"
    and del: "delete_tasks (dropped_tasks (sys_service c) s') = Some deff"
  shows "sys_inv gl (c\<lparr>sys_service := s', sys_log := sys_log c @ deff\<rparr>)"
proof -
  let ?s = "sys_service c"
  have s: "service_inv gl ?s" using inv by (simp add: sys_inv_def)
  have eq: "mset (waiting ?s) = mset (waiting s') + mset (dropped_tasks ?s s')"
    by (rule waiting_shrinks [OF service_inv_distinct [OF s] service_inv_distinct [OF s'(1)] s'(2)])
  have called: "called_task gl (sys_calls c) t" if "t \<in> set (waiting ?s)" for t
    using inv that by (simp add: sys_inv_def list_all_iff)
  have sub: "t \<in> set (waiting ?s)" if "t \<in> set (waiting s')" for t
    using arg_cong [OF eq, of set_mset] that by auto
  have d: "replies deff = map task_id (dropped_tasks ?s s')" "list_all (reply_to_call (sys_calls c)) deff"
    using delete_tasks_answer [of "dropped_tasks ?s s'" gl "sys_calls c"] called dropped_waiting del by force+
  have "mset (map task_id (waiting ?s)) = mset (map task_id (waiting s')) + mset (replies deff)"
    using arg_cong [OF eq, of "image_mset task_id"] by (simp add: d(1))
  then show ?thesis
    using inv s'(1) d(2) called sub by (auto simp: sys_inv_def list_all_iff)
qed

lemma map_of_set_queue:
  "map_of (srv_queues (set_queue key ts s)) k = map_option (\<lambda>old. if k = key then ts else old) (map_of (srv_queues s) k)"
proof -
  have "map_of (map (\<lambda>(k, old). (k, if k = key then ts else old)) qs) k =
      map_option (\<lambda>old. if k = key then ts else old) (map_of qs k)" for qs :: "((string \<times> string) \<times> dld_task list) list"
    by (induction qs) auto
  then show ?thesis by (simp add: set_queue_def)
qed

lemma waiting_one:
  assumes "distinct (map fst (srv_queues s))" and "map_of (srv_queues s) key = Some (ts1 @ t # ts2)"
  shows "mset (waiting s) = add_mset t (mset (waiting (set_queue key (ts1 @ ts2) s)))"
proof -
  obtain src snk where key: "key = (src, snk)" by (cases key)
  let ?s = "set_queue key (ts1 @ ts2) s"
  have queue: "queue_of ?s src' snk' = (if (src', snk') = key then ts1 @ ts2 else queue_of s src' snk')" for src' snk'
    using assms(2) by (auto simp: queue_of_def map_of_set_queue key split: option.splits)
  let ?K = "insert key (fst ` set (srv_queues s))"
  have K: "finite ?K" "fst ` set (srv_queues s) \<subseteq> ?K" "fst ` set (srv_queues ?s) \<subseteq> ?K"
    by (auto simp: set_queue_def)
  have d: "distinct (map fst (srv_queues ?s))" using assms(1) by (simp add: set_queue_def case_prod_beta' comp_def)
  have split: "(\<Sum>k \<in> ?K. f k) = f key + (\<Sum>k \<in> ?K - {key}. f k)" for f :: "string \<times> string \<Rightarrow> dld_task multiset"
    by (rule sum.remove [OF K(1)]) simp
  have rest: "(\<Sum>(src, snk) \<in> ?K - {key}. mset (queue_of ?s src snk)) =
      (\<Sum>(src, snk) \<in> ?K - {key}. mset (queue_of s src snk))"
    by (rule sum.cong [OF refl]) (auto simp: queue)
  have "queue_of s src snk = ts1 @ t # ts2" using assms(2) by (simp add: queue_of_def key)
  then show ?thesis
    unfolding waiting_sum [OF assms(1) K(1,2)] waiting_sum [OF d K(1,3)] split rest
    by (simp add: key queue [unfolded key])
qed

lemma process_task_waiting: "prv_process_task ops gl msg_new t s = Some (s', t', eff) \<Longrightarrow> waiting s' = waiting s"
  by (drule process_task_clients) (simp add: waiting_def same_clients_def)

text \<open>The synchronous tasks.\<close>

lemma sync_run_matches:
  assumes "prv_process_task ops gl msg_new t s = Some (s', t', eff)" and "client_task gl m t" and "synchronous t"
    and "srv_upnp s = Upnp_at upnp" and "upnp_reach gl upnp"
  shows "list_all (reply_matches (result_format t)) eff"
  using assms(2)
proof cases
  case devices_task
  obtain paths where "dld_upnp_get_device_ids upnp = Some (GArray ''o'' (map GObjPath paths))"
    using device_ids_announced [OF assms(5)] by blast
  with devices_task assms(1,4) show ?thesis
    by (auto simp: prv_process_task_def prv_process_sync_task_def constructor_defs dld_task_complete_def
        g_variant_new_fmt_def reply_type_def)
next
  case version_task
  with assms(1) show ?thesis
    by (auto simp: prv_process_task_def prv_process_sync_task_def constructor_defs dld_task_complete_def
        g_variant_new_fmt_def reply_type_def)
next
  case rescan_task
  with assms(1,4) show ?thesis
    by (auto simp: prv_process_task_def prv_process_sync_task_def constructor_defs dld_task_complete_def)
qed (use assms(3) device_task_new action_task_started(1) in \<open>fastforce simp: started_task_def\<close>)+

text \<open>A call that is received.\<close>

lemma sys_inv_call:
  assumes inv: "sys_inv gl c" and h: "handled gl m sender md (sys_service c) s'" and s': "service_inv gl s'"
    and m: "m \<notin> fst ` set (sys_calls c)"
    and eff: "srv_calls s' = srv_calls (sys_service c) @ eff"
    and del: "delete_tasks (dropped_tasks (sys_service c) s') = Some deff"
  shows "sys_inv gl (c\<lparr>sys_service := s', sys_calls := (m, md) # sys_calls c, sys_log := sys_log c @ eff @ deff\<rparr>)"
proof -
  let ?s = "sys_service c" and ?called = "(m, md) # sys_calls c"
  have s: "service_inv gl ?s" using inv by (simp add: sys_inv_def)
  have mono: "list_all (called_task gl ?called) (waiting ?s)" "list_all (called_run ?called) (sys_runs c)"
    "list_all (reply_to_call ?called) (sys_log c)"
    using inv called_mono by (auto simp: sys_inv_def list_all_iff)
  from h eff consider
    "replies eff = [m]" "list_all (reply_fits md) eff" "shrinks ?s s'"
    | t sink where "replies eff = []" "client_task gl m t" "declared_reply md t"
      "queue_of s' sender sink = queue_of ?s sender sink @ [t]"
      "\<And>src snk. (src, snk) \<noteq> (sender, sink) \<Longrightarrow> queue_of s' src snk = queue_of ?s src snk"
    unfolding handled_def shrinks_def by auto
  then show ?thesis
  proof cases
    case 1
    have "list_all (reply_to_call ?called) eff"
      by (rule replies_to_call [where m = m and md = md]) (use 1 in simp_all)
    moreover have "sys_inv gl (c\<lparr>sys_service := s', sys_log := sys_log c @ deff\<rparr>)"
      by (rule sys_inv_shrinks [OF inv s' 1(3) del])
    ultimately show ?thesis
      using 1(1) m mono called_mono by (auto simp: sys_inv_def list_all_iff)
  next
    case (2 t sink)
    note w = waiting_added [OF service_inv_distinct [OF s] service_inv_distinct [OF s'] 2(4,5)]
    have "deff = []" using del w(2) by simp
    moreover have "list_all (reply_to_call ?called) eff"
      by (rule replies_to_call [where m = m and md = md]) (use 2(1) no_replies_fit in simp_all)
    moreover have "called_task gl ?called t" using 2(2,3) by (auto simp: called_task_def)
    moreover have "task_id t = m" using client_task_wf [OF 2(2)] by (simp add: task_id_def)
    moreover have "set (waiting s') = insert t (set (waiting ?s))" using arg_cong [OF w(1), of set_mset] by simp
    moreover have "image_mset task_id (mset (waiting s')) = add_mset (task_id t) (image_mset task_id (mset (waiting ?s)))"
      using w(1) by simp
    ultimately show ?thesis
      using inv s' 2(1) m mono by (auto simp: sys_inv_def list_all_iff)
  qed
qed

text \<open>A task that is run.\<close>

lemma sys_inv_run:
  assumes inv: "sys_inv gl c" and s': "service_inv gl s'"
    and q: "map_of (srv_queues (sys_service c)) key = Some (ts1 @ t # ts2)"
    and run: "prv_process_task ops gl msg_new t (set_queue key (ts1 @ ts2) (sys_service c)) = Some (s', t', eff)"
    and doc: "string_doc gl"
  obtains m md where "client_task gl m t" and "(m, md) \<in> set (sys_calls c)" and "declared_reply md t"
    and "declared_reply md t'" and "deletable t"
    and "mset (map task_id (waiting (sys_service c))) = add_mset m (mset (map task_id (waiting s')))"
    and "set (waiting s') \<subseteq> set (waiting (sys_service c))"
    and "list_all (reply_to_call (sys_calls c)) eff"
    and "if synchronous t then \<exists>r. eff = [Return_response m r, Task_completed]
         else run_inv m (start_run t' eff) \<and> run_typed (start_run t' eff) \<and> replies eff = []"
proof -
  let ?s = "sys_service c" and ?s1 = "set_queue key (ts1 @ ts2) (sys_service c)"
  have s: "service_inv gl ?s" using inv by (simp add: sys_inv_def)
  note head = waiting_one [OF service_inv_distinct [OF s] q, folded process_task_waiting [OF run]]
  have w: "waiting s' = waiting ?s1" by (rule process_task_waiting [OF run])
  have mset: "mset (waiting ?s) = add_mset t (mset (waiting s'))" using head w by simp
  have "set (waiting ?s) = insert t (set (waiting s'))" using arg_cong [OF mset, of set_mset] by simp
  then have t: "t \<in> set (waiting ?s)" and sub: "set (waiting s') \<subseteq> set (waiting ?s)" by auto
  then obtain m md where m: "client_task gl m t" "(m, md) \<in> set (sys_calls c)" "declared_reply md t"
    using inv by (auto simp: sys_inv_def list_all_iff called_task_def)
  obtain upnp where u: "srv_upnp ?s1 = Upnp_at upnp" "upnp_reach gl upnp"
    using s by (auto simp: service_inv_def set_queue_def)
  have runs: "if synchronous t then \<exists>r. eff = [Return_response m r, Task_completed]
      else async_reach gl m (start_run t' eff)"
    using task_ran [OF u m(1) run] run by (auto simp: task_runs_def)
  have req: "same_request t t'" by (rule process_task_request [OF run])
  have "task_id t = m" using client_task_wf [OF m(1)] by (simp add: task_id_def)
  then have ids: "mset (map task_id (waiting ?s)) = add_mset m (mset (map task_id (waiting s')))"
    using mset by simp
  have "declared_reply md t'" using m(3) req by (simp add: declared_reply_def same_request_def)
  show thesis
  proof (cases "synchronous t")
    case True
    then obtain r where r: "eff = [Return_response m r, Task_completed]" using runs by auto
    have "list_all (reply_fits md) eff"
      using sync_run_matches [OF run m(1) True u] matches_declared [OF m(3)] by (auto simp: list_all_iff)
    then have "list_all (reply_to_call (sys_calls c)) eff" by (intro replies_to_call [OF _ m(2)]) (simp_all add: r)
    then show thesis
      using that [OF m \<open>declared_reply md t'\<close> client_task_deletable [OF m(1)] ids sub] True r by simp
  next
    case False
    then have ri: "run_inv m (start_run t' eff)" using runs run_inv_reach by auto
    have typed: "typed_start t' eff" by (rule process_task_typed [OF run m(1) False doc])
    then have "replies eff = []" by (simp add: typed_start_def)
    moreover have "list_all (reply_to_call (sys_calls c)) eff"
      by (rule replies_to_call [OF _ m(2) no_replies_fit]) (use \<open>replies eff = []\<close> in simp_all)
    ultimately show thesis
      using that [OF m \<open>declared_reply md t'\<close> client_task_deletable [OF m(1)] ids sub] False ri run_typed_start [OF typed]
      by simp
  qed
qed

lemma shrinks_remove_client: "shrinks s (prv_remove_client ops name (s\<lparr>srv_clients := cs\<rparr>))"
  by (simp add: shrinks_def queue_of_remove_client) (simp add: queue_of_def)

lemma shrinks_set_queue: "shrinks s (set_queue key [] s)"
  by (auto simp: shrinks_def queue_of_def map_of_set_queue split: option.splits)

lemma shrinks_registry:
  assumes "distinct (map fst (srv_queues s))" and "list_all registry_call eff"
  shows "shrinks s (core_emit eff (s\<lparr>srv_upnp := u\<rparr>))"
proof -
  obtain P where P: "srv_queues (core_emit eff (s\<lparr>srv_upnp := u\<rparr>)) = filter P (srv_queues s)"
    using core_emit_registry(3) [OF assms(2), of "s\<lparr>srv_upnp := u\<rparr>"] by auto
  have "map_of (filter P qs) k = map_of qs k \<or> map_of (filter P qs) k = None"
    if "distinct (map fst qs)" for qs :: "((string \<times> string) \<times> dld_task list) list" and k
    using that by (induction qs) (auto simp: map_of_eq_None_iff)
  from this [OF assms(1)] show ?thesis unfolding shrinks_def queue_of_def P by (metis option.simps(4))
qed

lemma sys_inv_step:
  assumes inv: "sys_inv gl c" and reach: "service_reach ops gl (sys_service c)" and doc: "string_doc gl"
    and step: "sys_step ops gl c c'"
  shows "sys_inv gl c'"
proof -
  have s: "service_inv gl (sys_service c)" using inv by (simp add: sys_inv_def)
  have s': "service_inv gl (sys_service c')"
    by (rule reach_service_inv [OF sys_step_service [OF step reach]])
  show ?thesis
    using step
  proof cases
    case (call iface handler md params m sender object s' eff deff)
    show ?thesis
      unfolding call(1)
      by (rule sys_inv_call [OF inv service_call_handled [OF reach call(2,3,4,6)] _ call(5,7,8)])
        (use s' call(1) in simp)
  next
    case (client_lost name s1 deff)
    show ?thesis
      unfolding client_lost(1)
      by (rule sys_inv_shrinks [OF inv _ _ client_lost(4)])
        (use s' client_lost(1,3) shrinks_remove_client in \<open>simp_all add: prv_lost_client_def\<close>)
  next
    case (cancelled s1 key deff)
    show ?thesis
      unfolding cancelled(1)
      by (rule sys_inv_shrinks [OF inv _ _ cancelled(3)]) (use s' cancelled(1,2) shrinks_set_queue in simp_all)
  next
    case (network upnp e upnp' s1 deff)
    obtain eff where eff: "calls upnp' = calls upnp @ eff" "list_all registry_call eff"
      using grows_step [OF network(4)] by (auto simp: grows_def)
    show ?thesis
      unfolding network(1)
      by (rule sys_inv_shrinks [OF inv _ _ network(6)])
        (use s' network(1,5) shrinks_registry [OF service_inv_distinct [OF s] eff(2)] in \<open>simp_all add: eff(1)\<close>)
  next
    case (run_sync key ts1 t ts2 msg_new s1 t' eff strs deff)
    have s1: "service_inv gl s1" using s' run_sync(1) by simp
    obtain m md where t: "(m, md) \<in> set (sys_calls c)"
      "mset (map task_id (waiting (sys_service c))) = add_mset m (mset (map task_id (waiting s1)))"
      "set (waiting s1) \<subseteq> set (waiting (sys_service c))"
      "list_all (reply_to_call (sys_calls c)) eff" "\<exists>r. eff = [Return_response m r, Task_completed]"
      by (rule sys_inv_run [OF inv s1 run_sync(2,4) doc]) (use run_sync(3) in simp)
    have none: "invocation t' = None" using sync_run_answered [OF run_sync(4,3)] t(5) by auto
    have "replies deff = []" using delete_replies run_sync(5) none by (fastforce simp: prv_delete_task_def)
    moreover have "list_all (reply_to_call (sys_calls c)) deff"
      by (rule deletion_to_call [OF run_sync(5) _ t(1)]) (simp add: none)
    moreover have "replies eff = [m]" using t(5) by auto
    ultimately show ?thesis
      using inv s1 t(2,3,4) by (auto simp: run_sync(1) sys_inv_def list_all_iff)
  next
    case (run_async key ts1 t ts2 m' msg_new s1 t' eff)
    have s1: "service_inv gl s1" using s' run_async(1) by simp
    obtain m md where t: "client_task gl m t" "(m, md) \<in> set (sys_calls c)" "declared_reply md t'" "deletable t"
      "mset (map task_id (waiting (sys_service c))) = add_mset m (mset (map task_id (waiting s1)))"
      "set (waiting s1) \<subseteq> set (waiting (sys_service c))"
      "list_all (reply_to_call (sys_calls c)) eff"
      "run_inv m (start_run t' eff)" "run_typed (start_run t' eff)" "replies eff = []"
      by (rule sys_inv_run [OF inv s1 run_async(2,5) doc]) (use run_async(3) in simp)
    have m: "m' = m" using client_task_wf [OF t(1)] run_async(4) by simp
    have "deletable t'"
      using same_request_deletable [OF t(4) process_task_request [OF run_async(5)]] t(8)
      by (auto simp: run_inv_def start_run_def)
    then have "called_run (sys_calls c) (m, start_run t' eff)"
      using t(2,3,8,9) by (auto simp: called_run_def start_run_def)
    then show ?thesis
      using inv s1 t(5,6,7,10) by (auto simp: run_async(1) m sys_inv_def list_all_iff start_run_def)
  next
    case (progress rs1 m r rs2 r' eff)
    have run: "called_run (sys_calls c) (m, r)" using inv progress(2) by (simp add: sys_inv_def)
    then obtain md where r: "run_inv m r" "run_typed r" "deletable (run_async_task r)" "(m, md) \<in> set (sys_calls c)"
      "declared_reply md (run_async_task r)" by (auto simp: called_run_def)
    note r' = run_inv_step [OF r(1) progress(3)] run_typed_step [OF r(1,2) progress(3) doc]
    note req = async_step_request [OF progress(3)]
    have "deletable (run_async_task r')" using same_request_deletable [OF r(3) req] r'(1) by (auto simp: run_inv_def)
    moreover have md: "declared_reply md (run_async_task r')" using r(5) req by (simp add: declared_reply_def same_request_def)
    ultimately have run': "called_run (sys_calls c) (m, r')" using r' r(4) by (auto simp: called_run_def)
    have "list_all (reply_fits md) eff"
      using r'(2) progress(4) matches_declared [OF md] by (auto simp: run_typed_def list_all_iff)
    moreover have rep: "run_replies r' = run_replies r @ replies eff" by (simp add: progress(4))
    moreover have "set (run_replies r') \<subseteq> {m}" using r'(1) by (auto simp: run_inv_def split: if_splits)
    then have "set (replies eff) \<subseteq> {m}" unfolding rep by simp
    ultimately have "list_all (reply_to_call (sys_calls c)) eff" by (intro replies_to_call [OF _ r(4)])
    moreover have "mset (replies eff) + mset (if run_replies r' = [] then [m] else []) =
        mset (if run_replies r = [] then [m] else [])"
      using r(1) r'(1) rep by (auto simp: run_inv_def split: if_splits)
    ultimately show ?thesis
      using inv run' by (auto simp: progress(1) sys_inv_def progress(2))
  next
    case (completed rs1 m r rs2 strs deff)
    have run: "called_run (sys_calls c) (m, r)" using inv completed(2) by (simp add: sys_inv_def)
    then obtain md where r: "run_inv m r" "(m, md) \<in> set (sys_calls c)" by (auto simp: called_run_def)
    have none: "invocation (run_async_task r) = None" and rep: "run_replies r = [m]"
      using r(1) completed(3) by (auto simp: run_inv_def)
    have "replies deff = []" using delete_replies completed(4) none by (fastforce simp: prv_delete_task_def)
    moreover have "list_all (reply_to_call (sys_calls c)) deff"
      by (rule deletion_to_call [OF completed(4) _ r(2)]) (simp add: none)
    ultimately show ?thesis using inv rep by (auto simp: completed(1) sys_inv_def completed(2))
  qed
qed


lemma started_queues:
  "prv_control_point_start_service ops pub (prv_control_point_initialize connector settings) = (True, s) \<Longrightarrow> srv_queues s = []"
  by (auto simp: prv_control_point_start_service_def prv_control_point_initialize_def prv_white_list_init_def
      dld_manager_new_def core_step_def Let_def upt_rec DLD_MANAGER_INTERFACE_INFO_MAX_def
      split: if_splits option.splits)

lemma sys_inv_reach:
  assumes "sys_reach ops gl c" and "string_doc gl"
  shows "sys_inv gl c"
  using assms(1)
proof (induction rule: sys_reach.induct)
  case (sys_started pub connector settings s)
  have "srv_queues s = []" by (rule started_queues [OF sys_started])
  with service_inv_started [OF sys_started] show ?case by (simp add: sys_inv_def waiting_def)
next
  case (sys_next c c')
  then show ?case using sys_inv_step [OF _ sys_reach_service assms(2)] by blast
qed

text \<open>A scheduled completion can run: there is a value of the right type, an error, or nothing to send.\<close>

lemma idle_defined:
  assumes "run_inv m r" and "run_typed r" and "0 < run_idles r"
  shows "dld_async_task_complete (run_async_task r) \<noteq> None"
proof -
  let ?t = "run_async_task r"
  obtain a where a: "task_async ?t = Some a" "async_cb a" using assms(1) by (auto simp: run_inv_def)
  show ?thesis
  proof (cases "invocation ?t")
    case None
    then show ?thesis using answered_completes [OF a] by auto
  next
    case (Some m')
    then have "answer_ready ?t" "result_typed ?t" using assms(2,3) by (auto simp: run_typed_def)
    then show ?thesis
      using a Some
      by (auto simp: dld_async_task_complete_def prv_async_task_complete_def dld_task_complete_def answer_ready_def
          result_typed_def g_variant_new_fmt_def split: option.splits)
  qed
qed

subsection \<open>Winding down\<close>

text \<open>
  The steps that need neither a client nor the network: a queue is cancelled and its waiting tasks are
  deleted, a running task is cancelled or its idle handler completes it, a completed task is deleted.
\<close>

inductive wind_step :: "'st system \<Rightarrow> 'st system \<Rightarrow> bool" where
  wind_queue: "s' = set_queue key [] (sys_service c) \<Longrightarrow>
     delete_tasks (dropped_tasks (sys_service c) s') = Some deff \<Longrightarrow>
     wind_step c (c\<lparr>sys_service := s', sys_log := sys_log c @ deff\<rparr>)"
| wind_run: "sys_runs c = rs1 @ (m, r) # rs2 \<Longrightarrow> own_step r r' \<Longrightarrow> run_log r' = run_log r @ eff \<Longrightarrow>
     wind_step c (c\<lparr>sys_runs := rs1 @ (m, r') # rs2, sys_log := sys_log c @ eff\<rparr>)"
| wind_completed: "sys_runs c = rs1 @ (m, r) # rs2 \<Longrightarrow> 0 < run_done r \<Longrightarrow>
     prv_delete_task (run_async_task r) = Some (strs, deff) \<Longrightarrow>
     wind_step c (c\<lparr>sys_runs := rs1 @ rs2, sys_log := sys_log c @ deff\<rparr>)"

lemma wind_sys_step: "wind_step c c' \<Longrightarrow> sys_step ops gl c c'"
  by (erule wind_step.cases) (auto intro: cancelled progress completed own_async)

lemma wind_sys_steps: "wind_step\<^sup>*\<^sup>* c c' \<Longrightarrow> (sys_step ops gl)\<^sup>*\<^sup>* c c'"
  by (rule rtranclp_mono [THEN predicate2D]) (auto intro: wind_sys_step)

lemma step_log: "own_step r r' \<Longrightarrow> \<exists>eff. run_log r' = run_log r @ eff"
  by (induction rule: own_step.induct) auto

lemma progress_run:
  assumes "own_step\<^sup>*\<^sup>* r r'" and "sys_runs c = rs1 @ (m, r) # rs2"
  shows "\<exists>log. wind_step\<^sup>*\<^sup>* c (c\<lparr>sys_runs := rs1 @ (m, r') # rs2, sys_log := log\<rparr>)"
  using assms(1)
proof (induction rule: rtranclp_induct)
  case base
  have "c\<lparr>sys_runs := rs1 @ (m, r) # rs2, sys_log := sys_log c\<rparr> = c" using assms(2) by (cases c) simp
  then show ?case by (metis rtranclp.rtrancl_refl)
next
  case (step r1 r2)
  then obtain log where log: "wind_step\<^sup>*\<^sup>* c (c\<lparr>sys_runs := rs1 @ (m, r1) # rs2, sys_log := log\<rparr>)" by blast
  obtain eff where eff: "run_log r2 = run_log r1 @ eff" using step_log [OF step(2)] by blast
  have "wind_step (c\<lparr>sys_runs := rs1 @ (m, r1) # rs2, sys_log := log\<rparr>)
      (c\<lparr>sys_runs := rs1 @ (m, r2) # rs2, sys_log := log @ eff\<rparr>)"
    using wind_run [of "c\<lparr>sys_runs := rs1 @ (m, r1) # rs2, sys_log := log\<rparr>" rs1 m r1 rs2 r2 eff]
      step(2) eff by simp
  with log show ?case by (intro exI) (rule rtranclp.rtrancl_into_rtrancl)
qed

lemma runs_end:
  assumes "list_all (called_run called) (sys_runs c)"
  shows "\<exists>log. wind_step\<^sup>*\<^sup>* c (c\<lparr>sys_runs := [], sys_log := log\<rparr>)"
  using assms
proof (induction "sys_runs c" arbitrary: c)
  case Nil
  then have "c\<lparr>sys_runs := [], sys_log := sys_log c\<rparr> = c" by (cases c) simp
  then show ?case by (metis rtranclp.rtrancl_refl)
next
  case (Cons x rs)
  obtain m r where x: "x = (m, r)" by (cases x)
  have run: "run_inv m r" "deletable (run_async_task r)" and rest: "list_all (called_run called) rs"
    using Cons.prems Cons.hyps(2) [symmetric] by (auto simp: x called_run_def)
  obtain r' where r': "own_step\<^sup>*\<^sup>* r r'" "0 < run_done r'" using run_completes [OF run(1)] by blast
  obtain log where log: "wind_step\<^sup>*\<^sup>* c (c\<lparr>sys_runs := (m, r') # rs, sys_log := log\<rparr>)"
    using progress_run [OF r'(1), of c "[]" m rs] Cons.hyps(2) x by auto
  have inv': "deletable (run_async_task r') \<and> run_inv m r'"
    using r'(1)
  proof (induction rule: rtranclp_induct)
    case (step r1 r2)
    then have "run_inv m r2" using run_inv_step own_async by blast
    then show ?case
      using step same_request_deletable [OF _ async_step_request [OF own_async [OF step(2)]]] by (auto simp: run_inv_def)
  qed (simp add: run)
  then obtain strs deff where d: "prv_delete_task (run_async_task r') = Some (strs, deff)"
    using deletable_defined by blast
  let ?c = "c\<lparr>sys_runs := rs, sys_log := log @ deff\<rparr>"
  have "wind_step (c\<lparr>sys_runs := (m, r') # rs, sys_log := log\<rparr>) ?c"
    using wind_completed [of "c\<lparr>sys_runs := (m, r') # rs, sys_log := log\<rparr>" "[]" m r' rs strs deff] r'(2) d
    by simp
  moreover obtain log' where "wind_step\<^sup>*\<^sup>* ?c (?c\<lparr>sys_runs := [], sys_log := log'\<rparr>)"
    using Cons.hyps(1) [of ?c] rest by auto
  ultimately have "wind_step\<^sup>*\<^sup>* (c\<lparr>sys_runs := (m, r') # rs, sys_log := log\<rparr>) (c\<lparr>sys_runs := [], sys_log := log'\<rparr>)"
    by (simp add: converse_rtranclp_into_rtranclp)
  with log show ?case by (intro exI) (rule rtranclp_trans)
qed

text \<open>The queues can be cancelled one by one.\<close>

lemma sys_reach_steps: "(sys_step ops gl)\<^sup>*\<^sup>* c c' \<Longrightarrow> sys_reach ops gl c \<Longrightarrow> sys_reach ops gl c'"
  by (induction rule: rtranclp_induct) (auto intro: sys_next)

lemma queues_cancelled:
  assumes "sys_reach ops gl c" and "string_doc gl"
  shows "\<exists>c'. wind_step\<^sup>*\<^sup>* c c' \<and> sys_calls c' = sys_calls c \<and>
     fst ` set (srv_queues (sys_service c')) = fst ` set (srv_queues (sys_service c)) \<and>
     (\<forall>src snk. queue_of (sys_service c') src snk =
        (if (src, snk) \<in> set keys then [] else queue_of (sys_service c) src snk))"
proof (induction keys)
  case Nil
  show ?case by (intro exI [of _ c]) simp
next
  case (Cons key keys)
  then obtain c1 where c1: "wind_step\<^sup>*\<^sup>* c c1" "sys_calls c1 = sys_calls c"
    "fst ` set (srv_queues (sys_service c1)) = fst ` set (srv_queues (sys_service c))"
    "\<And>src snk. queue_of (sys_service c1) src snk =
        (if (src, snk) \<in> set keys then [] else queue_of (sys_service c) src snk)" by blast
  have inv: "sys_inv gl c1" by (rule sys_inv_reach [OF sys_reach_steps [OF wind_sys_steps [OF c1(1)] assms(1)] assms(2)])
  let ?s = "set_queue key [] (sys_service c1)"
  have "called_task gl (sys_calls c1) t" if "t \<in> set (dropped_tasks (sys_service c1) ?s)" for t
    using inv dropped_waiting [OF that] by (simp add: sys_inv_def list_all_iff)
  then obtain deff where d: "delete_tasks (dropped_tasks (sys_service c1) ?s) = Some deff"
    using delete_tasks_answer by blast
  have "queue_of ?s src snk = (if (src, snk) = key then [] else queue_of (sys_service c1) src snk)" for src snk
    by (auto simp: queue_of_def map_of_set_queue split: option.splits)
  moreover have "fst ` set (srv_queues ?s) = fst ` set (srv_queues (sys_service c1))"
    by (auto simp: set_queue_def image_iff split: prod.splits) force+
  moreover note wind_queue [OF refl d]
  ultimately show ?case
    using c1 by (intro exI [of _ "c1\<lparr>sys_service := ?s, sys_log := sys_log c1 @ deff\<rparr>"])
      (auto intro: rtranclp.rtrancl_into_rtrancl)
qed

end
