(* ===== verification/System_Props.thy ===== *)
theory System_Props
  imports System
begin

section \<open>What holds of all calls together\<close>

text \<open>
  The properties of the systems of \<open>System\<close>, and three small systems in which they are used: a client has
  called \<open>GetVersion\<close>, has been answered, or reads a property of the manager.
\<close>

subsection \<open>Properties\<close>

text \<open>C2: No call is lost and none is answered twice. However the calls of all clients, the task
  processor, the main loop, cancellations, the loss of clients and the events of the network interleave,
  the calls received so far are, each counted once, those that have been answered, those whose task
  waits in a queue, and those whose task is running and not yet answered.\<close>

theorem no_call_lost:
  assumes "sys_reach ops gl c" and "string_doc gl"
  shows "mset (map fst (sys_calls c)) =
       mset (replies (sys_log c)) + mset (map task_id (waiting (sys_service c))) + mset (pending_runs (sys_runs c)) \<and>
     distinct (replies (sys_log c) @ map task_id (waiting (sys_service c)) @ pending_runs (sys_runs c))"
proof -
  have inv: "distinct (map fst (sys_calls c))" "mset (map fst (sys_calls c)) =
      mset (replies (sys_log c) @ map task_id (waiting (sys_service c)) @ pending_runs (sys_runs c))"
    using sys_inv_reach [OF assms] by (simp_all add: sys_inv_def)
  then show ?thesis using mset_eq_imp_distinct_iff [OF inv(2)] by simp
qed

text \<open>The system right after its start, and after a client called \<open>GetVersion\<close>.\<close>

lemma string_doc_ref: "string_doc glib_ref"
  by (simp add: string_doc_def)

definition sample_system :: "(bool \<times> bool \<times> gvariant option) system" where
  "sample_system = \<lparr>sys_service = sample_service, sys_runs = [], sys_calls = [], sys_log = []\<rparr>"

definition get_version :: intro_method where
  "get_version = \<lparr>im_name = DLD_INTERFACE_GET_VERSION, im_in = [], im_out = [(''s'', ''Version'')]\<rparr>"

definition sample_system_called :: "(bool \<times> bool \<times> gvariant option) system" where
  "sample_system_called = \<lparr>sys_service = sample_called, sys_runs = [], sys_calls = [(4, get_version)],
     sys_log = drop (length (srv_calls sample_service)) (srv_calls sample_called)\<rparr>"

lemma sample_system_reach: "sys_reach memory_settings gl sample_system"
proof -
  have "fst (prv_control_point_start_service memory_settings (\<lambda>i. of_nat i + 1)
      (prv_control_point_initialize (\<lambda>name clients. name \<notin> set clients) (False, False, None)))"
    by (simp add: prv_control_point_start_service_def Let_def DLD_MANAGER_INTERFACE_INFO_MAX_def
        prv_control_point_initialize_def del: core_emit.simps)
  then show ?thesis
    unfolding sample_system_def sample_service_def by (intro sys_started) (simp add: prod_eq_iff)
qed

lemma sample_service_queues: "srv_queues sample_service = []"
  by (simp add: sample_service_def prv_control_point_start_service_def
      prv_white_list_init_def prv_control_point_initialize_def core_step_def dld_manager_new_def Let_def upt_rec
      DLD_MANAGER_INTERFACE_INFO_MAX_def split: option.split)

lemma sample_called_queues: "srv_queues sample_called = [(('':1.5'', DLD_DIAGNOSTICS_SINK), [dld_task_get_version_new 4])]"
  by (simp add: sample_called_def add_task_eq sample_service_queues)

lemma sample_system_called_reach: "sys_reach memory_settings gl sample_system_called"
proof -
  have h: "(manager_interface, g_root_vtables ! 0) \<in> set service_handlers"
    by (simp add: service_handlers_def g_root_introspection_def g_root_vtables_def)
  have md: "get_version \<in> set (ii_methods manager_interface)" by (simp add: manager_interface_def get_version_def)
  have ty: "has_types (in_types get_version) (GTuple [])" by (simp add: get_version_def in_types_def has_types_cases)
  have c: "(g_root_vtables ! 0) memory_settings gl '':1.5'' ''/'' (im_name get_version) (GTuple []) 4
      (sys_service sample_system) = Some sample_called"
    by (simp add: g_root_vtables_def prv_manager_root_method_call_def method_name_defs sample_called_def
        get_version_def sample_system_def)
  have e: "srv_calls sample_called = srv_calls (sys_service sample_system) @ sys_log sample_system_called"
    by (simp add: sample_system_called_def sample_called_def add_task_eq sample_system_def)
  have d: "delete_tasks (dropped_tasks (sys_service sample_system) sample_called) = Some []"
    by (simp add: sample_system_def dropped_tasks_def sample_service_queues)
  have "sys_step memory_settings gl sample_system (sample_system\<lparr>sys_service := sample_called,
      sys_calls := (4, get_version) # sys_calls sample_system,
      sys_log := sys_log sample_system @ sys_log sample_system_called @ []\<rparr>)"
    by (rule call [OF h md ty _ c e d]) (simp_all add: sample_system_def get_version_def method_name_defs)
  from sys_next [OF sample_system_reach this] show ?thesis
    by (simp add: sample_system_def sample_system_called_def)
qed

theorem no_call_lost_witness:
  "map fst (sys_calls sample_system_called) = [4] \<and> waiting (sys_service sample_system_called) = [dld_task_get_version_new 4] \<and>
   replies (sys_log sample_system_called) = []"
proof -
  have w: "waiting (sys_service sample_system_called) = [dld_task_get_version_new 4]"
    by (simp add: waiting_def sample_system_called_def sample_called_queues)
  have "task_id (dld_task_get_version_new 4) = 4" by (simp add: task_id_def sync_task_fields)
  with no_call_lost [OF sample_system_called_reach string_doc_ref] w show ?thesis
    by (simp add: sample_system_called_def)
qed

text \<open>C3: Every reply has the declared type: whatever happens, a response that was sent belongs to a call
  that was received, and its value has the type that the introspection document declares for the
  results of the method called - no value if the method declares none.\<close>

theorem replies_have_declared_type:
  assumes "sys_reach ops gl c" and "string_doc gl" and "Return_response m value \<in> set (sys_log c)"
  shows "\<exists>!md. (m, md) \<in> set (sys_calls c) \<and>
     (case value of None \<Rightarrow> im_out md = [] | Some v \<Rightarrow> gv_type v = out_signature md)"
proof -
  have inv: "distinct (map fst (sys_calls c))" "list_all (reply_to_call (sys_calls c)) (sys_log c)"
    using sys_inv_reach [OF assms(1,2)] by (simp_all add: sys_inv_def)
  then obtain md where md: "(m, md) \<in> set (sys_calls c)" "reply_fits md (Return_response m value)"
    using assms(3) by (force simp: list_all_iff reply_to_call_def)
  have "md' = md" if "(m, md') \<in> set (sys_calls c)" for md'
    by (rule eq_key_imp_eq_value [OF inv(1) that md(1)])
  then show ?thesis
  proof (intro ex1I [of _ md])
    show "(m, md) \<in> set (sys_calls c) \<and>
        (case value of None \<Rightarrow> im_out md = [] | Some v \<Rightarrow> gv_type v = out_signature md)"
      using md by (cases "value") simp_all
  qed blast
qed

text \<open>The same system once the task has run.\<close>

lemma sample_system_answered:
  "\<exists>c. sys_reach memory_settings glib_ref c \<and> sys_calls c = [(4, get_version)] \<and>
     Return_response 4 (Some (GTuple [GString VERSION])) \<in> set (sys_log c)"
proof -
  let ?t = "dld_task_get_version_new 4" and ?key = "('':1.5'', DLD_DIAGNOSTICS_SINK)"
  let ?s = "set_queue ?key [] sample_called"
  let ?eff = "[Return_response 4 (Some (GTuple [GString VERSION])), Task_completed]"
  obtain t' strs deff where run: "prv_process_task memory_settings glib_ref (\<lambda>_. True) ?t ?s = Some (core_emit ?eff ?s, t', ?eff)"
    and del: "prv_delete_task t' = Some (strs, deff)"
    by (simp add: prv_process_task_def prv_process_sync_task_def constructor_defs dld_task_complete_def
        g_variant_new_fmt_def prv_delete_task_def dld_task_delete_def prv_dld_task_delete_def freed_strings_def
        del: core_emit.simps)
  have sync: "synchronous ?t" by (simp add: constructor_defs)
  have q: "map_of (srv_queues sample_called) ?key = Some [?t]" by (simp add: sample_called_queues)
  let ?c = "sample_system_called\<lparr>sys_service := core_emit ?eff ?s, sys_log := sys_log sample_system_called @ ?eff @ deff\<rparr>"
  have "sys_step memory_settings glib_ref sample_system_called ?c"
    by (rule run_sync [where ?ts1.0 = "[]" and ?ts2.0 = "[]", OF _ sync _ del])
      (use q run in \<open>simp_all add: sample_system_called_def del: core_emit.simps\<close>)
  from sys_next [OF sample_system_called_reach this] show ?thesis
    by (intro exI [of _ ?c]) (simp add: sample_system_called_def del: core_emit.simps)
qed

theorem replies_have_declared_type_witness:
  "\<exists>c. sys_reach memory_settings glib_ref c \<and> sys_calls c = [(4, get_version)] \<and>
     Return_response 4 (Some (GTuple [GString VERSION])) \<in> set (sys_log c) \<and>
     gv_type (GTuple [GString VERSION]) = out_signature get_version"
proof -
  obtain c where c: "sys_reach memory_settings glib_ref c" "sys_calls c = [(4, get_version)]"
    "Return_response 4 (Some (GTuple [GString VERSION])) \<in> set (sys_log c)"
    using sample_system_answered by blast
  from replies_have_declared_type [OF c(1) string_doc_ref c(3)] c show ?thesis by (intro exI [of _ c]) auto
qed

text \<open>C4: The service can always wind down on its own. From every state of the system a sequence of steps
  of which none is an answer of a device, a download, an event of the network, a call or the loss of a
  client - each cancels a queue and deletes its waiting tasks, cancels a running task, completes it by
  its idle handler, or deletes a completed one - leads to a state in which no task waits or runs and
  each of the calls received has been answered exactly once. These steps are steps of the system.\<close>

theorem service_winds_down:
  assumes "sys_reach ops gl c" and "string_doc gl"
  shows "\<exists>c'. wind_step\<^sup>*\<^sup>* c c' \<and> (sys_step ops gl)\<^sup>*\<^sup>* c c' \<and> sys_calls c' = sys_calls c \<and> sys_runs c' = [] \<and>
     waiting (sys_service c') = [] \<and> mset (replies (sys_log c')) = mset (map fst (sys_calls c))"
proof -
  obtain keys where keys: "set keys = fst ` set (srv_queues (sys_service c))"
    using finite_list [of "fst ` set (srv_queues (sys_service c))"] by auto
  obtain c1 where c1: "wind_step\<^sup>*\<^sup>* c c1" "sys_calls c1 = sys_calls c"
    "fst ` set (srv_queues (sys_service c1)) = set keys"
    "\<And>src snk. (src, snk) \<in> set keys \<Longrightarrow> queue_of (sys_service c1) src snk = []"
    using queues_cancelled [OF assms, of keys] keys by auto
  have reach1: "sys_reach ops gl c1" by (rule sys_reach_steps [OF wind_sys_steps [OF c1(1)] assms(1)])
  have inv1: "sys_inv gl c1" by (rule sys_inv_reach [OF reach1 assms(2)])
  obtain log where log: "wind_step\<^sup>*\<^sup>* c1 (c1\<lparr>sys_runs := [], sys_log := log\<rparr>)"
    using runs_end [of "sys_calls c1" c1] inv1 by (auto simp: sys_inv_def)
  let ?c = "c1\<lparr>sys_runs := [], sys_log := log\<rparr>"
  have "mset (waiting (sys_service c1)) = (\<Sum>(src, snk) \<in> set keys. mset (queue_of (sys_service c1) src snk))"
    by (rule waiting_sum) (use inv1 c1(3) in \<open>auto simp: sys_inv_def service_inv_distinct\<close>)
  also have "\<dots> = {#}" by (rule sum.neutral) (auto simp: c1(4))
  finally have none: "waiting (sys_service c1) = []" by simp
  have wind: "wind_step\<^sup>*\<^sup>* c ?c" using c1(1) log by (rule rtranclp_trans)
  have steps: "(sys_step ops gl)\<^sup>*\<^sup>* c ?c" by (rule wind_sys_steps [OF wind])
  have "sys_inv gl ?c" by (rule sys_inv_reach [OF sys_reach_steps [OF steps assms(1)] assms(2)])
  then have "mset (replies (sys_log ?c)) = mset (map fst (sys_calls c))" by (simp add: sys_inv_def none c1(2))
  with wind steps show ?thesis by (intro exI [of _ ?c]) (simp add: none c1(2))
qed

theorem service_winds_down_witness:
  "\<exists>c'. wind_step\<^sup>*\<^sup>* sample_system_called c' \<and> replies (sys_log c') = [4]"
  using service_winds_down [OF sample_system_called_reach string_doc_ref] by (auto simp: sample_system_called_def)

text \<open>C10: The completion, the cancellation and the deletion of a call are always defined: in every state of
  the system, an idle handler that is scheduled for a running task can complete it, a running task can
  be cancelled and deleted, and every task that waits can be deleted.\<close>

theorem scheduled_work_runs:
  assumes "sys_reach ops gl c" and "string_doc gl"
  shows "(\<forall>(m, r) \<in> set (sys_runs c).
       (0 < run_idles r \<longrightarrow> dld_async_task_complete (run_async_task r) \<noteq> None) \<and>
       prv_cancel_task (run_async_task r) \<noteq> None \<and> prv_delete_task (run_async_task r) \<noteq> None) \<and>
     delete_tasks (waiting (sys_service c)) \<noteq> None"
proof -
  have inv: "list_all (called_run (sys_calls c)) (sys_runs c)" "list_all (called_task gl (sys_calls c)) (waiting (sys_service c))"
    using sys_inv_reach [OF assms] by (simp_all add: sys_inv_def)
  have run: "(0 < run_idles r \<longrightarrow> dld_async_task_complete (run_async_task r) \<noteq> None) \<and>
      prv_cancel_task (run_async_task r) \<noteq> None \<and> prv_delete_task (run_async_task r) \<noteq> None"
    if "(m, r) \<in> set (sys_runs c)" for m r
  proof -
    have r: "run_inv m r" "run_typed r" "deletable (run_async_task r)"
      using inv(1) that by (auto simp: list_all_iff called_run_def)
    have "prv_cancel_task (run_async_task r) \<noteq> None"
      using r(1) by (auto simp: run_inv_def prv_cancel_task_def cancel_eq Let_def)
    with idle_defined [OF r(1,2)] deletable_defined [OF r(3)] show ?thesis by auto
  qed
  have "delete_tasks (waiting (sys_service c)) \<noteq> None"
    using delete_tasks_answer [of "waiting (sys_service c)" gl "sys_calls c"] inv(2) by (auto simp: list_all_iff)
  with run show ?thesis by auto
qed

text \<open>The system while the task of \<open>Get\<close> for the property \<open>NeverQuit\<close> is running.\<close>

definition sample_get_prop :: dld_task where
  "sample_get_prop = the (dld_task_manager_get_prop_new glib_ref 5 ''/''
     (GTuple [GString '''', GString DLD_INTERFACE_PROP_NEVER_QUIT]))"

definition sample_got :: "(bool \<times> bool \<times> gvariant option) dld_context" where
  "sample_got = prv_add_task sample_get_prop '':1.5'' (the (task_path sample_get_prop)) sample_service"

lemma sample_system_running:
  "\<exists>c r. sys_reach memory_settings glib_ref c \<and> sys_runs c = [(5, r)] \<and> run_idles r = 1"
proof -
  let ?p = "GTuple [GString '''', GString DLD_INTERFACE_PROP_NEVER_QUIT]" and ?t = sample_get_prop
  let ?md = "\<lparr>im_name = DLD_INTERFACE_GET, im_in = [(''s'', ''interface_name''), (''s'', ''property_name'')],
      im_out = [(''v'', ''value'')]\<rparr>"
  have new: "dld_task_manager_get_prop_new glib_ref 5 ''/'' ?p = Some ?t"
    by (simp add: sample_get_prop_def dld_task_manager_get_prop_new_def)
  have t: "invocation ?t = Some 5" "task_type ?t = DLD_TASK_MANAGER_GET_PROP" "\<not> synchronous ?t"
    by (simp_all add: sample_get_prop_def constructor_defs)
  have h: "(manager_properties_interface, g_root_vtables ! 1) \<in> set service_handlers"
    by (simp add: service_handlers_def g_root_introspection_def g_root_vtables_def)
  have md: "?md \<in> set (ii_methods manager_properties_interface)" by (simp add: manager_properties_interface_def)
  have ty: "has_types (in_types ?md) ?p" by (simp add: in_types_def has_types_cases)
  let ?key = "('':1.5'', the (task_path ?t))"
  let ?log = "drop (length (srv_calls sample_service)) (srv_calls sample_got)"
  let ?c1 = "sample_system\<lparr>sys_service := sample_got, sys_calls := (5, ?md) # sys_calls sample_system,
      sys_log := sys_log sample_system @ ?log @ []\<rparr>"
  have "(g_root_vtables ! 1) memory_settings glib_ref '':1.5'' ''/'' (im_name ?md) ?p 5 (sys_service sample_system) = Some sample_got"
    using new by (simp add: g_root_vtables_def prv_manager_props_method_call_def method_name_defs name_defs sample_got_def
        sample_system_def)
  moreover have "srv_calls sample_got = srv_calls (sys_service sample_system) @ ?log"
    by (simp add: sample_got_def add_task_eq sample_system_def)
  moreover have "delete_tasks (dropped_tasks (sys_service sample_system) sample_got) = Some []"
    by (simp add: sample_system_def dropped_tasks_def sample_service_queues)
  ultimately have "sys_step memory_settings glib_ref sample_system ?c1"
    by (intro call [OF h md ty]) (simp_all add: sample_system_def method_name_defs name_defs)
  then have reach1: "sys_reach memory_settings glib_ref ?c1" by (rule sys_next [OF sample_system_reach])
  have q: "map_of (srv_queues sample_got) ?key = Some [?t]"
    by (simp add: sample_got_def add_task_eq sample_service_queues)
  obtain t' where g: "dld_manager_get_prop memory_settings (srv_settings sample_got) (new_cancellable ?t) = Some (t', [Idle_add])"
    by (simp add: sample_get_prop_def dld_manager_get_prop_def constructor_defs new_cancellable_def Let_def)
  let ?s1 = "set_queue ?key [] sample_got"
  have run: "prv_process_task memory_settings glib_ref (\<lambda>_. True) ?t ?s1 = Some (core_emit [Idle_add] ?s1, t', [Idle_add])"
    using g by (simp add: prv_process_task_def prv_process_async_task_def t(2,3) set_queue_def del: core_emit.simps)
  let ?c2 = "?c1\<lparr>sys_service := core_emit [Idle_add] ?s1, sys_runs := (5, start_run t' [Idle_add]) # sys_runs ?c1,
      sys_log := sys_log ?c1 @ [Idle_add]\<rparr>"
  have "sys_step memory_settings glib_ref ?c1 ?c2"
    by (rule run_async [where key = ?key and ?ts1.0 = "[]" and ?ts2.0 = "[]", OF _ t(3,1)])
      (use q run in \<open>simp_all del: core_emit.simps\<close>)
  from sys_next [OF reach1 this] show ?thesis
    by (intro exI [of _ ?c2] exI [of _ "start_run t' [Idle_add]"])
      (simp add: start_run_def sample_system_def del: core_emit.simps)
qed

theorem scheduled_work_runs_witness:
  "\<exists>c r. sys_reach memory_settings glib_ref c \<and> sys_runs c = [(5, r)] \<and> dld_async_task_complete (run_async_task r) \<noteq> None"
proof -
  obtain c r where c: "sys_reach memory_settings glib_ref c" "sys_runs c = [(5, r)]" "run_idles r = 1"
    using sample_system_running by blast
  from scheduled_work_runs [OF c(1) string_doc_ref] c show ?thesis by (intro exI [of _ c] exI [of _ r]) simp
qed

end
