(* ===== verification/Icon_Cache.thy ===== *)
theory Icon_Cache
  imports Upnp_Tasks
begin

section \<open>The icon of a device is kept\<close>

text \<open>
  A device keeps the icon that was downloaded for it until another download for it succeeds: no
  event of the registry changes the copy. The locale \<open>keeping_op\<close> is the contract of the operations on
  one sub-device.
\<close>

subsection \<open>The copy of the icon\<close>

definition icon_of :: "dld_device \<Rightarrow> nat \<times> 8 word list \<times> string option" where
  "icon_of d = (icon_size d, icon_bytes d, icon_mime_type d)"

definition same_icon :: "dld_device \<Rightarrow> dld_device \<Rightarrow> bool" where
  "same_icon d d' \<longleftrightarrow> (icon_size d \<noteq> 0 \<longrightarrow> icon_of d' = icon_of d)"

lemma same_icon_eq: "icon_of d' = icon_of d \<Longrightarrow> same_icon d d'"
  by (simp add: same_icon_def)

lemma icon_of_upd_context: "icon_of (fst (upd_context i f d)) = icon_of d"
  by (simp add: icon_of_def upd_context_def case_prod_unfold Let_def)

lemma icon_subscribe_to:
  "dld_device_subscribe_to_service_changes d = Some (d', eff) \<Longrightarrow> icon_of d' = icon_of d"
  using icon_of_upd_context [of _ "subscribe_context (dev_ref d)" d]
  by (auto simp: dld_device_subscribe_to_service_changes_def split: option.splits) (metis fst_conv)

lemma icon_subscribe_context: "prv_device_subscribe_context d = Some (d', eff) \<Longrightarrow> icon_of d' = icon_of d"
  by (auto simp: prv_device_subscribe_context_def case_prod_unfold Let_def icon_of_upd_context
      dest!: icon_subscribe_to split: option.splits if_splits)

lemma icon_operations:
  "icon_of (fst (dld_device_unsubscribe d)) = icon_of d"
  "icon_of (fst (prv_declare pub d)) = icon_of d"
  "icon_of (remove_context i d) = icon_of d"
  "icon_of (d\<lparr>dev_timeout_id := tid\<rparr>) = icon_of d"
  "change_and_signal key val d = (d', eff) \<Longrightarrow> icon_of d' = icon_of d"
  "dld_device_append_new_context ref ip info bms d = Some (d', eff) \<Longrightarrow> icon_of d' = icon_of d"
  "prv_subscribe d = Some (d', eff) \<Longrightarrow> icon_of d' = icon_of d"
  "at_context i f d = Some (d', eff) \<Longrightarrow> icon_of d' = icon_of d"
proof -
  show "icon_of d' = icon_of d" if "dld_device_append_new_context ref ip info bms d = Some (d', eff)"
    using that by (auto simp: dld_device_append_new_context_def prv_device_append_new_context_def icon_of_def
        case_prod_unfold Let_def dest!: icon_subscribe_context)
  show "icon_of d' = icon_of d" if "prv_subscribe d = Some (d', eff)"
    using icon_subscribe_context [OF that [unfolded prv_subscribe_def]] by (simp add: icon_of_def)
  show "icon_of d' = icon_of d" if "at_context i f d = Some (d', eff)"
    using that icon_of_upd_context [of i f d] by (auto simp: at_context_def split: if_splits)
qed (auto simp: icon_of_def dld_device_unsubscribe_def prv_declare_def remove_context_def change_and_signal_def
    case_prod_unfold Let_def)

lemma same_icon_get_icon:
  assumes "dld_device_get_icon gl msg_new d t = Some (d', t', eff)"
  shows "same_icon d d'"
proof (cases "icon_size d = 0")
  case False
  then have "d' = d" using assms by (auto simp: dld_device_get_icon_def Let_def)
  then show ?thesis by (simp add: same_icon_eq)
qed (simp add: same_icon_def)

subsection \<open>What the handlers do to the icon of one device\<close>

text \<open>The device at an address, which was in use, has the same icon or is gone.\<close>

definition keeps_icon :: "addr \<Rightarrow> dld_upnp \<Rightarrow> dld_upnp \<Rightarrow> bool" where
  "keeps_icon a s s' \<longleftrightarrow>
     next_ref s \<le> next_ref s' \<and>
     (\<forall>d'. a < next_ref s \<longrightarrow> devices s' a = Some d' \<longrightarrow> (\<exists>d. devices s a = Some d \<and> same_icon d d'))"

lemma keeps_same: "devices s' = devices s \<Longrightarrow> next_ref s \<le> next_ref s' \<Longrightarrow> keeps_icon a s s'"
  by (simp add: keeps_icon_def same_icon_eq)

lemma keeps_trans: "keeps_icon a s1 s2 \<Longrightarrow> keeps_icon a s2 s3 \<Longrightarrow> keeps_icon a s1 s3"
  unfolding keeps_icon_def same_icon_def icon_of_def by fastforce

lemma keeps_set:
  assumes "devices s b = Some d" and "b = a \<Longrightarrow> same_icon d d'"
    and "devices s' = (devices s)(b \<mapsto> d')" and "next_ref s \<le> next_ref s'"
  shows "keeps_icon a s s'"
  using assms by (auto simp: keeps_icon_def same_icon_eq)

lemma keeps_new:
  "next_ref s \<le> b \<Longrightarrow> devices s' = (devices s)(b \<mapsto> d') \<Longrightarrow> next_ref s \<le> next_ref s' \<Longrightarrow> keeps_icon a s s'"
  by (auto simp: keeps_icon_def same_icon_eq)

lemma keeps_free: "free_device b s = Some s' \<Longrightarrow> keeps_icon a s s'"
  by (auto simp: free_device_def keeps_icon_def same_icon_eq split: option.splits if_splits)

lemma keeps_tables:
  "udn_map_insert u b s = Some s' \<Longrightarrow> keeps_icon a s s'"
  "udn_map_remove u s = Some s' \<Longrightarrow> keeps_icon a s s'"
  by (auto simp: udn_map_insert_def udn_map_remove_def keeps_icon_def same_icon_eq
      dest!: keeps_free [of _ _ _ a] split: bind_splits option.splits)

lemma keeps_on_device:
  assumes "on_device f b s = Some s'" and "\<And>d d' eff. b = a \<Longrightarrow> f d = Some (d', eff) \<Longrightarrow> same_icon d d'"
  shows "keeps_icon a s s'"
proof -
  obtain d d' eff where d: "devices s b = Some d" "f d = Some (d', eff)" "s' = emit eff (set_device b d' s)"
    using assms(1) by (auto simp: on_device_def split: bind_splits)
  show ?thesis
    by (rule keeps_set [OF d(1), of a d']) (use assms(2) d(2) in \<open>simp_all add: d(3) set_device_def\<close>)
qed

lemma keeps_on_context:
  assumes "on_context f b r s = Some s'"
  shows "keeps_icon a s s'"
proof -
  obtain i where "on_device (at_context i f) b s = Some s'"
    using assms by (auto simp: on_context_def split: bind_splits)
  then show ?thesis by (rule keeps_on_device) (blast intro: same_icon_eq icon_operations(8))
qed

lemma keeps_add_device:
  assumes "prv_add_device gl info bms ip udn s = Some s'"
  shows "keeps_icon a s s'"
proof -
  obtain found where lk: "lookup_device udn s = Some found"
    using assms by (auto simp: prv_add_device_def split: bind_splits)
  show ?thesis
  proof (cases found)
    case None
    let ?b = "Suc (Suc (next_ref s))"
    from assms lk None have "\<exists>d. devices s' = (devices s)(?b \<mapsto> d) \<and> next_ref s \<le> next_ref s'"
      by (auto simp: prv_add_device_def prv_create_device_queue_def prv_update_device_context_def set_device_def
          Let_def simp del: emit.simps split: bind_splits intro!: exI)
    then show ?thesis by (auto intro: keeps_new [of s ?b])
  next
    case (Some x)
    obtain b uc where x: "x = (b, uc)" by (cases x)
    with assms lk Some obtain d where d: "devices s b = Some d" by (auto simp: prv_add_device_def split: bind_splits)
    show ?thesis
    proof (cases "find_index (\<lambda>c. ctx_ip_address c = ip) (dev_contexts d)")
      case None
      with assms lk Some x d obtain d' eff where
        app: "dld_device_append_new_context (next_ref s) ip info bms d = Some (d', eff)"
        and s': "s' = emit eff (set_device b d' (s\<lparr>next_ref := Suc (next_ref s)\<rparr>))"
        by (auto simp: prv_add_device_def split: bind_splits)
      show ?thesis
        by (rule keeps_set [OF d, of a d'])
          (use icon_operations(6) [OF app] in \<open>simp_all add: s' set_device_def same_icon_eq\<close>)
    next
      case (Some i)
      with assms lk \<open>found = Some x\<close> x d show ?thesis by (simp add: prv_add_device_def keeps_same)
    qed
  qed
qed

lemma keeps_remove_known:
  assumes lk: "lookup_device udn s = Some (Some (b, uc))" and d: "devices s b = Some d"
    and i: "find_index (\<lambda>c. ctx_ip_address c = ip) (dev_contexts d) = Some i"
    and run: "prv_remove_device ip udn s = Some s'"
  shows "keeps_icon a s s'"
proof -
  let ?c = "dev_contexts d ! i" and ?d1 = "remove_context i d"
  define s1 where "s1 = emit (prv_dld_context_delete ?c) (set_device b ?d1 s)"
  have s1: "keeps_icon a s s1"
    by (rule keeps_set [OF d, of a ?d1]) (simp_all add: s1_def set_device_def same_icon_eq icon_operations(3))
  have d1: "devices s1 b = Some ?d1" by (simp add: s1_def set_device_def)
  have timer: "keeps_icon a s1 (emit eff (set_device b (?d1\<lparr>dev_timeout_id := tid\<rparr>) s1))" for eff tid
    by (rule keeps_set [OF d1, of a "?d1\<lparr>dev_timeout_id := tid\<rparr>"])
      (simp_all add: set_device_def same_icon_eq icon_operations(4))
  note defs = prv_remove_device_def lk d i s1_def [symmetric] Let_def
  have "keeps_icon a s1 s'"
  proof (cases uc)
    case None
    show ?thesis
    proof (cases "dev_contexts ?d1 = []")
      case True
      with None run have "udn_map_remove udn (emit (prv_lost_diagnostics_device (dev_path ?d1)) s1) = Some s'"
        by (simp add: defs del: emit.simps)
      from keeps_tables(2) [OF this, of a] show ?thesis by (simp add: keeps_icon_def)
    next
      case False
      with None run timer show ?thesis
        by (auto simp: defs keeps_same simp del: emit.simps split: if_splits)
    qed
  next
    case (Some p)
    then obtain pr where pr: "privs s1 p = Some pr" using run by (auto simp: defs split: bind_splits)
    show ?thesis
    proof (cases "dev_contexts ?d1 \<noteq> [] \<and> ctx_ip_address ?c \<noteq> ct_ip_address pr")
      case True
      with Some run timer pr show ?thesis
        by (auto simp: defs keeps_same simp del: emit.simps split: if_splits)
    next
      case False
      with Some run pr have "devices s' = devices s1" "next_ref s1 \<le> next_ref s'"
        by (auto simp: defs uc_map_remove_def prv_create_device_queue_def prv_update_device_context_def
            simp del: emit.simps split: if_splits bind_splits)
      then show ?thesis by (rule keeps_same)
    qed
  qed
  with s1 show ?thesis by (rule keeps_trans)
qed

lemma keeps_remove_device:
  assumes "prv_remove_device ip udn s = Some s'"
  shows "keeps_icon a s s'"
proof -
  obtain found where lk: "lookup_device udn s = Some found"
    using assms by (auto simp: prv_remove_device_def split: bind_splits)
  show ?thesis
  proof (cases found)
    case (Some x)
    then obtain b uc where x: "lookup_device udn s = Some (Some (b, uc))" using lk by (cases x) auto
    then obtain d where d: "devices s b = Some d"
      using assms by (auto simp: prv_remove_device_def split: bind_splits)
    show ?thesis
    proof (cases "find_index (\<lambda>c. ctx_ip_address c = ip) (dev_contexts d)")
      case None
      with assms show ?thesis by (simp add: prv_remove_device_def x d keeps_same)
    next
      case (Some i)
      from keeps_remove_known [OF x d this assms] show ?thesis .
    qed
  qed (use assms in \<open>simp add: prv_remove_device_def lk keeps_same\<close>)
qed

text \<open>The operations on one sub-device of a device that appears or disappears.\<close>

locale keeping_op =
  fixes act :: "device_info \<Rightarrow> proxy option \<Rightarrow> dld_upnp \<Rightarrow> dld_upnp option"
  assumes act_keeps: "act info bms s = Some s' \<Longrightarrow> keeps_icon a s s'"
begin

lemma visit_keeps: "visit act infos s = Some s' \<Longrightarrow> keeps_icon a s s'"
proof (induction infos arbitrary: s)
  case (Cons info infos)
  then obtain s1 where "act info (di_bms info) s = Some s1" "visit act infos s1 = Some s'"
    by (auto split: bind_splits)
  with Cons.IH act_keeps show ?case by (blast intro: keeps_trans)
qed (simp add: keeps_same)

lemma walk_keeps: "walk_sub_devices act info s = Some (p, s') \<Longrightarrow> keeps_icon a s s'"
  using visit_keeps by (auto simp: walk_visits)

end

interpretation add_icons: keeping_op "prv_add_sub_device gl ip" for gl ip
proof
  fix info bms s s' a
  assume "prv_add_sub_device gl ip info bms s = Some s'"
  then show "keeps_icon a s s'"
    by (auto simp: prv_add_sub_device_def keeps_same dest: keeps_add_device split: option.splits)
qed

interpretation remove_icons: keeping_op "prv_remove_sub_device ip" for ip
proof
  fix info bms s s' a
  assume "prv_remove_sub_device ip info bms s = Some s'"
  then show "keeps_icon a s s'"
    by (auto simp: prv_remove_sub_device_def keeps_same dest: keeps_remove_device split: option.splits)
qed

lemma keeps_chain_end: "prv_device_chain_end cancelled data s = Some s' \<Longrightarrow> keeps_icon a s s'"
  by (auto simp: prv_device_chain_end_def prv_device_new_free_def uc_map_remove_def keeps_icon_def same_icon_eq
      simp del: emit.simps dest!: keeps_free [of _ _ _ a] keeps_tables(1) [of _ _ _ _ a] split: bind_splits if_splits)

lemma keeps_unsubscribe: "unsubscribe_devices as s = Some s' \<Longrightarrow> keeps_icon a s s'"
proof (induction as arbitrary: s)
  case (Cons b as)
  then obtain d where d: "devices s b = Some d"
    and run: "unsubscribe_devices as (emit (snd (dld_device_unsubscribe d))
      (set_device b (fst (dld_device_unsubscribe d)) s)) = Some s'"
    by (auto simp: case_prod_unfold Let_def split: bind_splits)
  have "keeps_icon a s (emit (snd (dld_device_unsubscribe d)) (set_device b (fst (dld_device_unsubscribe d)) s))"
    by (rule keeps_set [OF d, of a "fst (dld_device_unsubscribe d)"])
      (simp_all add: set_device_def same_icon_eq icon_operations(1))
  with Cons.IH [OF run] show ?case by (rule keeps_trans [rotated])
qed (simp add: keeps_same)

text \<open>Every event but another successful download for the device.\<close>

definition downloads :: "addr \<Rightarrow> upnp_event \<Rightarrow> bool" where
  "downloads a e \<longleftrightarrow>
     (case e of Ev_icon_session (Soup_successful body) b t \<Rightarrow> b = a | _ \<Rightarrow> False)"

lemma keeps_available: "prv_device_available_cb gl info ip s = Some s' \<Longrightarrow> keeps_icon a s s'"
  by (auto simp: prv_device_available_cb_def prv_add_bm_service_sub_devices_def keeps_same
      dest!: add_icons.walk_keeps keeps_add_device intro: keeps_trans split: option.splits bind_splits if_splits)

lemma keeps_unavailable: "prv_device_unavailable_cb info ip s = Some s' \<Longrightarrow> keeps_icon a s s'"
  by (auto simp: prv_device_unavailable_cb_def prv_remove_bm_service_sub_devices_def keeps_same
      dest!: remove_icons.walk_keeps keeps_remove_device intro: keeps_trans split: option.splits bind_splits)

lemma keeps_get_icon:
  assumes inv: "upnp_inv s" and t: "task_path t = Some path" "task_async t = Some cb"
    and run: "dld_upnp_get_icon gl msg_new s t = Some (s', t', eff)"
  shows "keeps_icon a s s'"
  using inv t
proof (cases rule: checked_device)
  case (1 d u)
  then obtain d' where g: "dld_device_get_icon gl msg_new d t = Some (d', t', eff)"
    and s': "s' = set_device (dev_ref d) d' s"
    using run by (auto simp: dld_upnp_get_icon_def on_checked_device_def split: bind_splits)
  show ?thesis
    by (rule keeps_set [of _ "dev_ref d" d _ d'])
      (use 1 same_icon_get_icon [OF g] in \<open>simp_all add: s' set_device_def usable_def\<close>)
next
  case 2
  then show ?thesis using run by (simp add: dld_upnp_get_icon_def on_checked_device_def keeps_same)
qed

lemma keeps_step:
  assumes "upnp_step gl e s = Some s'" and "\<not> downloads a e" and "upnp_inv s" and "ev_possible gl e s"
  shows "keeps_icon a s s'"
  using assms(1)
proof (cases e)
  case (Ev_available info ip)
  with assms show ?thesis by (simp add: upnp_step.simps keeps_available)
next
  case (Ev_unavailable info ip)
  with assms show ?thesis by (simp add: upnp_step.simps keeps_unavailable)
next
  case (Ev_run_task q pub)
  then obtain x t ts where run: "run_service_task pub q t (upd_queue q (\<lambda>x. x\<lparr>q_tasks := ts\<rparr>) s) = Some s'"
    using assms by (auto simp: upnp_step.simps split: bind_splits list.splits)
  let ?s = "upd_queue q (\<lambda>x. x\<lparr>q_tasks := ts\<rparr>) s"
  have q: "devices (upd_queue q f s) = devices s \<and> next_ref (upd_queue q f s) = next_ref s" for f q s
    by (simp add: upd_queue_def)
  have "keeps_icon a ?s s'"
  proof (cases t)
    case (Prv_subscribe b)
    with run have "on_device prv_subscribe b ?s = Some s'" by (simp add: run_service_task_def)
    then show ?thesis by (rule keeps_on_device) (rule same_icon_eq, rule icon_operations(7))
  next
    case (Prv_declare b)
    with run obtain d where d: "devices ?s b = Some d" by (auto simp: run_service_task_def split: bind_splits)
    show ?thesis
      by (rule keeps_set [OF d, of a "fst (prv_declare pub d)"])
        (use run d in \<open>auto simp: run_service_task_def Prv_declare set_device_def q same_icon_eq icon_operations(2)
          case_prod_unfold Let_def simp del: emit.simps split: if_splits\<close>)
  qed
  then show ?thesis by (simp add: keeps_icon_def q)
next
  case (Ev_queue_end q)
  with assms show ?thesis
    by (auto simp: upnp_step.simps run_finally_def prv_device_context_switch_end_def prv_device_new_free_def
        keeps_icon_def same_icon_eq dest!: keeps_chain_end [of _ _ _ _ a] split: bind_splits queue_finally.splits if_splits)
next
  case (Ev_timer tid)
  let ?s = "s\<lparr>sources := filter (\<lambda>(j, _). j \<noteq> tid) (sources s)\<rparr>"
  from Ev_timer assms obtain cb where run: "run_timer cb ?s = Some s'"
    by (auto simp: upnp_step.simps split: bind_splits)
  have "keeps_icon a ?s s'"
  proof (cases cb)
    case (Subscribe_to_service_changes b)
    with run obtain d d' eff where d: "devices ?s b = Some d"
      and sub: "dld_device_subscribe_to_service_changes (d\<lparr>dev_timeout_id := 0\<rparr>) = Some (d', eff)"
      and s': "s' = emit eff (set_device b d' ?s)"
      by (auto simp: run_timer_def prv_subscribe_to_service_changes_def simp del: emit.simps split: bind_splits)
    show ?thesis
      by (rule keeps_set [OF d, of a d'])
        (use icon_subscribe_to [OF sub] in \<open>simp_all add: s' set_device_def same_icon_eq icon_of_def\<close>)
  next
    case (Re_enable_bms_subscription b r)
    with run show ?thesis by (auto simp: run_timer_def intro: keeps_on_context)
  qed
  then show ?thesis by (simp add: keeps_icon_def)
next
  case (Ev_subscription_lost b r)
  with assms show ?thesis by (auto simp: upnp_step.simps intro: keeps_on_context)
next
  case (Ev_device_status b str)
  with assms show ?thesis
    by (auto simp: upnp_step.simps prv_bm_device_status_cb_def intro!: same_icon_eq dest: icon_operations(5)
        elim!: keeps_on_device)
next
  case (Ev_test_ids b str)
  with assms show ?thesis
    by (auto simp: upnp_step.simps prv_bm_test_ids_cb_def prv_bm_test_ids_prop_change_def
        intro!: same_icon_eq dest: icon_operations(5) elim!: keeps_on_device split: option.splits)
next
  case (Ev_active_test_ids b str)
  with assms show ?thesis
    by (auto simp: upnp_step.simps prv_bm_active_test_ids_cb_def prv_bm_test_ids_prop_change_def
        intro!: same_icon_eq dest: icon_operations(5) elim!: keeps_on_device split: option.splits)
next
  case (Ev_get_icon msg_new t)
  with assms show ?thesis by (auto simp: upnp_step.simps ev_possible.simps intro: keeps_get_icon)
next
  case (Ev_icon_session status b t)
  with assms show ?thesis
    by (auto simp: upnp_step.simps downloads_def prv_get_icon_session_cb_def same_icon_eq
        elim!: keeps_on_device split: soup_status.splits)
next
  case (Ev_context_available ip)
  with assms show ?thesis
    by (auto simp: upnp_step.simps prv_on_context_available_def keeps_same simp del: emit.simps)
next
  case Ev_rescan
  with assms show ?thesis by (auto simp: upnp_step.simps dld_upnp_rescan_def keeps_same simp del: emit.simps)
next
  case Ev_unsubscribe
  with assms show ?thesis by (simp add: upnp_step.simps dld_upnp_unsubscribe_def keeps_unsubscribe)
qed

text \<open>A sequence of events after which the device still exists.\<close>

lemma keeps_run:
  "run_events gl es s = Some s' \<Longrightarrow> upnp_reach gl s \<Longrightarrow> list_all (\<lambda>e. \<not> downloads a e) es \<Longrightarrow> keeps_icon a s s'"
proof (induction es arbitrary: s)
  case (Cons e es)
  then obtain s1 where e: "ev_possible gl e s" "upnp_step gl e s = Some s1" and run: "run_events gl es s1 = Some s'"
    by (auto split: if_splits bind_splits)
  have "keeps_icon a s s1" using keeps_step [OF e(2) _ reach_inv [OF Cons.prems(2)] e(1)] Cons.prems(3) by simp
  moreover have "keeps_icon a s1 s'"
    using Cons.IH [OF run reach_step [OF Cons.prems(2) e]] Cons.prems(3) by simp
  ultimately show ?case by (rule keeps_trans)
qed (simp add: keeps_same)

subsection \<open>An icon is downloaded once\<close>

text \<open>GetIcon on a device that has a copy: one idle handler, and the copy as the reply.\<close>

lemma cached_reply:
  assumes "icon_of d = (length body, body, mime_type)" and "body \<noteq> []"
    and "g_variant_new_string gl mime_type = Some mime" and new: "dld_task_get_icon_new gl m path params = Some t0"
  shows "\<exists>t' t''. dld_device_get_icon gl msg_new d (new_cancellable t0) = Some (d, t', [Idle_add]) \<and>
     dld_async_task_complete t' = Some (t'',
       [Return_response m (Some (GTuple [GArray ''y'' (map GByte body), mime])), Task_completed])"
  using assms
  by (auto simp: icon_of_def dld_device_get_icon_def prv_build_icon_result_def new_cancellable_def set_cb_def upd_async_def
      constructor_defs async_zero_def dld_async_task_complete_def prv_async_task_complete_def dld_task_complete_def
      split: gvariant.splits list.splits)

text \<open>What a successful download leaves in the device.\<close>

lemma downloaded:
  assumes inv: "upnp_inv s" and run: "upnp_step gl (Ev_icon_session (Soup_successful body) a dl) s = Some s1"
  obtains d0 d1 mime where "devices s a = Some d0" "devices s1 a = Some d1" "a < next_ref s1"
    "g_variant_new_string gl (icon_mime_type d0) = Some mime" "icon_of d1 = (length body, body, icon_mime_type d0)"
proof -
  obtain d0 d1 t1 eff where d0: "devices s a = Some d0"
    and f: "prv_get_icon_session_cb gl (Soup_successful body) d0 dl = Some (d1, t1, eff)"
    and s1: "s1 = emit [] (set_device a d1 s)"
    using run by (auto simp: upnp_step.simps on_device_def split: bind_splits)
  from f obtain mime where mime: "g_variant_new_string gl (icon_mime_type d0) = Some mime"
    and d1: "d1 = d0\<lparr>icon_size := length body, icon_bytes := body\<rparr>"
    by (auto simp: prv_get_icon_session_cb_def prv_build_icon_result_def Let_def)
  from inv have "reg_of s" by (simp add: upnp_inv_except_def)
  then have "a < next_ref s" unfolding reg_of_def by (rule reg_bound(1)) (simp add: domIff d0)
  then show thesis
    by (intro that [OF d0 _ _ mime, of d1]) (simp_all add: s1 d1 set_device_def icon_of_def)
qed

text \<open>C38: The icon of a device is downloaded once: after a download that delivered a non-empty body and
  whatever else happens to the registry short of another successful download for the same device
  (which a GetIcon that was called before this one ended can cause, and which replaces the copy),
  every GetIcon on the device is answered with the bytes of that body and the MIME type that the
  device had, from one idle handler and without asking the network, and leaves the registry as it
  was.\<close>

theorem icon_cached:
  assumes "upnp_reach gl s" and "devices s a = Some d0"
    and "upnp_step gl (Ev_icon_session (Soup_successful body) a dl) s = Some s1" and "body \<noteq> []"
    and "run_events gl es s1 = Some s2" and "list_all (\<lambda>e. \<not> downloads a e) es"
    and "dld_task_get_icon_new gl m path params = Some t"
    and "wanted_device (new_cancellable t) s2 = Some d" and "dev_ref d = a"
  shows "\<exists>mime t' t''. g_variant_new_string gl (icon_mime_type d0) = Some mime \<and>
     dld_upnp_get_icon gl msg_new s2 (new_cancellable t) = Some (s2, t', [Idle_add]) \<and>
     dld_async_task_complete t' = Some (t'',
       [Return_response m (Some (GTuple [GArray ''y'' (map GByte body), mime])), Task_completed])"
proof -
  from downloaded [OF reach_inv [OF assms(1)] assms(3)] assms(2) obtain d1 mime where
    d1: "devices s1 a = Some d1" "a < next_ref s1" and mime: "g_variant_new_string gl (icon_mime_type d0) = Some mime"
    and icon: "icon_of d1 = (length body, body, icon_mime_type d0)" by (metis option.inject)
  have "ev_possible gl (Ev_icon_session (Soup_successful body) a dl) s" using assms(2) by (simp add: ev_possible.simps)
  then have s1: "upnp_reach gl s1" by (rule reach_step [OF assms(1) _ assms(3)])
  have inv2: "upnp_inv s2" by (rule reach_inv [OF run_events_reach [OF assms(5) s1]])
  obtain a0 where t: "task_path (new_cancellable t) = Some (g_strstrip gl path)" "task_async (new_cancellable t) = Some a0"
    using assms(7) by (auto simp: constructor_defs new_cancellable_def upd_async_def split: gvariant.splits list.splits)
  show ?thesis
    using inv2 t
  proof (cases rule: checked_device)
    case (1 d' u)
    have d: "d' = d" using checked_wanted [OF t(1) 1(1)] assms(8) by simp
    with 1(2) assms(9) have at: "devices s2 a = Some d" by (simp add: usable_def)
    with keeps_run [OF assms(5) s1 assms(6)] d1 have "same_icon d1 d" by (auto simp: keeps_icon_def)
    with icon assms(4) have "icon_of d = (length body, body, icon_mime_type d0)"
      by (auto simp: same_icon_def icon_of_def)
    from cached_reply [OF this assms(4) mime assms(7), of msg_new] obtain t' t'' where
      g: "dld_device_get_icon gl msg_new d (new_cancellable t) = Some (d, t', [Idle_add])"
      and c: "dld_async_task_complete t' = Some (t'',
        [Return_response m (Some (GTuple [GArray ''y'' (map GByte body), mime])), Task_completed])" by blast
    have "set_device (dev_ref d) d s2 = s2" using at assms(9) by (simp add: set_device_def fun_upd_idem)
    with g 1(1) have "dld_upnp_get_icon gl msg_new s2 (new_cancellable t) = Some (s2, t', [Idle_add])"
      by (simp add: dld_upnp_get_icon_def on_checked_device_def d)
    with mime c show ?thesis by blast
  next
    case 2
    then show ?thesis using assms(8) t(1)
      by (auto simp: wanted_device_def prv_get_and_check_device_def split: option.splits bind_splits)
  qed
qed

text \<open>A device with an icon: GetIcon learns the MIME type and downloads, the copy survives a search.\<close>

definition icon_root :: device_info where
  "icon_root = DeviceInfo (sample_descr\<lparr>de_icon_url := Some ''http://10.0.0.1/i'', de_icon_mime_type := Some ''image/png''\<rparr>)
     (Some 7) []"

definition sample_icon :: dld_task where
  "sample_icon = the (dld_task_get_icon_new glib_ref 6 ''/com/intel/dLeynaDiagnostics/device/0''
     (GTuple [GString ''image/png'', GString '''']))"

definition icon_run :: "upnp_event list" where
  "icon_run =
     [Ev_available icon_root (Some ''10.0.0.1''), Ev_run_task 2 published, Ev_run_task 2 published, Ev_queue_end 2,
      Ev_get_icon (\<lambda>_. True) (new_cancellable sample_icon)]"

text \<open>The states before and after the download, and after the device was announced again.\<close>

definition icon_wanted :: dld_upnp where
  "icon_wanted = the (run_events glib_ref icon_run dld_upnp_new)"

definition icon_there :: dld_upnp where
  "icon_there = the (upnp_step glib_ref (Ev_icon_session (Soup_successful [1, 2]) 3 sample_icon) icon_wanted)"

definition later_run :: "upnp_event list" where
  "later_run = [Ev_rescan, Ev_available icon_root (Some ''10.0.0.2'')]"

definition icon_later :: dld_upnp where
  "icon_later = the (run_events glib_ref later_run icon_there)"

lemma icon_sample_runs:
  "run_events glib_ref icon_run dld_upnp_new = Some icon_wanted"
  "upnp_step glib_ref (Ev_icon_session (Soup_successful [1, 2]) 3 sample_icon) icon_wanted = Some icon_there"
  "run_events glib_ref later_run icon_there = Some icon_later"
proof -
  have "run_events glib_ref icon_run dld_upnp_new \<noteq> None" by code_simp
  then show "run_events glib_ref icon_run dld_upnp_new = Some icon_wanted" by (simp add: icon_wanted_def)
  have "upnp_step glib_ref (Ev_icon_session (Soup_successful [1, 2]) 3 sample_icon) icon_wanted \<noteq> None" by code_simp
  then show "upnp_step glib_ref (Ev_icon_session (Soup_successful [1, 2]) 3 sample_icon) icon_wanted = Some icon_there"
    by (simp add: icon_there_def)
  have "run_events glib_ref later_run icon_there \<noteq> None" by code_simp
  then show "run_events glib_ref later_run icon_there = Some icon_later" by (simp add: icon_later_def)
qed

theorem icon_cached_witness:
  "\<exists>t' t''. dld_upnp_get_icon glib_ref (\<lambda>_. True) icon_later (new_cancellable sample_icon) =
       Some (icon_later, t', [Idle_add]) \<and>
     dld_async_task_complete t' = Some (t'',
       [Return_response 6 (Some (GTuple [GArray ''y'' [GByte 1, GByte 2], GString ''image/png''])), Task_completed])"
proof -
  have reach: "upnp_reach glib_ref icon_wanted" by (rule run_events_reach [OF icon_sample_runs(1) reach_new])
  have "map_option icon_mime_type (devices icon_wanted 3) = Some (Some ''image/png'')" by code_simp
  then obtain d0 where d0: "devices icon_wanted 3 = Some d0" "icon_mime_type d0 = Some ''image/png''" by auto
  have "map_option dev_ref (wanted_device (new_cancellable sample_icon) icon_later) = Some 3" by code_simp
  then obtain d where d: "wanted_device (new_cancellable sample_icon) icon_later = Some d" "dev_ref d = 3" by auto
  have new: "dld_task_get_icon_new glib_ref 6 ''/com/intel/dLeynaDiagnostics/device/0''
     (GTuple [GString ''image/png'', GString '''']) = Some sample_icon"
    by (simp add: sample_icon_def dld_task_get_icon_new_def)
  have es: "list_all (\<lambda>e. \<not> downloads 3 e) later_run" by (simp add: later_run_def downloads_def)
  from icon_cached [OF reach d0(1) icon_sample_runs(2) _ icon_sample_runs(3) es new d, of "\<lambda>_. True"] d0(2)
  show ?thesis by (auto simp: g_variant_new_string_def glib_ref_def)
qed

end
