(* ===== verification/Daemon.thy ===== *)
theory Daemon
  imports Server
begin

section \<open>The entry points of the library, and the daemon\<close>

text \<open>
  The core library reaches \<open>server.c\<close> through a table of entry points, which \<open>daemon.c\<close> hands to the
  main loop. The daemon itself blocks the signals that end it, has them delivered to a file
  descriptor, watches that descriptor and runs the main loop. What the operating system, GLib and the
  main loop answer is a parameter.
\<close>

subsection \<open>server.c: the table of entry points\<close>

record 'st control_point =
  cp_initialize :: "connector \<Rightarrow> 'st \<Rightarrow> 'st dld_context"
  cp_free :: "'st dld_context \<Rightarrow> 'st dld_context"
  cp_server_name :: string
  cp_server_introspection :: "intro_interface list"
  cp_root_introspection :: "intro_interface list"
  cp_start_service :: "'st settings_ops \<Rightarrow> (nat \<Rightarrow> guint) \<Rightarrow> 'st dld_context \<Rightarrow> bool \<times> 'st dld_context"
  cp_stop_service :: "'st dld_context \<Rightarrow> 'st dld_context option"
  cp_get_version :: string

definition DLEYNA_DIAGNOSTICS_NAME :: string where
  "DLEYNA_DIAGNOSTICS_NAME = ''com.intel.dleyna-diagnostics''"

definition prv_control_point_free :: "'st dld_context \<Rightarrow> 'st dld_context" where
  "prv_control_point_free s = s"

definition prv_control_point_diagnostics_device_name :: string where
  "prv_control_point_diagnostics_device_name = DLEYNA_DIAGNOSTICS_NAME"

definition prv_control_point_diagnostics_device_introspection :: "intro_interface list" where
  "prv_control_point_diagnostics_device_introspection = g_diagnostics_device_introspection"

definition prv_control_point_root_introspection :: "intro_interface list" where
  "prv_control_point_root_introspection = g_root_introspection"

definition prv_control_point_get_version :: string where
  "prv_control_point_get_version = VERSION"

definition g_control_point :: "'st control_point" where
  "g_control_point =
     \<lparr>cp_initialize = prv_control_point_initialize,
      cp_free = prv_control_point_free,
      cp_server_name = prv_control_point_diagnostics_device_name,
      cp_server_introspection = prv_control_point_diagnostics_device_introspection,
      cp_root_introspection = prv_control_point_root_introspection,
      cp_start_service = prv_control_point_start_service,
      cp_stop_service = prv_control_point_stop_service,
      cp_get_version = prv_control_point_get_version\<rparr>"

definition dleyna_control_point_get :: "'st control_point" where
  "dleyna_control_point_get = g_control_point"

subsection \<open>daemon.c\<close>

definition DLD_DIAGNOSTICS_SERVICE_NAME :: string where
  "DLD_DIAGNOSTICS_SERVICE_NAME = ''dleyna-diagnostics-service''"

text \<open>
  The answers: whether the signals could be blocked, the descriptor for them (-1 on failure), whether
  the channel takes its flags and its encoding, the identifier of the watch, and for the main loop
  whether a signal arrived while it ran and what it returns.
\<close>

record daemon_env =
  env_sigprocmask :: bool
  env_signalfd :: int
  env_set_flags :: bool
  env_set_encoding :: bool
  env_add_watch :: guint
  env_signalled :: bool
  env_loop_result :: int

datatype daemon_call =
    Channel_new int
  | Channel_unref
  | Watch_added guint
  | Main_loop_start string
  | Main_loop_quit
  | Watch_dropped guint
  | Watch_removed guint

text \<open>The handler of the signals: the new identifier, whether the watch stays, and its calls.\<close>

definition prv_quit_handler :: "guint \<times> bool \<times> daemon_call list" where
  "prv_quit_handler = (0, False, [Main_loop_quit])"

definition prv_init_signal_handler :: "daemon_env \<Rightarrow> guint \<Rightarrow> bool \<times> guint \<times> daemon_call list" where
  "prv_init_signal_handler env g_sig_id =
     (let fd = env_signalfd env
      in if fd = -1 then (False, g_sig_id, [])
         else if \<not> env_set_flags env then (False, g_sig_id, [Channel_new fd, Channel_unref])
         else if \<not> env_set_encoding env then (False, g_sig_id, [Channel_new fd, Channel_unref])
         else (True, env_add_watch env, [Channel_new fd, Watch_added (env_add_watch env), Channel_unref]))"

text \<open>
  What the daemon sees of the main loop of the core library: GLib calls the handler when a signal
  arrives, and drops the watch if the handler returns FALSE. The identifier that is left is returned
  with the result of the loop.
\<close>

definition main_loop_run :: "daemon_env \<Rightarrow> guint \<Rightarrow> int \<times> guint \<times> daemon_call list" where
  "main_loop_run env g_sig_id =
     (if env_signalled env
      then (let (sig_id, keep, eff) = prv_quit_handler
            in (env_loop_result env, sig_id,
                [Main_loop_start DLD_DIAGNOSTICS_SERVICE_NAME] @ eff @ (if keep then [] else [Watch_dropped g_sig_id])))
      else (env_loop_result env, g_sig_id, [Main_loop_start DLD_DIAGNOSTICS_SERVICE_NAME]))"

text \<open>\<open>main\<close>: the exit status and the calls.\<close>

definition daemon_main :: "daemon_env \<Rightarrow> int \<times> daemon_call list" where
  "daemon_main env =
     (if \<not> env_sigprocmask env then (1, [])
      else (let (ok, sig_id, eff1) = prv_init_signal_handler env 0;
                (retval, sig_id1, eff2) =
                  (if ok then main_loop_run env sig_id else (1, sig_id, []))
            in (retval, eff1 @ eff2 @ (if sig_id1 \<noteq> 0 then [Watch_removed sig_id1] else []))))"

text \<open>C40: The daemon runs the main loop exactly if the signals could be blocked and are delivered to
  the channel, and exits with 1 otherwise. Every channel is released once. The watch, whose
  identifier GLib promises not to be 0, goes away exactly once: the main loop drops it after a signal,
  or the daemon removes it when the loop ended without one, and never both.\<close>

theorem daemon_releases:
  assumes "env_add_watch env \<noteq> 0"
  shows "case daemon_main env of (status, eff) \<Rightarrow>
     (let runs = env_sigprocmask env \<and> env_signalfd env \<noteq> -1 \<and> env_set_flags env \<and> env_set_encoding env
      in count_list eff (Main_loop_start ''dleyna-diagnostics-service'') = (if runs then 1 else 0) \<and>
         status = (if runs then env_loop_result env else 1) \<and>
         length (filter (\<lambda>c. \<exists>fd. c = Channel_new fd) eff) = count_list eff Channel_unref \<and>
         (\<forall>i. count_list eff (Watch_added i) = count_list eff (Watch_dropped i) + count_list eff (Watch_removed i)) \<and>
         filter (\<lambda>c. c \<in> {Watch_dropped (env_add_watch env), Watch_removed (env_add_watch env)}) eff =
           (if \<not> runs then []
            else if env_signalled env then [Watch_dropped (env_add_watch env)]
            else [Watch_removed (env_add_watch env)]))"
  using assms
  by (simp add: daemon_main_def prv_init_signal_handler_def main_loop_run_def prv_quit_handler_def
      DLD_DIAGNOSTICS_SERVICE_NAME_def Let_def)

theorem daemon_releases_witness:
  "\<exists>eff. daemon_main \<lparr>env_sigprocmask = True, env_signalfd = 5, env_set_flags = True, env_set_encoding = True,
        env_add_watch = 3, env_signalled = False, env_loop_result = 0\<rparr> = (0, eff) \<and>
     filter (\<lambda>c. c \<in> {Watch_dropped 3, Watch_removed 3}) eff = [Watch_removed 3]"
  using daemon_releases [of "\<lparr>env_sigprocmask = True, env_signalfd = 5, env_set_flags = True, env_set_encoding = True,
        env_add_watch = 3, env_signalled = False, env_loop_result = 0\<rparr>"]
  by (auto simp: Let_def split: prod.splits)

end
